(* ===== verification/Prelude.thy ===== *)
theory Prelude
  imports Main "HOL-Library.AList" "HOL-Library.Word" "HOL-Library.List_Lexorder"
begin

text \<open>
  Shared vocabulary of the thoth-mesh development: the Rust types the crates use and the
  generic lemmas on lists, association lists and bounded queues that the component proofs
  share.

  \<^item> A Rust \<open>char\<close> is a Unicode scalar value, modelled by its code point; a \<open>str\<close> is the
    list of its characters, and \<open>str_len\<close> is \<open>str::len\<close>, the number of bytes of the UTF-8
    encoding. \<open>str\<close> turns an ASCII literal into that representation.
  \<^item> A \<open>HashMap\<close> that the code iterates over is an association list with distinct keys:
    lookup is \<open>map_of\<close>, \<open>insert\<close> is \<open>AList.update\<close> and \<open>remove\<close> is \<open>AList.delete\<close>. The
    theorems hold for every order of the entries, which is how the unspecified iteration
    order of the hash map is covered.
  \<^item> A \<open>VecDeque\<close> or \<open>Vec\<close> is a list, front first.
  \<^item> An \<open>AtomicU64\<close> is a \<open>64 word\<close>: \<open>fetch_add\<close> wraps around.
\<close>

named_theorems store_simps \<open>unfolding rules of the keyed stores\<close>
named_theorems inv_intros \<open>preservation rules of the component invariants\<close>

section \<open>Types\<close>

type_synonym u8 = "8 word"
type_synonym u32 = "32 word"
type_synonym u64 = "64 word"
type_synonym rchar = nat
type_synonym rstr = "rchar list"
type_synonym ('k, 'v) hmap = "('k \<times> 'v) list"

text \<open>An expression that may panic: \<open>unwrap\<close>, \<open>expect\<close> and \<open>unreachable!\<close>.\<close>

datatype 'a outcome = Panics | Returns 'a

text \<open>The \<open>std::io::Error\<close> values the code distinguishes.\<close>

datatype io_error = UnexpectedEof | OtherIo rstr

type_synonym path = rstr

text \<open>The \<open>?\<close> operator.\<close>

definition and_then :: "'e + 'a \<Rightarrow> ('a \<Rightarrow> 'e + 'b) \<Rightarrow> 'e + 'b" where
  "and_then r k = (case r of Inl e \<Rightarrow> Inl e | Inr x \<Rightarrow> k x)"

lemma and_then_simps [simp]: "and_then (Inl e) k = Inl e" "and_then (Inr x) k = k x"
  by (simp_all add: and_then_def)

lemma and_then_Inr: "and_then r k = Inr y \<longleftrightarrow> (\<exists>x. r = Inr x \<and> k x = Inr y)"
  by (cases r) auto

section \<open>Strings\<close>

definition str :: "string \<Rightarrow> rstr" where
  "str s = map of_char s"

definition utf8_width :: "rchar \<Rightarrow> nat" where
  "utf8_width c = (if c < 128 then 1 else if c < 2048 then 2 else if c < 65536 then 3 else 4)"

definition str_len :: "rstr \<Rightarrow> nat" where
  "str_len s = sum_list (map utf8_width s)"

definition is_ascii_digit :: "rchar \<Rightarrow> bool" where
  "is_ascii_digit c \<longleftrightarrow> 48 \<le> c \<and> c \<le> 57"

definition is_ascii_upper :: "rchar \<Rightarrow> bool" where
  "is_ascii_upper c \<longleftrightarrow> 65 \<le> c \<and> c \<le> 90"

definition is_ascii_lower :: "rchar \<Rightarrow> bool" where
  "is_ascii_lower c \<longleftrightarrow> 97 \<le> c \<and> c \<le> 122"

definition is_ascii_alphanumeric :: "rchar \<Rightarrow> bool" where
  "is_ascii_alphanumeric c \<longleftrightarrow> is_ascii_digit c \<or> is_ascii_upper c \<or> is_ascii_lower c"

definition is_ascii_hexdigit :: "rchar \<Rightarrow> bool" where
  "is_ascii_hexdigit c \<longleftrightarrow> is_ascii_digit c \<or> (65 \<le> c \<and> c \<le> 70) \<or> (97 \<le> c \<and> c \<le> 102)"

definition to_ascii_lower :: "rchar \<Rightarrow> rchar" where
  "to_ascii_lower c = (if is_ascii_upper c then c + 32 else c)"

definition to_ascii_lowercase :: "rstr \<Rightarrow> rstr" where
  "to_ascii_lowercase s = map to_ascii_lower s"

definition eq_ignore_ascii_case :: "rstr \<Rightarrow> rstr \<Rightarrow> bool" where
  "eq_ignore_ascii_case s t \<longleftrightarrow> to_ascii_lowercase s = to_ascii_lowercase t"

text \<open>The characters with the Unicode property \<open>White_Space\<close>, which \<open>str::trim\<close> strips.\<close>

definition is_whitespace :: "rchar \<Rightarrow> bool" where
  "is_whitespace c \<longleftrightarrow> (9 \<le> c \<and> c \<le> 13) \<or> c = 32 \<or> c = 133 \<or> c = 160 \<or> c = 5760
     \<or> (8192 \<le> c \<and> c \<le> 8202) \<or> c = 8232 \<or> c = 8233 \<or> c = 8239 \<or> c = 8287 \<or> c = 12288"

definition trim :: "rstr \<Rightarrow> rstr" where
  "trim s = rev (dropWhile is_whitespace (rev (dropWhile is_whitespace s)))"

text \<open>\<open>str::split\<close> on one character: always at least one segment.\<close>

fun split_on :: "'a \<Rightarrow> 'a list \<Rightarrow> 'a list list" where
  "split_on c [] = [[]]"
| "split_on c (x # xs) =
     (if x = c then [] # split_on c xs
      else (case split_on c xs of [] \<Rightarrow> [[x]] | s # ss \<Rightarrow> (x # s) # ss))"

fun join_with :: "'a \<Rightarrow> 'a list list \<Rightarrow> 'a list" where
  "join_with c [] = []"
| "join_with c [s] = s"
| "join_with c (s # ss) = s @ c # join_with c ss"

lemma split_on_not_Nil [simp]: "split_on c xs \<noteq> []"
  by (cases xs) (auto split: list.splits)

lemma join_split [simp]: "join_with c (split_on c xs) = xs"
proof (induction xs)
  case (Cons x xs)
  then show ?case
    by (cases "split_on c xs" rule: list.exhaust; cases "tl (split_on c xs)") auto
qed simp

lemma split_on_inj: "split_on c xs = split_on c ys \<longleftrightarrow> xs = ys"
  by (metis join_split)

lemma set_split_on: "(\<Union>s \<in> set (split_on c xs). set s) = set xs - {c}"
proof (induction xs)
  case (Cons x xs)
  then show ?case by (cases "split_on c xs") auto
qed simp

lemma split_on_no_sep: "s \<in> set (split_on c xs) \<Longrightarrow> c \<notin> set s"
  using set_split_on [of c xs] by auto

lemma split_on_sep_free: "c \<notin> set xs \<Longrightarrow> split_on c xs = [xs]"
  by (induction xs) auto

lemma split_on_append: "c \<notin> set xs \<Longrightarrow> split_on c (xs @ c # ys) = xs # split_on c ys"
  by (induction xs) auto

lemma split_on_append_sep: "split_on c (xs @ c # ys) = split_on c xs @ split_on c ys"
proof (induction xs)
  case (Cons x xs)
  then show ?case by (cases "split_on c xs") auto
qed simp

lemma str_len_append [simp]: "str_len (s @ t) = str_len s + str_len t"
  by (simp add: str_len_def)

lemma str_len_Nil [simp]: "str_len [] = 0"
  by (simp add: str_len_def)

lemma str_len_ge_length: "length s \<le> str_len s"
  by (induction s) (auto simp: str_len_def utf8_width_def)

lemma str_len_ascii: "\<forall>c \<in> set s. c < 128 \<Longrightarrow> str_len s = length s"
  by (induction s) (auto simp: str_len_def utf8_width_def)

section \<open>Lists and association lists\<close>

text \<open>\<open>VecDeque::retain(|x| x != k)\<close>, the removal used by every eviction queue.\<close>

abbreviation retain_ne :: "'a \<Rightarrow> 'a list \<Rightarrow> 'a list" where
  "retain_ne k xs \<equiv> filter (\<lambda>x. x \<noteq> k) xs"

definition keys :: "('k, 'v) hmap \<Rightarrow> 'k set" where
  "keys m = fst ` set m"

lemma keys_dom: "keys m = dom (map_of m)"
  by (simp add: keys_def dom_map_of_conv_image_fst)

lemma keys_update [simp]: "keys (AList.update k v m) = insert k (keys m)"
  by (simp add: keys_def dom_update)

lemma keys_delete [simp]: "keys (AList.delete k m) = keys m - {k}"
  by (auto simp: keys_dom delete_conv')

lemma keys_Nil [simp]: "keys [] = {}"
  by (simp add: keys_def)

lemma finite_keys [simp]: "finite (keys m)"
  by (simp add: keys_def)

lemma map_of_None_keys: "map_of m k = None \<longleftrightarrow> k \<notin> keys m"
  by (auto simp: keys_dom)

lemma map_of_Some_keys: "map_of m k = Some v \<Longrightarrow> k \<in> keys m"
  by (auto simp: keys_dom)

lemma map_of_update_eq [simp]: "map_of (AList.update k v m) = (map_of m)(k \<mapsto> v)"
  by (simp add: update_conv')

lemma map_of_delete_eq [simp]: "map_of (AList.delete k m) = (map_of m)(k := None)"
  by (simp add: delete_conv')

lemma card_keys: "distinct (map fst m) \<Longrightarrow> card (keys m) = length m"
  by (metis keys_def distinct_card image_set length_map)

lemma length_update_new:
  "k \<notin> keys m \<Longrightarrow> length (AList.update k v m) = Suc (length m)"
  by (induction m) (auto simp: keys_def)

lemma set_update_subset: "set (AList.update k v m) \<subseteq> insert (k, v) (set m)"
  by (induction m) auto

lemma set_delete_subset: "set (AList.delete k m) \<subseteq> set m"
  by (auto simp: AList.delete_eq)

lemma distinct_retain_ne: "distinct xs \<Longrightarrow> distinct (retain_ne k xs @ [k])"
  by auto

lemma retain_ne_notin [simp]: "k \<notin> set xs \<Longrightarrow> retain_ne k xs = xs"
  by (induction xs) auto

lemma length_retain_ne_mem:
  "distinct xs \<Longrightarrow> k \<in> set xs \<Longrightarrow> Suc (length (retain_ne k xs)) = length xs"
  by (induction xs) auto

lemma list_ex_image: "list_ex (\<lambda>e. f e = a) xs \<longleftrightarrow> a \<in> f ` set xs"
  by (induction xs) auto

lemma find_SomeD: "find P xs = Some x \<Longrightarrow> x \<in> set xs \<and> P x"
  by (induction xs) (auto split: if_splits)

lemma find_Some_split:
  "find P xs = Some x \<Longrightarrow> \<exists>us vs. xs = us @ x # vs \<and> P x \<and> (\<forall>u \<in> set us. \<not> P u)"
proof (induction xs)
  case (Cons y ys)
  show ?case
  proof (cases "P y")
    case True
    with Cons.prems have "y # ys = [] @ x # ys \<and> P x" by simp
    then show ?thesis by (metis empty_iff empty_set)
  next
    case False
    with Cons obtain us vs where "ys = us @ x # vs" "P x" "\<forall>u \<in> set us. \<not> P u" by auto
    with False have "y # ys = (y # us) @ x # vs \<and> P x \<and> (\<forall>u \<in> set (y # us). \<not> P u)" by simp
    then show ?thesis by blast
  qed
qed simp

text \<open>\<open>VecDeque::iter().position\<close> and \<open>VecDeque::remove\<close>.\<close>

fun position :: "('a \<Rightarrow> bool) \<Rightarrow> 'a list \<Rightarrow> nat option" where
  "position P [] = None"
| "position P (x # xs) = (if P x then Some 0 else map_option Suc (position P xs))"

lemma position_append_last:
  "\<forall>x \<in> set xs. \<not> P x \<Longrightarrow> P y \<Longrightarrow> position P (xs @ [y]) = Some (length xs)"
  by (induction xs) auto

definition remove_at :: "nat \<Rightarrow> 'a list \<Rightarrow> 'a list" where
  "remove_at i xs = take i xs @ drop (Suc i) xs"

lemma position_None: "position P xs = None \<longleftrightarrow> (\<forall>x \<in> set xs. \<not> P x)"
  by (induction xs) auto

lemma position_Some:
  "position P xs = Some i \<Longrightarrow> i < length xs \<and> P (xs ! i) \<and> (\<forall>j < i. \<not> P (xs ! j))"
proof (induction xs arbitrary: i)
  case (Cons x xs)
  then show ?case by (auto split: if_splits simp: nth_Cons split: nat.splits)
qed simp

lemma remove_at_split:
  assumes "i < length xs"
  obtains us vs where "xs = us @ (xs ! i) # vs" "remove_at i xs = us @ vs" "length us = i"
  using assms id_take_nth_drop [OF assms] that [of "take i xs" "drop (Suc i) xs"]
  by (simp add: remove_at_def)

lemma remove_at_distinct:
  assumes "distinct xs" and "i < length xs"
  shows "distinct (remove_at i xs)" "set (remove_at i xs) = set xs - {xs ! i}"
    "remove_at i xs = retain_ne (xs ! i) xs"
proof -
  obtain us vs where *: "xs = us @ (xs ! i) # vs" "remove_at i xs = us @ vs"
    using assms(2) by (rule remove_at_split)
  define x where "x = xs ! i"
  have d: "x \<notin> set us" "x \<notin> set vs" "distinct (us @ vs)"
    using assms(1) *(1) unfolding x_def by (metis distinct_append distinct.simps(2) not_distinct_conv_prefix
      disjoint_insert(1) list.set(2) distinct_append)+
  show "distinct (remove_at i xs)" using d *(2) by simp
  show "remove_at i xs = retain_ne (xs ! i) xs"
    using d by (subst *(2), subst (2) *(1)) (simp flip: x_def)
  then show "set (remove_at i xs) = set xs - {xs ! i}" by auto
qed

text \<open>Going once around a ring of indices from any start visits each of them.\<close>

lemma ring_rotate: "map (\<lambda>i. xs ! ((a + i) mod length xs)) [0..<length xs] = rotate a xs"
  by (rule nth_equalityI) (simp_all add: nth_rotate)

lemma ring_indices:
  assumes "0 < (n :: nat)"
  shows "(\<lambda>i. (a + i) mod n) ` {0..<n} = {0..<n}"
proof -
  have "map (\<lambda>i. (a + i) mod n) [0..<n] = rotate a [0..<n]"
    by (rule nth_equalityI) (use assms in \<open>simp_all add: nth_rotate\<close>)
  then have "set (map (\<lambda>i. (a + i) mod n) [0..<n]) = set [0..<n]" by (simp only: set_rotate)
  then show ?thesis by simp
qed

section \<open>The queue that bounds a registry\<close>

text \<open>
  Four registries of the code (the broker's seen ids, the peer directory, the disconnected
  peers of the membership table and the rate limiter's principals) keep a FIFO of keys next
  to a keyed store and evict the front once the FIFO is longer than a capacity. The
  contract below is what each of them promises: the queue has no duplicates, it lists
  exactly the tracked keys, and it never exceeds the capacity.
\<close>

locale capped_registry =
  fixes init :: 's
    and step :: "'op \<Rightarrow> 's \<Rightarrow> 's"
    and wf :: "'s \<Rightarrow> bool"
    and queue :: "'s \<Rightarrow> 'k list"
    and tracked :: "'s \<Rightarrow> 'k set"
    and capacity :: nat
  assumes init_wf: "wf init"
    and init_queue: "queue init = []"
    and init_tracked: "tracked init = {}"
    and step_wf: "wf s \<Longrightarrow> wf (step x s)"
    and step_distinct: "wf s \<Longrightarrow> distinct (queue s) \<Longrightarrow> tracked s = set (queue s) \<Longrightarrow>
          distinct (queue (step x s))"
    and step_tracked: "wf s \<Longrightarrow> distinct (queue s) \<Longrightarrow> tracked s = set (queue s) \<Longrightarrow>
          tracked (step x s) = set (queue (step x s))"
    and step_capacity: "wf s \<Longrightarrow> distinct (queue s) \<Longrightarrow> tracked s = set (queue s) \<Longrightarrow>
          length (queue s) \<le> capacity \<Longrightarrow> length (queue (step x s)) \<le> capacity"
begin

text \<open>The contract is kept over every sequence of operations.\<close>

lemma run_ok:
  "wf s \<Longrightarrow> distinct (queue s) \<Longrightarrow> tracked s = set (queue s) \<Longrightarrow> length (queue s) \<le> capacity \<Longrightarrow>
   distinct (queue (fold step xs s)) \<and> tracked (fold step xs s) = set (queue (fold step xs s))
     \<and> length (queue (fold step xs s)) \<le> capacity \<and> wf (fold step xs s)"
  by (induction xs arbitrary: s) (auto simp: step_wf step_distinct step_tracked step_capacity)

lemma reachable_ok:
  "distinct (queue (fold step xs init))
     \<and> tracked (fold step xs init) = set (queue (fold step xs init))
     \<and> length (queue (fold step xs init)) \<le> capacity"
  using run_ok [of init xs] by (simp add: init_wf init_queue init_tracked)

lemma reachable_bounded: "card (tracked (fold step xs init)) \<le> capacity"
  using reachable_ok [of xs] card_length [of "queue (fold step xs init)"] by simp

end

section \<open>Step relations\<close>

text \<open>
  The interleavings of the broker's critical sections, of the connections and tasks of a node, and of its dial loops are step relations.
  An invariant that every step keeps holds in every run; a second contract adds what a run may do to the state in the meantime.
\<close>

locale invariant_machine =
  fixes step :: "'a \<Rightarrow> 'a \<Rightarrow> bool" and inv :: "'a \<Rightarrow> bool"
  assumes step_inv: "step s s' \<Longrightarrow> inv s \<Longrightarrow> inv s'"
begin

lemma run_inv: "step\<^sup>*\<^sup>* s s' \<Longrightarrow> inv s \<Longrightarrow> inv s'"
  by (induction rule: rtranclp_induct) (auto intro: step_inv)

end

locale progress_machine = invariant_machine +
  fixes progress :: "'a \<Rightarrow> 'a \<Rightarrow> bool"
  assumes progress_refl: "inv s \<Longrightarrow> progress s s"
    and progress_trans: "progress s s' \<Longrightarrow> progress s' s'' \<Longrightarrow> progress s s''"
    and step_progress: "step s s' \<Longrightarrow> inv s \<Longrightarrow> progress s s'"
begin

lemma run_progress: "step\<^sup>*\<^sup>* s s' \<Longrightarrow> inv s \<Longrightarrow> progress s s'"
proof (induction rule: rtranclp_induct)
  case (step y z)
  then show ?case using run_inv [of s y] step_progress progress_trans by blast
qed (rule progress_refl)

end

text \<open>One step of such a queue: append a key, then drop the front when it is over capacity.\<close>

definition push_capped :: "nat \<Rightarrow> 'k \<Rightarrow> 'k list \<Rightarrow> 'k list \<times> 'k option" where
  "push_capped cap k q =
     (let q' = q @ [k] in
      if length q' > cap then (case q' of [] \<Rightarrow> (q', None) | oldest # rest \<Rightarrow> (rest, Some oldest))
      else (q', None))"

lemma push_capped_None: "push_capped cap k q = (q', None) \<longleftrightarrow> q' = q @ [k] \<and> length q < cap"
  by (cases q) (auto simp: push_capped_def Let_def)

lemma push_capped_Some:
  "push_capped cap k q = (q', Some x) \<longleftrightarrow> q @ [k] = x # q' \<and> cap \<le> length q"
  by (cases q) (auto simp: push_capped_def Let_def)

lemmas push_capped_conv = push_capped_None push_capped_Some

text \<open>
  A queue that is re-ordered on every use is the tail of the history: \<open>last_n\<close> of the distinct keys in
  order of last use.
\<close>

definition last_n :: "nat \<Rightarrow> 'a list \<Rightarrow> 'a list" where
  "last_n n xs = drop (length xs - n) xs"

lemma length_last_n: "length (last_n n xs) = min n (length xs)"
  by (simp add: last_n_def)

lemma last_n_append_same: "length ys = n \<Longrightarrow> last_n n (xs @ ys) = ys"
  by (simp add: last_n_def)

lemma last_n_short: "length xs \<le> n \<Longrightarrow> last_n n xs = xs"
  by (simp add: last_n_def)

lemma last_n_Nil_iff: "0 < n \<Longrightarrow> last_n n xs = [] \<longleftrightarrow> xs = []"
  by (cases xs) (auto simp: last_n_def)

lemma map_last_n: "map f (last_n n xs) = last_n n (map f xs)"
  by (simp add: last_n_def drop_map)

lemma last_n_snoc_last_n: "last_n m (last_n n xs @ ys) = last_n (min m (n + length ys)) (xs @ ys)"
proof -
  have "drop (length xs - n) xs @ ys = drop (length xs - n) (xs @ ys)" by simp
  then show ?thesis
    unfolding last_n_def by (simp only: drop_drop length_drop length_append) (rule arg_cong2 [where f = drop], auto)
qed

lemma last_n_last_n: "last_n m (last_n n xs) = last_n (min m n) xs"
  using last_n_snoc_last_n [of m n xs "[]"] by simp

lemma remdups_snoc: "remdups (xs @ [x]) = retain_ne x (remdups xs) @ [x]"
  by (induction xs) auto

lemma touch_last_n:
  assumes "distinct D" and "0 < cap"
  defines "q \<equiv> last_n cap D"
  shows "fst (push_capped cap k (retain_ne k q)) = last_n cap (retain_ne k D @ [k])"
proof -
  obtain pre where D: "D = pre @ q" and full: "pre = [] \<or> length q = cap" and le: "length q \<le> cap"
  proof -
    have "D = take (length D - cap) D @ q" by (simp add: q_def last_n_def)
    moreover have "take (length D - cap) D = [] \<or> length q = cap" by (auto simp: q_def length_last_n)
    moreover have "length q \<le> cap" by (simp add: q_def length_last_n)
    ultimately show thesis using that by blast
  qed
  show ?thesis
  proof (cases "k \<in> set q")
    case True
    then have pre: "k \<notin> set pre" and dq: "distinct q" using assms(1) D by auto
    have len: "Suc (length (retain_ne k q)) = length q"
      using True dq by (rule length_retain_ne_mem [rotated])
    have "fst (push_capped cap k (retain_ne k q)) = retain_ne k q @ [k]"
      using len le by (simp add: push_capped_def Let_def)
    also have "\<dots> = last_n cap (pre @ retain_ne k q @ [k])"
      using full len le by (auto simp: last_n_append_same last_n_short)
    finally show ?thesis using True pre by (simp add: D)
  next
    case notq: False
    show ?thesis
    proof (cases "length q < cap")
      case True
      with full have "pre = []" by auto
      with True notq show ?thesis by (simp add: D push_capped_def last_n_short)
    next
      case False
      then obtain x q' where q: "q = x # q'" "length q = cap" using le assms(2) by (cases q) auto
      have "last_n cap (retain_ne k D @ [k]) = last_n cap ((retain_ne k pre @ [x]) @ q' @ [k])"
        using notq q by (auto simp: D)
      also have "\<dots> = q' @ [k]" using q by (intro last_n_append_same) simp
      finally show ?thesis using notq q by (simp add: push_capped_def Let_def)
    qed
  qed
qed

lemma push_capped_length: "length q \<le> cap \<Longrightarrow> length (fst (push_capped cap k q)) \<le> cap"
  by (cases q) (auto simp: push_capped_def Let_def)

lemma push_last_n:
  "0 < cap \<Longrightarrow> fst (push_capped cap k (last_n cap D)) = last_n cap (D @ [k])"
proof (cases "length D < cap")
  case True
  then show "fst (push_capped cap k (last_n cap D)) = last_n cap (D @ [k])"
    by (simp add: last_n_short push_capped_def)
next
  case False
  assume "0 < cap"
  with False obtain x q where q: "last_n cap D = x # q" "length q = cap - 1"
    by (cases "last_n cap D") (use length_last_n [of cap D] in auto)
  have "D = take (length D - cap) D @ x # q" by (metis append_take_drop_id last_n_def q(1))
  then have "last_n cap (D @ [k]) = last_n cap ((take (length D - cap) D @ [x]) @ (q @ [k]))"
    by (metis append_Cons append_Nil append_assoc)
  also have "\<dots> = q @ [k]" using q \<open>0 < cap\<close> by (intro last_n_append_same) simp
  finally show ?thesis using q \<open>0 < cap\<close> by (simp add: push_capped_def Let_def)
qed

end
