(* ===== verification/Topics.thy ===== *)
theory Topics
  imports Prelude
begin

text \<open>
  Topic names and topic filters (crates/thoth-mesh-core/src/topic.rs, filter.rs and the two
  error types of error.rs): validation, the literal/wildcard distinction and matching.
  The main results: matching by the source's two-index loop is the recursive reference
  \<open>seg_match\<close>; a filter without wildcards matches exactly the topic of the same name; the
  \<open>expect\<close> of \<open>as_topic\<close> never panics on a validated filter.
\<close>

section \<open>Topics\<close>

definition MAX_TOPIC_LEN :: nat where
  "MAX_TOPIC_LEN = 256"

datatype topic_error = TEmpty | TTooLong nat nat | TInvalidChar rchar

datatype topic = Topic (topic_str: rstr)

definition is_valid_topic_char :: "rchar \<Rightarrow> bool" where
  "is_valid_topic_char c \<longleftrightarrow> is_ascii_alphanumeric c \<or> c \<in> {46, 45, 95, 47}"

definition topic_validate :: "rstr \<Rightarrow> topic_error + unit" where
  "topic_validate s =
     (if s = [] then Inl TEmpty
      else if str_len s > MAX_TOPIC_LEN then Inl (TTooLong (str_len s) MAX_TOPIC_LEN)
      else case find (\<lambda>c. \<not> is_valid_topic_char c) s of
             Some c \<Rightarrow> Inl (TInvalidChar c)
           | None \<Rightarrow> Inr ())"

definition topic_from_str :: "rstr \<Rightarrow> topic_error + topic" where
  "topic_from_str s = (case topic_validate s of Inl e \<Rightarrow> Inl e | Inr _ \<Rightarrow> Inr (Topic s))"

definition topic_try_from :: "rstr \<Rightarrow> topic_error + topic" where
  "topic_try_from s = (case topic_validate s of Inl e \<Rightarrow> Inl e | Inr _ \<Rightarrow> Inr (Topic s))"

text \<open>
  What serde sees of a topic or filter: a string, which is validated when it is read. \<open>'e\<close> is the error of the format for
  something that is no string.
\<close>

datatype ('e, 'f) deserialize_error = NotAString 'e | Custom 'f

definition topic_serialize :: "topic \<Rightarrow> rstr" where
  "topic_serialize t = topic_str t"

definition topic_deserialize :: "'e + rstr \<Rightarrow> ('e, topic_error) deserialize_error + topic" where
  "topic_deserialize r =
     (case r of
        Inl e \<Rightarrow> Inl (NotAString e)
      | Inr s \<Rightarrow> (case topic_try_from s of Inl err \<Rightarrow> Inl (Custom err) | Inr t \<Rightarrow> Inr t))"

text \<open>The well-formedness that construction and deserialization both establish.\<close>

definition wf_topic :: "topic \<Rightarrow> bool" where
  "wf_topic t \<longleftrightarrow> topic_validate (topic_str t) = Inr ()"

section \<open>Filters\<close>

datatype topic_filter_error =
  FEmpty | FTooLong nat nat | FInvalidChar rchar | FMultiLevelWildcardNotLast

datatype topic_filter = TopicFilter (filter_str: rstr)

definition SEGMENT_SEPARATOR :: rchar where
  "SEGMENT_SEPARATOR = 46"

definition SINGLE_LEVEL_WILDCARD :: rstr where
  "SINGLE_LEVEL_WILDCARD = [43]"

definition MULTI_LEVEL_WILDCARD :: rstr where
  "MULTI_LEVEL_WILDCARD = [35]"

definition is_literal :: "topic_filter \<Rightarrow> bool" where
  "is_literal f \<longleftrightarrow>
     \<not> list_ex (\<lambda>seg. seg = SINGLE_LEVEL_WILDCARD \<or> seg = MULTI_LEVEL_WILDCARD)
         (split_on SEGMENT_SEPARATOR (filter_str f))"

text \<open>\<open>as_topic\<close> with the panic of its \<open>expect\<close> written out, and the value it returns.\<close>

definition as_topic_checked :: "topic_filter \<Rightarrow> topic option outcome" where
  "as_topic_checked f =
     (if is_literal f
      then (case topic_from_str (filter_str f) of Inl _ \<Rightarrow> Panics | Inr t \<Rightarrow> Returns (Some t))
      else Returns None)"

definition as_topic :: "topic_filter \<Rightarrow> topic option" where
  "as_topic f = (if is_literal f then Some (Topic (filter_str f)) else None)"

text \<open>The matching loop: \<open>fi\<close> and \<open>ti\<close> index the filter's and the topic's segments.\<close>

function matches_loop :: "rstr list \<Rightarrow> rstr list \<Rightarrow> nat \<Rightarrow> nat \<Rightarrow> bool" where
  "matches_loop fs ts fi ti =
     (if fi < length fs then
        (let segment = fs ! fi in
         if segment = MULTI_LEVEL_WILDCARD then True
         else if ti < length ts then
           (if segment \<noteq> SINGLE_LEVEL_WILDCARD \<and> segment \<noteq> ts ! ti then False
            else matches_loop fs ts (fi + 1) (ti + 1))
         else False)
      else ti = length ts)"
  by pat_completeness auto
termination
  by (relation "measure (\<lambda>(fs, ts, fi, ti). length fs - fi)") auto

declare matches_loop.simps [simp del]

definition filter_matches :: "topic_filter \<Rightarrow> topic \<Rightarrow> bool" where
  "filter_matches f t =
     matches_loop (split_on SEGMENT_SEPARATOR (filter_str f))
       (split_on SEGMENT_SEPARATOR (topic_str t)) 0 0"

text \<open>The \<open>for (i, segment)\<close> loop of \<open>TopicFilter::validate\<close>.\<close>

fun validate_segments :: "nat \<Rightarrow> nat \<Rightarrow> rstr list \<Rightarrow> topic_filter_error + unit" where
  "validate_segments i last_ix [] = Inr ()"
| "validate_segments i last_ix (seg # segs) =
     (if seg = MULTI_LEVEL_WILDCARD then
        (if i \<noteq> last_ix then Inl FMultiLevelWildcardNotLast
         else validate_segments (i + 1) last_ix segs)
      else if seg = SINGLE_LEVEL_WILDCARD then validate_segments (i + 1) last_ix segs
      else case find (\<lambda>c. \<not> is_valid_topic_char c) seg of
             Some c \<Rightarrow> Inl (FInvalidChar c)
           | None \<Rightarrow> validate_segments (i + 1) last_ix segs)"

definition filter_validate :: "rstr \<Rightarrow> topic_filter_error + unit" where
  "filter_validate s =
     (if s = [] then Inl FEmpty
      else if str_len s > MAX_TOPIC_LEN then Inl (FTooLong (str_len s) MAX_TOPIC_LEN)
      else (let segments = split_on SEGMENT_SEPARATOR s
            in validate_segments 0 (length segments - 1) segments))"

definition filter_from_str :: "rstr \<Rightarrow> topic_filter_error + topic_filter" where
  "filter_from_str s = (case filter_validate s of Inl e \<Rightarrow> Inl e | Inr _ \<Rightarrow> Inr (TopicFilter s))"

definition filter_try_from :: "rstr \<Rightarrow> topic_filter_error + topic_filter" where
  "filter_try_from s = (case filter_validate s of Inl e \<Rightarrow> Inl e | Inr _ \<Rightarrow> Inr (TopicFilter s))"

definition filter_serialize :: "topic_filter \<Rightarrow> rstr" where
  "filter_serialize f = filter_str f"

definition filter_deserialize :: "'e + rstr \<Rightarrow> ('e, topic_filter_error) deserialize_error + topic_filter" where
  "filter_deserialize r =
     (case r of
        Inl e \<Rightarrow> Inl (NotAString e)
      | Inr s \<Rightarrow> (case filter_try_from s of Inl err \<Rightarrow> Inl (Custom err) | Inr f \<Rightarrow> Inr f))"

definition filter_of_topic :: "topic \<Rightarrow> topic_filter" where
  "filter_of_topic t = TopicFilter (topic_str t)"

definition wf_filter :: "topic_filter \<Rightarrow> bool" where
  "wf_filter f \<longleftrightarrow> filter_validate (filter_str f) = Inr ()"

lemmas wildcard_defs = SEGMENT_SEPARATOR_def SINGLE_LEVEL_WILDCARD_def MULTI_LEVEL_WILDCARD_def

section \<open>Validation\<close>

text \<open>Deserializing gives exactly the well-formed values, and gives back what was serialized.\<close>

lemma topic_deserialize_Inr: "topic_deserialize r = Inr t \<longleftrightarrow> r = Inr (topic_serialize t) \<and> wf_topic t"
  by (auto simp: topic_deserialize_def topic_try_from_def topic_serialize_def wf_topic_def split: sum.splits)

lemma filter_deserialize_Inr: "filter_deserialize r = Inr f \<longleftrightarrow> r = Inr (filter_serialize f) \<and> wf_filter f"
  by (auto simp: filter_deserialize_def filter_try_from_def filter_serialize_def wf_filter_def split: sum.splits)

lemma wf_topic_iff:
  "wf_topic t \<longleftrightarrow> topic_str t \<noteq> [] \<and> str_len (topic_str t) \<le> MAX_TOPIC_LEN
     \<and> (\<forall>c \<in> set (topic_str t). is_valid_topic_char c)"
  by (auto simp: wf_topic_def topic_validate_def find_None_iff dest: find_SomeD split: option.splits)

lemma valid_topic_char_ascii: "is_valid_topic_char c \<Longrightarrow> c < 128"
  by (auto simp: is_valid_topic_char_def is_ascii_alphanumeric_def is_ascii_digit_def
      is_ascii_upper_def is_ascii_lower_def)

lemma wildcards_not_topic_chars: "\<not> is_valid_topic_char 43" "\<not> is_valid_topic_char 35"
  by (auto simp: is_valid_topic_char_def is_ascii_alphanumeric_def is_ascii_digit_def
      is_ascii_upper_def is_ascii_lower_def)

lemma separator_is_topic_char: "is_valid_topic_char SEGMENT_SEPARATOR"
  by (simp add: is_valid_topic_char_def SEGMENT_SEPARATOR_def)

lemma topic_from_str_Inr: "topic_from_str s = Inr t \<longleftrightarrow> t = Topic s \<and> wf_topic (Topic s)"
  by (cases "topic_validate s") (auto simp: topic_from_str_def wf_topic_def)

lemma filter_from_str_Inr: "filter_from_str s = Inr f \<longleftrightarrow> f = TopicFilter s \<and> wf_filter (TopicFilter s)"
  by (cases "filter_validate s") (auto simp: filter_from_str_def wf_filter_def)

lemma validate_segments_Inr:
  "validate_segments i last_ix segs = Inr () \<longleftrightarrow>
     (\<forall>k < length segs.
        (segs ! k = MULTI_LEVEL_WILDCARD \<longrightarrow> i + k = last_ix)
        \<and> (segs ! k \<noteq> MULTI_LEVEL_WILDCARD \<and> segs ! k \<noteq> SINGLE_LEVEL_WILDCARD \<longrightarrow>
             (\<forall>c \<in> set (segs ! k). is_valid_topic_char c)))"
proof (induction segs arbitrary: i)
  case (Cons seg segs)
  have all_Suc: "(\<forall>k < length (seg # segs). P k) \<longleftrightarrow> P 0 \<and> (\<forall>k < length segs. P (Suc k))" for P
    by (auto simp: less_Suc_eq_0_disj)
  show ?case
    unfolding all_Suc using Cons.IH [of "i + 1"]
    by (auto simp: find_None_iff wildcard_defs dest: find_SomeD split: option.splits)
qed simp


section \<open>Matching\<close>

text \<open>The recursive reference: segment by segment, a trailing \<open>#\<close> absorbs the rest.\<close>

fun seg_match :: "rstr list \<Rightarrow> rstr list \<Rightarrow> bool" where
  "seg_match [] ts = (ts = [])"
| "seg_match (f # fs) ts =
     (f = MULTI_LEVEL_WILDCARD \<or>
      (case ts of [] \<Rightarrow> False | t # ts' \<Rightarrow> (f = SINGLE_LEVEL_WILDCARD \<or> f = t) \<and> seg_match fs ts'))"

lemma matches_loop_seg_match:
  "fi \<le> length fs \<Longrightarrow> ti \<le> length ts \<Longrightarrow>
   matches_loop fs ts fi ti = seg_match (drop fi fs) (drop ti ts)"
proof (induction fs ts fi ti rule: matches_loop.induct)
  case (1 fs ts fi ti)
  show ?case
  proof (cases "fi < length fs")
    case False
    then show ?thesis using "1.prems" by (subst matches_loop.simps) auto
  next
    case fi: True
    then have fs: "drop fi fs = fs ! fi # drop (Suc fi) fs" by (simp add: Cons_nth_drop_Suc)
    show ?thesis
    proof (cases "ti < length ts")
      case True
      then have "drop ti ts = ts ! ti # drop (Suc ti) ts" by (simp add: Cons_nth_drop_Suc)
      with fi True fs "1.IH" show ?thesis by (auto simp: matches_loop.simps [of fs ts fi ti] Let_def)
    next
      case False
      with fi fs show ?thesis by (subst matches_loop.simps) (simp add: Let_def)
    qed
  qed
qed

lemma filter_matches_seg:
  "filter_matches f t =
     seg_match (split_on SEGMENT_SEPARATOR (filter_str f)) (split_on SEGMENT_SEPARATOR (topic_str t))"
  by (simp add: filter_matches_def matches_loop_seg_match)

text \<open>The pointwise reading of one filter segment against one topic segment.\<close>

definition seg_ok :: "rstr \<Rightarrow> rstr \<Rightarrow> bool" where
  "seg_ok f t \<longleftrightarrow> f = SINGLE_LEVEL_WILDCARD \<or> f = t"

lemma seg_match_no_multi:
  "MULTI_LEVEL_WILDCARD \<notin> set fs \<Longrightarrow> seg_match fs ts = list_all2 seg_ok fs ts"
  by (induction fs ts rule: seg_match.induct) (auto simp: seg_ok_def split: list.splits)

lemma seg_match_multi_last:
  "MULTI_LEVEL_WILDCARD \<notin> set fs \<Longrightarrow>
   seg_match (fs @ [MULTI_LEVEL_WILDCARD]) ts =
     (length fs \<le> length ts \<and> list_all2 seg_ok fs (take (length fs) ts))"
proof (induction fs arbitrary: ts)
  case (Cons f fs)
  then show ?case by (cases ts) (auto simp: seg_ok_def)
qed simp

lemma is_literal_iff:
  "is_literal f \<longleftrightarrow> SINGLE_LEVEL_WILDCARD \<notin> set (split_on SEGMENT_SEPARATOR (filter_str f))
     \<and> MULTI_LEVEL_WILDCARD \<notin> set (split_on SEGMENT_SEPARATOR (filter_str f))"
  by (auto simp: is_literal_def list_ex_iff)

lemma seg_match_literal:
  "MULTI_LEVEL_WILDCARD \<notin> set fs \<Longrightarrow> SINGLE_LEVEL_WILDCARD \<notin> set fs \<Longrightarrow> seg_match fs ts \<longleftrightarrow> fs = ts"
proof (induction fs arbitrary: ts)
  case (Cons f fs)
  then show ?case by (cases ts) auto
qed auto

lemma literal_matches [simp]:
  "is_literal f \<Longrightarrow> filter_matches f t \<longleftrightarrow> filter_str f = topic_str t"
  by (auto simp: is_literal_iff filter_matches_seg seg_match_literal split_on_inj)

lemma as_topic_Some [simp]: "as_topic f = Some t \<longleftrightarrow> is_literal f \<and> t = Topic (filter_str f)"
  by (auto simp: as_topic_def)

lemma as_topic_None [simp]: "as_topic f = None \<longleftrightarrow> \<not> is_literal f"
  by (auto simp: as_topic_def)

lemma wf_filter_multi_last:
  assumes "wf_filter f" and "MULTI_LEVEL_WILDCARD \<in> set (split_on SEGMENT_SEPARATOR (filter_str f))"
  obtains fs where "split_on SEGMENT_SEPARATOR (filter_str f) = fs @ [MULTI_LEVEL_WILDCARD]"
    and "MULTI_LEVEL_WILDCARD \<notin> set fs"
proof -
  let ?s = "split_on SEGMENT_SEPARATOR (filter_str f)"
  have v: "k < length ?s \<Longrightarrow> ?s ! k = MULTI_LEVEL_WILDCARD \<Longrightarrow> k = length ?s - 1" for k
    using assms(1)
    by (auto simp: wf_filter_def filter_validate_def Let_def validate_segments_Inr split: if_splits)
  have app: "?s = butlast ?s @ [last ?s]" by simp
  have "MULTI_LEVEL_WILDCARD \<notin> set (butlast ?s)"
  proof
    assume "MULTI_LEVEL_WILDCARD \<in> set (butlast ?s)"
    then obtain k where "k < length (butlast ?s)" "butlast ?s ! k = MULTI_LEVEL_WILDCARD"
      by (auto simp: in_set_conv_nth)
    then have "k < length ?s - 1" "k < length ?s" "?s ! k = MULTI_LEVEL_WILDCARD"
      by (auto simp: nth_butlast)
    with v [of k] show False by linarith
  qed
  moreover from this assms(2) app have "last ?s = MULTI_LEVEL_WILDCARD"
    by (metis UnE list.set(1) list.set(2) set_append singletonD)
  ultimately show thesis using that app by metis
qed

text \<open>
  A literal filter that passed validation is a valid topic: the \<open>expect\<close> cannot fire.
\<close>

lemma wf_literal_topic:
  assumes "wf_filter f" and "is_literal f"
  shows "wf_topic (Topic (filter_str f))"
proof -
  let ?s = "split_on SEGMENT_SEPARATOR (filter_str f)"
  have segs: "\<forall>s \<in> set ?s. \<forall>c \<in> set s. is_valid_topic_char c"
    using assms
    by (auto simp: wf_filter_def filter_validate_def Let_def validate_segments_Inr is_literal_iff
        Ball_def in_set_conv_nth [of _ ?s] split: if_splits)
  have "is_valid_topic_char c" if "c \<in> set (filter_str f)" for c
  proof (cases "c = SEGMENT_SEPARATOR")
    case False
    with that set_split_on [of SEGMENT_SEPARATOR "filter_str f"] segs show ?thesis by blast
  qed (simp add: separator_is_topic_char)
  with assms(1) show ?thesis
    by (auto simp: wf_topic_iff wf_filter_def filter_validate_def split: if_splits)
qed

lemma wf_topic_no_wildcard:
  assumes "wf_topic t"
  shows "SINGLE_LEVEL_WILDCARD \<notin> set (split_on SEGMENT_SEPARATOR (topic_str t))"
    and "MULTI_LEVEL_WILDCARD \<notin> set (split_on SEGMENT_SEPARATOR (topic_str t))"
proof -
  have sub: "s \<in> set (split_on SEGMENT_SEPARATOR (topic_str t)) \<Longrightarrow> set s \<subseteq> set (topic_str t)" for s
    using set_split_on [of SEGMENT_SEPARATOR "topic_str t"] by blast
  show "SINGLE_LEVEL_WILDCARD \<notin> set (split_on SEGMENT_SEPARATOR (topic_str t))"
    and "MULTI_LEVEL_WILDCARD \<notin> set (split_on SEGMENT_SEPARATOR (topic_str t))"
    using sub assms wildcards_not_topic_chars
    by (fastforce simp: wf_topic_iff SINGLE_LEVEL_WILDCARD_def MULTI_LEVEL_WILDCARD_def)+
qed

lemma filter_of_topic_literal: "wf_topic t \<Longrightarrow> is_literal (filter_of_topic t)"
  by (simp add: is_literal_iff filter_of_topic_def wf_topic_no_wildcard)

lemma wf_filter_of_topic: "wf_topic t \<Longrightarrow> wf_filter (filter_of_topic t)"
proof -
  assume t: "wf_topic t"
  have "c \<in> set (topic_str t)" if "c \<in> set s" "s \<in> set (split_on SEGMENT_SEPARATOR (topic_str t))" for c s
    using that set_split_on [of SEGMENT_SEPARATOR "topic_str t"] by blast
  with t wf_topic_no_wildcard [OF t] show ?thesis
    by (auto simp: wf_filter_def filter_validate_def filter_of_topic_def Let_def validate_segments_Inr
        wf_topic_iff dest: nth_mem)
qed

section \<open>Properties\<close>

text \<open>C19. On a validated filter the index loop of \<open>TopicFilter::matches\<close> computes the documented
  meaning: if the last segment is \<open>#\<close> the segments before it match a prefix of the topic's
  segments, and otherwise the two have the same number of segments and match one by one, where
  \<open>+\<close> matches any single segment and every other segment only itself.\<close>

theorem filter_matches_spec:
  assumes "wf_filter f"
  shows "filter_matches f t \<longleftrightarrow>
    (let fs = split_on SEGMENT_SEPARATOR (filter_str f);
         ts = split_on SEGMENT_SEPARATOR (topic_str t)
     in if last fs = MULTI_LEVEL_WILDCARD
        then length fs - 1 \<le> length ts
             \<and> list_all2 (\<lambda>f t. f = SINGLE_LEVEL_WILDCARD \<or> f = t) (butlast fs) (take (length fs - 1) ts)
        else list_all2 (\<lambda>f t. f = SINGLE_LEVEL_WILDCARD \<or> f = t) fs ts)"
proof -
  let ?fs = "split_on SEGMENT_SEPARATOR (filter_str f)"
  have ok: "(\<lambda>f t. f = SINGLE_LEVEL_WILDCARD \<or> f = t) = seg_ok"
    by (simp add: fun_eq_iff seg_ok_def)
  show ?thesis
  proof (cases "MULTI_LEVEL_WILDCARD \<in> set ?fs")
    case True
    then obtain fs where "?fs = fs @ [MULTI_LEVEL_WILDCARD]" "MULTI_LEVEL_WILDCARD \<notin> set fs"
      using wf_filter_multi_last assms by blast
    then show ?thesis by (simp add: filter_matches_seg ok Let_def seg_match_multi_last)
  next
    case False
    then have "last ?fs \<noteq> MULTI_LEVEL_WILDCARD" by (metis last_in_set split_on_not_Nil)
    with False show ?thesis by (simp add: filter_matches_seg ok Let_def seg_match_no_multi)
  qed
qed

theorem filter_matches_spec_witness:
  "wf_filter (TopicFilter (str ''a.+.#'')) \<and> filter_matches (TopicFilter (str ''a.+.#'')) (Topic (str ''a.b''))"
proof -
  have wf: "wf_filter (TopicFilter (str ''a.+.#''))"
    by (simp add: wf_filter_def filter_validate_def str_def str_len_def utf8_width_def MAX_TOPIC_LEN_def
        wildcard_defs is_valid_topic_char_def is_ascii_alphanumeric_def is_ascii_lower_def Let_def)
  show ?thesis
    using wf filter_matches_spec [OF wf, of "Topic (str ''a.b'')"]
    by (simp add: str_def wildcard_defs Let_def)
qed

text \<open>Every topic is usable as a filter: converting a valid topic gives a valid filter without
  wildcards, whose \<open>as_topic\<close> is the topic again (with no panic) and which matches that topic and
  no other.\<close>

theorem topic_filter_round_trip:
  assumes "wf_topic t"
  shows "wf_filter (filter_of_topic t) \<and> as_topic_checked (filter_of_topic t) = Returns (Some t)
    \<and> (\<forall>u. filter_matches (filter_of_topic t) u \<longleftrightarrow> u = t)"
proof -
  note lit = filter_of_topic_literal [OF assms]
  have "topic_from_str (filter_str (filter_of_topic t)) = Inr t"
    using assms by (simp add: topic_from_str_Inr filter_of_topic_def)
  with lit wf_filter_of_topic [OF assms] show ?thesis
    by (auto simp: as_topic_checked_def filter_of_topic_def topic.expand)
qed

theorem topic_filter_round_trip_witness:
  "wf_topic (Topic (str ''weather/v1'')) \<and>
   as_topic_checked (filter_of_topic (Topic (str ''weather/v1''))) = Returns (Some (Topic (str ''weather/v1'')))"
proof -
  have wf: "wf_topic (Topic (str ''weather/v1''))"
    by (simp add: wf_topic_iff str_def str_len_def utf8_width_def MAX_TOPIC_LEN_def
        is_valid_topic_char_def is_ascii_alphanumeric_def is_ascii_lower_def is_ascii_digit_def)
  then show ?thesis using topic_filter_round_trip [OF wf] by simp
qed

text \<open>The \<open>expect\<close> in \<open>TopicFilter::as_topic\<close> never panics on a filter that passed validation:
  it returns the valid topic of the same name when the filter has no wildcard segment and
  \<open>None\<close> otherwise.\<close>

theorem as_topic_never_panics:
  assumes "filter_from_str s = Inr f"
  shows "as_topic_checked f = Returns (as_topic f) \<and> (\<forall>t. as_topic f = Some t \<longrightarrow> wf_topic t)"
proof -
  from assms have f: "wf_filter f" by (auto simp: filter_from_str_Inr)
  then have "is_literal f \<Longrightarrow> topic_from_str (filter_str f) = Inr (Topic (filter_str f))"
    by (simp add: topic_from_str_Inr wf_literal_topic)
  with f show ?thesis by (auto simp: as_topic_checked_def as_topic_def wf_literal_topic)
qed

theorem as_topic_never_panics_witness:
  "filter_from_str (str ''a.+'') = Inr (TopicFilter (str ''a.+'')) \<and>
   as_topic_checked (TopicFilter (str ''a.+'')) = Returns None"
proof -
  have f: "filter_from_str (str ''a.+'') = Inr (TopicFilter (str ''a.+''))"
    by (simp add: filter_from_str_def filter_validate_def str_def str_len_def utf8_width_def
        MAX_TOPIC_LEN_def wildcard_defs is_valid_topic_char_def is_ascii_alphanumeric_def
        is_ascii_lower_def Let_def)
  have "\<not> is_literal (TopicFilter (str ''a.+''))"
    by (simp add: is_literal_def str_def wildcard_defs)
  with f as_topic_never_panics [OF f] show ?thesis by (simp add: as_topic_def)
qed

end
