(* ===== verification/Messages.thy ===== *)
theory Messages
  imports Topics
begin

text \<open>
  The data of crates/thoth-mesh-core: peer and message identities (peer.rs, message.rs), the
  message kinds (message.rs), the envelope (envelope.rs) and, as one record of functions, the
  third-party code the crates call: tokio's channels, the uuid crate and the clock. Every
  definition that uses that code takes the record as an argument; nothing is assumed of it
  except where a theorem names the assumption.
\<close>

section \<open>Identities\<close>

text \<open>A UUID is its sixteen bytes; \<open>Ord\<close> on it is lexicographic.\<close>

type_synonym uuid = "u8 list"

datatype peer_id = PeerId (peer_uuid: uuid)
datatype message_id = MessageId (message_uuid: uuid)

instantiation peer_id :: linorder
begin

definition less_eq_peer_id :: "peer_id \<Rightarrow> peer_id \<Rightarrow> bool" where
  "less_eq_peer_id a b \<longleftrightarrow> peer_uuid a \<le> peer_uuid b"

definition less_peer_id :: "peer_id \<Rightarrow> peer_id \<Rightarrow> bool" where
  "less_peer_id a b \<longleftrightarrow> peer_uuid a < peer_uuid b"

instance
  by standard (auto simp: less_eq_peer_id_def less_peer_id_def peer_id.expand)

end

instantiation message_id :: linorder
begin

definition less_eq_message_id :: "message_id \<Rightarrow> message_id \<Rightarrow> bool" where
  "less_eq_message_id a b \<longleftrightarrow> message_uuid a \<le> message_uuid b"

definition less_message_id :: "message_id \<Rightarrow> message_id \<Rightarrow> bool" where
  "less_message_id a b \<longleftrightarrow> message_uuid a < message_uuid b"

instance
  by standard (auto simp: less_eq_message_id_def less_message_id_def message_id.expand)

end

definition message_id_as_bytes :: "message_id \<Rightarrow> u8 list" where
  "message_id_as_bytes i = message_uuid i"

definition message_id_from_bytes :: "u8 list \<Rightarrow> message_id" where
  "message_id_from_bytes bs = MessageId bs"

definition peer_id_as_bytes :: "peer_id \<Rightarrow> u8 list" where
  "peer_id_as_bytes p = peer_uuid p"

definition peer_id_from_bytes :: "u8 list \<Rightarrow> peer_id" where
  "peer_id_from_bytes bs = PeerId bs"

section \<open>Messages\<close>

record peer_advert =
  pa_peer_id :: peer_id
  pa_listen_addr :: rstr

record peer_summary =
  ps_peer_id :: peer_id
  ps_listen_addr :: "rstr option"

record metrics_summary =
  ms_peers_connected :: u64
  ms_messages_published :: u64
  ms_forwarder_lag_total :: u64
  ms_topic_acl_rejections_total :: u64
  ms_metrics_auth_rejections_total :: u64
  ms_peer_topic_acl_rejections_total :: u64
  ms_replayed_messages_total :: u64
  ms_lag_recovered_total :: u64
  ms_topic_evictions_total :: u64
  ms_pattern_evictions_total :: u64
  ms_membership_evictions_total :: u64
  ms_peer_directory_evictions_total :: u64
  ms_redelivered_messages_total :: u64
  ms_delivery_ack_timeouts_total :: u64
  ms_persist_failures_total :: u64
  ms_expired_messages_total :: u64
  ms_dead_lettered_messages_total :: u64
  ms_publish_rate_limit_rejections_total :: u64
  ms_rate_limit_principal_evictions_total :: u64

record topic_summary =
  ts_topic :: topic
  ts_subscribers :: u64
  ts_messages_buffered :: u64

text \<open>
  The arguments of \<open>Publish\<close> are topic, payload, retain, content type, reply-to topic and
  in-reply-to id; those of \<open>Subscribe\<close> are filter, ack, group and durable; those of
  \<open>StatusReply\<close> are in-reply-to id, node id, listen address, peers and metrics.
\<close>

datatype message_kind =
    Publish topic "u8 list" bool "rstr option" "topic option" "message_id option"
  | Subscribe topic_filter bool "rstr option" bool
  | Unsubscribe topic_filter
  | Ack message_id
  | Error "message_id option" rstr
  | Hello "rstr option"
  | PeerAnnounce "peer_advert list"
  | StatusRequest
  | StatusReply message_id peer_id "rstr option" "peer_summary list" metrics_summary
  | TopicsRequest
  | TopicsReply message_id "topic_summary list"

definition PROTOCOL_VERSION :: u8 where
  "PROTOCOL_VERSION = 1"

record envelope =
  env_version :: u8
  env_id :: message_id
  env_sender :: peer_id
  env_kind :: message_kind

section \<open>Third-party code\<close>

text \<open>
  Handles into tokio are numbers: an \<open>mpsc::Sender\<close> is identified by the channel it belongs
  to (clones share it, and \<open>same_channel\<close> is equality), a broadcast sender by its channel, a
  receiver by its own number. \<open>'w\<close> is the state of the outside world: the contents of the
  channels, the clock and the id generator. \<open>rt_mpsc_try_send\<close> and \<open>rt_mpsc_send\<close> return
  whether the send was \<open>Ok\<close>; \<open>rt_bcast_send\<close> returns the number of receivers, or \<open>None\<close> for
  the error of a channel without receivers.
\<close>

type_synonym sender = nat
type_synonym bcast = nat
type_synonym receiver = nat

record 'w runtime =
  rt_now_v7 :: "'w \<Rightarrow> uuid \<times> 'w"
  rt_instant_now :: "'w \<Rightarrow> nat"
  rt_custom_bytes :: "u8 list \<Rightarrow> uuid"
  rt_mpsc_try_send :: "sender \<Rightarrow> envelope \<Rightarrow> 'w \<Rightarrow> bool \<times> 'w"
  rt_mpsc_send :: "sender \<Rightarrow> envelope \<Rightarrow> 'w \<Rightarrow> bool \<times> 'w"
  rt_mpsc_is_closed :: "sender \<Rightarrow> 'w \<Rightarrow> bool"
  rt_bcast_channel :: "nat \<Rightarrow> 'w \<Rightarrow> bcast \<times> 'w"
  rt_bcast_subscribe :: "bcast \<Rightarrow> 'w \<Rightarrow> receiver \<times> 'w"
  rt_bcast_receiver_count :: "bcast \<Rightarrow> 'w \<Rightarrow> nat"
  rt_bcast_send :: "bcast \<Rightarrow> envelope \<Rightarrow> 'w \<Rightarrow> nat option \<times> 'w"

text \<open>The CBOR encoder and decoder of the ciborium crate; \<open>None\<close> is their error.\<close>

record codec =
  cbor_encode :: "envelope \<Rightarrow> u8 list option"
  cbor_decode :: "u8 list \<Rightarrow> envelope option"

text \<open>The documented behaviour of the encoder the code relies on.\<close>

definition codec_round_trip :: "codec \<Rightarrow> bool" where
  "codec_round_trip c \<longleftrightarrow> (\<forall>e bs. cbor_encode c e = Some bs \<longrightarrow> cbor_decode c bs = Some e)"

section \<open>Operations\<close>

definition message_id_new :: "('w, 'z) runtime_scheme \<Rightarrow> 'w \<Rightarrow> message_id \<times> 'w" where
  "message_id_new rt w = (let (u, w') = rt_now_v7 rt w in (MessageId u, w'))"

definition peer_id_new :: "('w, 'z) runtime_scheme \<Rightarrow> 'w \<Rightarrow> peer_id \<times> 'w" where
  "peer_id_new rt w = (let (u, w') = rt_now_v7 rt w in (PeerId u, w'))"

definition peer_id_from_fingerprint :: "('w, 'z) runtime_scheme \<Rightarrow> u8 list \<Rightarrow> peer_id" where
  "peer_id_from_fingerprint rt fp = PeerId (rt_custom_bytes rt (take 16 fp))"

definition envelope_new ::
  "('w, 'z) runtime_scheme \<Rightarrow> peer_id \<Rightarrow> message_kind \<Rightarrow> 'w \<Rightarrow> envelope \<times> 'w" where
  "envelope_new rt sender kind w =
     (let (i, w') = message_id_new rt w
      in (\<lparr>env_version = PROTOCOL_VERSION, env_id = i, env_sender = sender, env_kind = kind\<rparr>, w'))"

datatype encode_error = EncodeCbor
datatype decode_error = DecodeCbor

definition to_bytes :: "codec \<Rightarrow> envelope \<Rightarrow> encode_error + u8 list" where
  "to_bytes c e = (case cbor_encode c e of None \<Rightarrow> Inl EncodeCbor | Some bs \<Rightarrow> Inr bs)"

definition from_bytes :: "codec \<Rightarrow> u8 list \<Rightarrow> decode_error + envelope" where
  "from_bytes c bs = (case cbor_decode c bs of None \<Rightarrow> Inl DecodeCbor | Some e \<Rightarrow> Inr e)"

lemma from_bytes_to_bytes:
  "codec_round_trip c \<Longrightarrow> to_bytes c e = Inr bs \<Longrightarrow> from_bytes c bs = Inr e"
  by (auto simp: codec_round_trip_def to_bytes_def from_bytes_def split: option.splits)

lemma message_id_bytes [simp]:
  "message_id_from_bytes (message_id_as_bytes i) = i" "message_id_as_bytes (message_id_from_bytes bs) = bs"
  by (simp_all add: message_id_as_bytes_def message_id_from_bytes_def)

lemma peer_id_bytes [simp]:
  "peer_id_from_bytes (peer_id_as_bytes p) = p" "peer_id_as_bytes (peer_id_from_bytes bs) = bs"
  by (simp_all add: peer_id_as_bytes_def peer_id_from_bytes_def)

lemma message_id_as_bytes_less: "message_id_as_bytes a < message_id_as_bytes b \<longleftrightarrow> a < b"
  by (simp add: message_id_as_bytes_def less_message_id_def)

lemma envelope_new_fields:
  assumes "envelope_new rt s k w = (e, w')"
  shows "env_sender e = s" "env_kind e = k" "env_version e = PROTOCOL_VERSION"
  using assms by (auto simp: envelope_new_def split: prod.splits)

section \<open>A concrete world for the examples\<close>

text \<open>
  An instance of the runtime, used only where a theorem is applied at a concrete input: bounded
  message queues that accept while they have room, broadcast channels that count their receivers,
  ids and time from counters.
\<close>

record world =
  wd_ids :: nat
  wd_clock :: nat
  wd_handles :: nat
  wd_queue :: "sender \<Rightarrow> envelope list"
  wd_room :: "sender \<Rightarrow> nat"
  wd_receivers :: "bcast \<Rightarrow> nat"
  wd_log :: "(bcast \<times> envelope) list"

definition world0 :: world where
  "world0 = \<lparr>wd_ids = 0, wd_clock = 0, wd_handles = 0, wd_queue = (\<lambda>_. []), wd_room = (\<lambda>_. 64),
     wd_receivers = (\<lambda>_. 0), wd_log = []\<rparr>"

definition world_send :: "sender \<Rightarrow> envelope \<Rightarrow> world \<Rightarrow> bool \<times> world" where
  "world_send s e w =
     (if length (wd_queue w s) < wd_room w s
      then (True, w\<lparr>wd_queue := (wd_queue w)(s := wd_queue w s @ [e])\<rparr>) else (False, w))"

definition world_rt :: "world runtime" where
  "world_rt = \<lparr>rt_now_v7 = (\<lambda>w. (replicate 15 0 @ [of_nat (wd_ids w)], w\<lparr>wd_ids := Suc (wd_ids w)\<rparr>)),
     rt_instant_now = wd_clock,
     rt_custom_bytes = (\<lambda>bs. bs),
     rt_mpsc_try_send = world_send,
     rt_mpsc_send = world_send,
     rt_mpsc_is_closed = (\<lambda>s w. wd_room w s = 0),
     rt_bcast_channel = (\<lambda>n w. (wd_handles w, w\<lparr>wd_handles := Suc (wd_handles w)\<rparr>)),
     rt_bcast_subscribe = (\<lambda>b w. (wd_handles w, w\<lparr>wd_handles := Suc (wd_handles w),
        wd_receivers := (wd_receivers w)(b := Suc (wd_receivers w b))\<rparr>)),
     rt_bcast_receiver_count = (\<lambda>b w. wd_receivers w b),
     rt_bcast_send = (\<lambda>b e w. (if wd_receivers w b = 0 then None else Some (wd_receivers w b),
        if wd_receivers w b = 0 then w else w\<lparr>wd_log := wd_log w @ [(b, e)]\<rparr>))\<rparr>"

lemmas world_defs = world_rt_def world0_def world_send_def

text \<open>A codec that knows two envelopes.\<close>

definition pair_codec :: "envelope \<Rightarrow> envelope \<Rightarrow> codec" where
  "pair_codec a b =
     \<lparr>cbor_encode = (\<lambda>e. if e = a then Some [0] else if e = b then Some [1] else None),
      cbor_decode = (\<lambda>bs. if bs = [0] then Some a else if bs = [1] then Some b else None)\<rparr>"

lemma pair_codec_round_trip: "codec_round_trip (pair_codec a b)"
  by (auto simp: codec_round_trip_def pair_codec_def split: if_splits)

end
