(* ===== verification/Topic_Map.thy ===== *)
theory Topic_Map
  imports Messages
begin

text \<open>
  The topic registries of the broker (\<open>TopicChannel\<close>, \<open>ChannelState\<close> and \<open>TopicMap\<close> in
  crates/thoth-mesh-broker/src/lib.rs). A \<open>TopicMap\<close> holds \<open>Arc<TopicChannel>\<close>: the channel outlives
  its entry, and a caller may publish on a channel whose entry has been evicted. The channels
  therefore live in an explicit store, a list indexed by address, and a map holds addresses. The
  number of live receivers of a channel is read from the outside world through the runtime record.
\<close>

section \<open>Channels\<close>

definition DEFAULT_TOPIC_CHANNEL_CAPACITY :: nat where
  "DEFAULT_TOPIC_CHANNEL_CAPACITY = 256"

definition DEFAULT_REPLAY_BUFFER_CAPACITY :: nat where
  "DEFAULT_REPLAY_BUFFER_CAPACITY = 1024"

definition DEFAULT_TOPIC_MAP_CAPACITY :: nat where
  "DEFAULT_TOPIC_MAP_CAPACITY = 4096"

record topic_channel =
  tc_sender :: bcast
  tc_buffer :: "envelope list"
  tc_retained :: "envelope option"

type_synonym heap = "topic_channel list"

definition channel_new :: "('w, 'z) runtime_scheme \<Rightarrow> 'w \<Rightarrow> topic_channel \<times> 'w" where
  "channel_new rt w =
     (let (b, w') = rt_bcast_channel rt DEFAULT_TOPIC_CHANNEL_CAPACITY w
      in (\<lparr>tc_sender = b, tc_buffer = [], tc_retained = None\<rparr>, w'))"

text \<open>The backlog a new subscriber gets, and the registration of its receiver, under one lock.\<close>

definition channel_backlog :: "topic_channel \<Rightarrow> envelope list" where
  "channel_backlog ch =
     (case tc_retained ch of
        Some r \<Rightarrow> if list_ex (\<lambda>e. env_id e = env_id r) (tc_buffer ch) then tc_buffer ch
                  else r # tc_buffer ch
      | None \<Rightarrow> tc_buffer ch)"

definition channel_subscribe ::
  "('w, 'z) runtime_scheme \<Rightarrow> topic_channel \<Rightarrow> 'w \<Rightarrow> envelope list \<times> receiver \<times> 'w" where
  "channel_subscribe rt ch w =
     (let (r, w') = rt_bcast_subscribe rt (tc_sender ch) w in (channel_backlog ch, r, w'))"

definition retained_snapshot :: "topic_channel \<Rightarrow> envelope option" where
  "retained_snapshot ch = tc_retained ch"

fun is_empty_publish :: "message_kind \<Rightarrow> bool" where
  "is_empty_publish (Publish _ payload _ _ _ _) = (payload = [])"
| "is_empty_publish _ = False"

definition push_buffer :: "envelope \<Rightarrow> envelope list \<Rightarrow> envelope list" where
  "push_buffer e buf =
     (let buf' = buf @ [e] in if length buf' > DEFAULT_REPLAY_BUFFER_CAPACITY then tl buf' else buf')"

definition channel_store :: "envelope \<Rightarrow> bool \<Rightarrow> topic_channel \<Rightarrow> topic_channel" where
  "channel_store e retain ch =
     ch\<lparr>tc_buffer := push_buffer e (tc_buffer ch),
        tc_retained := (if retain then (if is_empty_publish (env_kind e) then None else Some e)
                        else tc_retained ch)\<rparr>"

definition channel_publish ::
  "('w, 'z) runtime_scheme \<Rightarrow> envelope \<Rightarrow> bool \<Rightarrow> topic_channel \<Rightarrow> 'w \<Rightarrow> nat \<times> topic_channel \<times> 'w" where
  "channel_publish rt e retain ch w =
     (let ch' = channel_store e retain ch; (n, w') = rt_bcast_send rt (tc_sender ch') e w
      in (case n of None \<Rightarrow> 0 | Some k \<Rightarrow> k, ch', w'))"

section \<open>The map\<close>

record 'k topic_map =
  tm_map :: "('k, nat) hmap"
  tm_order :: "'k list"

definition topic_map_empty :: "'k topic_map" where
  "topic_map_empty = \<lparr>tm_map = [], tm_order = []\<rparr>"

definition tm_touch :: "'k \<Rightarrow> 'k topic_map \<Rightarrow> 'k topic_map" where
  "tm_touch k tm =
     (case position (\<lambda>q. q = k) (tm_order tm) of
        Some pos \<Rightarrow> tm\<lparr>tm_order := remove_at pos (tm_order tm) @ [tm_order tm ! pos]\<rparr>
      | None \<Rightarrow> tm)"

text \<open>An entry can be evicted when its channel has no live receiver.\<close>

definition evictable :: "('w, 'z) runtime_scheme \<Rightarrow> heap \<Rightarrow> 'w \<Rightarrow> ('k, nat) hmap \<Rightarrow> 'k \<Rightarrow> bool" where
  "evictable rt h w m k =
     (case map_of m k of None \<Rightarrow> False | Some a \<Rightarrow> rt_bcast_receiver_count rt (tc_sender (h ! a)) w = 0)"

definition evict_over_capacity ::
  "('w, 'z) runtime_scheme \<Rightarrow> heap \<Rightarrow> 'w \<Rightarrow> 'k topic_map \<Rightarrow> u64 \<Rightarrow> 'k topic_map \<times> u64" where
  "evict_over_capacity rt h w tm ev =
     (if length (tm_map tm) \<le> DEFAULT_TOPIC_MAP_CAPACITY then (tm, ev)
      else (case position (evictable rt h w (tm_map tm)) (tm_order tm) of
              None \<Rightarrow> (tm, ev)
            | Some pos \<Rightarrow>
                (tm\<lparr>tm_order := remove_at pos (tm_order tm),
                    tm_map := AList.delete (tm_order tm ! pos) (tm_map tm)\<rparr>, ev + 1)))"

text \<open>Returns the address of the channel, the map, the store, the eviction counter and the world.\<close>

definition get_or_insert ::
  "('w, 'z) runtime_scheme \<Rightarrow> 'k \<Rightarrow> 'k topic_map \<Rightarrow> heap \<Rightarrow> u64 \<Rightarrow> 'w
     \<Rightarrow> nat \<times> 'k topic_map \<times> heap \<times> u64 \<times> 'w" where
  "get_or_insert rt k tm h ev w =
     (case map_of (tm_map tm) k of
        Some a \<Rightarrow> (a, tm_touch k tm, h, ev, w)
      | None \<Rightarrow>
          (let (ch, w') = channel_new rt w;
               a = length h;
               h' = h @ [ch];
               tm' = tm\<lparr>tm_map := AList.update k a (tm_map tm), tm_order := tm_order tm @ [k]\<rparr>;
               (tm'', ev') = evict_over_capacity rt h' w' tm' ev
           in (a, tm'', h', ev', w')))"

section \<open>The invariant of the map\<close>

definition tm_ok :: "heap \<Rightarrow> 'k topic_map \<Rightarrow> bool" where
  "tm_ok h tm \<longleftrightarrow> distinct (tm_order tm) \<and> distinct (map fst (tm_map tm))
     \<and> keys (tm_map tm) = set (tm_order tm) \<and> (\<forall>k a. map_of (tm_map tm) k = Some a \<longrightarrow> a < length h)"

lemma tm_ok_empty [inv_intros]: "tm_ok h topic_map_empty"
  by (simp add: tm_ok_def topic_map_empty_def)

lemma tm_touch_order:
  assumes "distinct (tm_order tm)" and "k \<in> set (tm_order tm)"
  shows "tm_touch k tm = tm\<lparr>tm_order := retain_ne k (tm_order tm) @ [k]\<rparr>"
proof -
  obtain pos where pos: "position (\<lambda>q. q = k) (tm_order tm) = Some pos"
    using assms(2) by (cases "position (\<lambda>q. q = k) (tm_order tm)") (auto simp: position_None)
  from position_Some [OF pos] have "pos < length (tm_order tm)" "tm_order tm ! pos = k" by auto
  with remove_at_distinct(3) [OF assms(1)] pos show ?thesis by (simp add: tm_touch_def)
qed

lemma tm_ok_touch: "tm_ok h tm \<Longrightarrow> map_of (tm_map tm) k = Some a \<Longrightarrow> tm_ok h (tm_touch k tm)"
  using map_of_Some_keys [of "tm_map tm" k a] tm_touch_order [of tm k]
  by (auto simp: tm_ok_def)

lemma evict_cases [consumes 1, case_names keep evict]:
  assumes "evict_over_capacity rt h w tm ev = (tm', ev')"
  obtains "tm' = tm" "ev' = ev"
      "length (tm_map tm) \<le> DEFAULT_TOPIC_MAP_CAPACITY \<or> (\<forall>k \<in> set (tm_order tm). \<not> evictable rt h w (tm_map tm) k)"
  | us x vs where "tm_order tm = us @ x # vs" "tm_order tm' = us @ vs" "tm_map tm' = AList.delete x (tm_map tm)"
      "evictable rt h w (tm_map tm) x" "\<forall>u \<in> set us. \<not> evictable rt h w (tm_map tm) u"
      "ev' = ev + 1" "DEFAULT_TOPIC_MAP_CAPACITY < length (tm_map tm)"
proof (cases "length (tm_map tm) \<le> DEFAULT_TOPIC_MAP_CAPACITY")
  case True
  with assms that(1) show thesis by (auto simp: evict_over_capacity_def)
next
  case False
  show thesis
  proof (cases "position (evictable rt h w (tm_map tm)) (tm_order tm)")
    case None
    then have "\<forall>k \<in> set (tm_order tm). \<not> evictable rt h w (tm_map tm) k" by (simp add: position_None)
    with None False assms that(1) show thesis by (auto simp: evict_over_capacity_def)
  next
    case (Some pos)
    note pos = position_Some [OF Some]
    then obtain us vs where "tm_order tm = us @ tm_order tm ! pos # vs"
      "remove_at pos (tm_order tm) = us @ vs" "length us = pos"
      by (metis remove_at_split)
    moreover from this pos have "\<forall>u \<in> set us. \<not> evictable rt h w (tm_map tm) u"
      by (metis in_set_conv_nth nth_append)
    ultimately show thesis
      using Some False assms pos that(2) [of us "tm_order tm ! pos" vs]
      by (auto simp: evict_over_capacity_def)
  qed
qed

lemma tm_ok_evict:
  assumes "tm_ok h tm" and "evict_over_capacity rt h w tm ev = (tm', ev')"
  shows "tm_ok h tm'"
  using assms(2)
proof (cases rule: evict_cases)
  case keep
  with assms(1) show ?thesis by simp
next
  case (evict us x vs)
  moreover have "distinct (us @ x # vs)" "keys (tm_map tm) = set (us @ x # vs)"
    using assms(1) evict(1) by (simp_all add: tm_ok_def)
  ultimately show ?thesis
    using assms(1) by (auto simp: tm_ok_def distinct_delete)
qed

text \<open>The two ways \<open>get_or_insert\<close> can go.\<close>

lemma get_or_insert_cases [consumes 1, case_names old new]:
  assumes "get_or_insert rt k tm h ev w = (a, tm', h', ev', w')"
  obtains "map_of (tm_map tm) k = Some a" "tm' = tm_touch k tm" "h' = h" "ev' = ev" "w' = w"
  | ch where "map_of (tm_map tm) k = None" "channel_new rt w = (ch, w')" "a = length h" "h' = h @ [ch]"
      "evict_over_capacity rt h' w' (tm\<lparr>tm_map := AList.update k a (tm_map tm),
         tm_order := tm_order tm @ [k]\<rparr>) ev = (tm', ev')"
  using assms that
  by (auto simp: get_or_insert_def Let_def split: option.splits prod.splits)

lemma tm_ok_insert:
  assumes "tm_ok h tm" and "map_of (tm_map tm) k = None"
  shows "tm_ok (h @ [ch]) (tm\<lparr>tm_map := AList.update k (length h) (tm_map tm), tm_order := tm_order tm @ [k]\<rparr>)"
proof -
  from assms(2) have new: "k \<notin> set (tm_order tm)"
    using assms(1) by (simp add: map_of_None_keys tm_ok_def)
  have "a < length (h @ [ch])" if "map_of (AList.update k (length h) (tm_map tm)) j = Some a" for j a
    using that assms(1) by (cases "j = k") (auto simp: tm_ok_def less_Suc_eq simp del: map_of_eq_Some_iff)
  with assms(1) new show ?thesis
    by (simp add: tm_ok_def distinct_update)
qed

lemma tm_ok_get_or_insert:
  assumes "tm_ok h tm" and "get_or_insert rt k tm h ev w = (a, tm', h', ev', w')"
  shows "tm_ok h' tm'" and "a < length h'"
proof -
  from assms(2) have "tm_ok h' tm' \<and> a < length h'"
  proof (cases rule: get_or_insert_cases)
    case old
    with assms(1) show ?thesis by (auto simp: tm_ok_touch) (simp add: tm_ok_def)
  next
    case (new ch)
    have "tm_ok h' tm'"
      by (rule tm_ok_evict [OF _ new(5)]) (use tm_ok_insert [OF assms(1) new(1)] new in simp)
    with new show ?thesis by simp
  qed
  then show "tm_ok h' tm'" and "a < length h'" by simp_all
qed

lemma get_or_insert_heap:
  assumes "get_or_insert rt k tm h ev w = (a, tm', h', ev', w')"
  shows "\<exists>new. h' = h @ new"
  using assms by (cases rule: get_or_insert_cases) auto

section \<open>Channels over a history of publishes\<close>

lemma push_buffer_capped: "push_buffer e buf = fst (push_capped DEFAULT_REPLAY_BUFFER_CAPACITY e buf)"
  by (cases buf) (simp_all add: push_buffer_def push_capped_def Let_def)

lemma replay_capacity_pos: "0 < DEFAULT_REPLAY_BUFFER_CAPACITY"
  by (simp add: DEFAULT_REPLAY_BUFFER_CAPACITY_def)

definition channel_history :: "(envelope \<times> bool) list \<Rightarrow> topic_channel \<Rightarrow> topic_channel" where
  "channel_history ps ch = fold (\<lambda>(e, retain). channel_store e retain) ps ch"

text \<open>What retention promises: the last publish that asked for it, unless its payload was empty.\<close>

definition retained_spec :: "(envelope \<times> bool) list \<Rightarrow> envelope option" where
  "retained_spec ps =
     (if filter snd ps = [] then None
      else (let e = fst (last (filter snd ps)) in if is_empty_publish (env_kind e) then None else Some e))"

lemma retained_spec_snoc:
  "retained_spec (ps @ [(e, retain)]) =
     (if retain then (if is_empty_publish (env_kind e) then None else Some e) else retained_spec ps)"
  by (simp add: retained_spec_def Let_def)

lemma channel_history_state:
  fixes ch :: topic_channel
  assumes "tc_buffer ch = []" and "tc_retained ch = None"
  shows "tc_buffer (channel_history ps ch) = last_n DEFAULT_REPLAY_BUFFER_CAPACITY (map fst ps)
    \<and> tc_retained (channel_history ps ch) = retained_spec ps"
proof (induction ps rule: rev_induct)
  case Nil
  then show ?case using assms by (simp add: channel_history_def last_n_def retained_spec_def)
next
  case (snoc p ps)
  then show ?case
    by (cases p) (simp add: channel_history_def channel_store_def push_buffer_capped
        push_last_n [OF replay_capacity_pos] retained_spec_snoc)
qed

lemma channel_backlog_retained:
  "tc_retained ch = Some r \<Longrightarrow> env_id r \<in> env_id ` set (channel_backlog ch)"
  by (auto simp: channel_backlog_def list_ex_image)

lemma channel_backlog_distinct:
  "distinct (map env_id (tc_buffer ch)) \<Longrightarrow> distinct (map env_id (channel_backlog ch))"
  by (auto simp: channel_backlog_def list_ex_image split: option.splits)

lemma channel_backlog_suffix: "\<exists>pre. channel_backlog ch = pre @ tc_buffer ch \<and> length pre \<le> 1"
  by (auto simp: channel_backlog_def split: option.splits intro: exI [of _ "[_]"])

text \<open>What a late subscriber is handed: after publishing any sequence of messages on a fresh topic
  channel, the backlog is the last 1024 messages, preceded by the retained message when it has already
  fallen out of them. The retained message is the last one published with \<open>retain\<close>, none when that one
  had an empty payload.\<close>

theorem late_subscriber_backlog:
  "let ch = channel_history ps (fst (channel_new rt w));
       window = last_n DEFAULT_REPLAY_BUFFER_CAPACITY (map fst ps)
   in channel_backlog ch =
        (case retained_spec ps of
           None \<Rightarrow> window
         | Some r \<Rightarrow> if env_id r \<in> env_id ` set window then window else r # window)
      \<and> length (channel_backlog ch) \<le> 1025"
proof -
  define ch where "ch = channel_history ps (fst (channel_new rt w))"
  have st: "tc_buffer ch = last_n DEFAULT_REPLAY_BUFFER_CAPACITY (map fst ps)" "tc_retained ch = retained_spec ps"
    using channel_history_state [of "fst (channel_new rt w)" ps]
    by (simp_all add: ch_def channel_new_def split: prod.splits)
  have "length (channel_backlog ch) \<le> 1025"
    using channel_backlog_suffix [of ch] length_last_n [of DEFAULT_REPLAY_BUFFER_CAPACITY "map fst ps"]
    by (auto simp: st DEFAULT_REPLAY_BUFFER_CAPACITY_def)
  then show ?thesis
    by (auto simp: Let_def st channel_backlog_def list_ex_image simp flip: ch_def split: option.splits)
qed

section \<open>Eviction\<close>

lemma delete_update_new: "k \<notin> keys m \<Longrightarrow> AList.delete k (AList.update k v m) = m"
  by (induction m) (auto simp: keys_def AList.delete_eq filter_id_conv)

text \<open>Live topics are never reclaimed: looking up or creating one entry keeps every entry whose channel
  still has a receiver, at the same channel, and leaves every existing channel unchanged. At most one
  entry goes, and then the map was at its capacity.\<close>

theorem get_or_insert_keeps_live:
  assumes "tm_ok h tm" and "get_or_insert rt k tm h ev w = (a, tm', h', ev', w')"
  shows "(\<forall>j b. map_of (tm_map tm) j = Some b \<and> rt_bcast_receiver_count rt (tc_sender (h ! b)) w' \<noteq> 0
             \<longrightarrow> map_of (tm_map tm') j = Some b)
    \<and> (\<exists>x. keys (tm_map tm) - {x} \<subseteq> keys (tm_map tm'))
    \<and> (\<not> keys (tm_map tm) \<subseteq> keys (tm_map tm') \<longrightarrow> length (tm_map tm) \<ge> DEFAULT_TOPIC_MAP_CAPACITY)
    \<and> take (length h) h' = h \<and> tm_ok h' tm'"
proof -
  have ok': "tm_ok h' tm'" using tm_ok_get_or_insert [OF assms] by simp
  from assms(2) show ?thesis
  proof (cases rule: get_or_insert_cases)
    case old
    then have "tm_map tm' = tm_map tm"
      by (simp add: tm_touch_def split: option.splits)
    with old ok' show ?thesis by auto
  next
    case (new ch)
    have k: "k \<notin> keys (tm_map tm)" using new(1) by (simp add: map_of_None_keys)
    have addr: "(h @ [ch]) ! b = h ! b" if "map_of (tm_map tm) j = Some b" for j b
      using assms(1) that by (auto simp: tm_ok_def nth_append)
    from new(5) show ?thesis
    proof (cases rule: evict_cases)
      case keep
      with new k ok' show ?thesis by (auto simp: map_of_Some_keys)
    next
      case (evict us x vs)
      have len: "DEFAULT_TOPIC_MAP_CAPACITY \<le> length (tm_map tm)"
        using evict(7) by (simp add: length_update_new [OF k])
      have "map_of (tm_map tm') j = Some b"
        if j: "map_of (tm_map tm) j = Some b" "rt_bcast_receiver_count rt (tc_sender (h ! b)) w' \<noteq> 0" for j b
      proof -
        have "j \<noteq> k" using j(1) new(1) by auto
        moreover have "j \<noteq> x"
          using evict(4) j addr [OF j(1)] \<open>j \<noteq> k\<close> by (auto simp: evictable_def new(4))
        ultimately show ?thesis using j(1) by (simp add: evict(3))
      qed
      moreover have "keys (tm_map tm) - {x} \<subseteq> keys (tm_map tm')" by (auto simp: evict(3))
      ultimately show ?thesis using len ok' new(4) by auto
    qed
  qed
qed

text \<open>A map filled to its capacity with live topics, for the examples.\<close>

definition key_of :: "nat \<Rightarrow> topic" where
  "key_of i = Topic [97 + i div 256, 97 + i div 16 mod 16, 97 + i mod 16]"

definition full_map :: "topic topic_map" where
  "full_map = \<lparr>tm_map = map (\<lambda>i. (key_of i, i)) [0..<DEFAULT_TOPIC_MAP_CAPACITY], tm_order = map key_of [0..<DEFAULT_TOPIC_MAP_CAPACITY]\<rparr>"

definition full_heap :: heap where
  "full_heap = map (\<lambda>i. \<lparr>tc_sender = i, tc_buffer = [], tc_retained = None\<rparr>) [0..<DEFAULT_TOPIC_MAP_CAPACITY]"

definition full_world :: world where
  "full_world = world0\<lparr>wd_handles := DEFAULT_TOPIC_MAP_CAPACITY,
     wd_receivers := (\<lambda>b. if b < DEFAULT_TOPIC_MAP_CAPACITY then 1 else 0)\<rparr>"

lemma key_of_inj: "key_of i = key_of j \<longleftrightarrow> i = j"
proof
  assume "key_of i = key_of j"
  then have "i div 256 = j div 256" "i div 16 mod 16 = j div 16 mod 16" "i mod 16 = j mod 16"
    by (auto simp: key_of_def)
  moreover have "n div 256 = n div 16 div 16" for n :: nat by (simp add: div_mult2_eq [symmetric])
  ultimately have "i div 16 = j div 16" by (metis div_mult_mod_eq)
  with \<open>i mod 16 = j mod 16\<close> show "i = j" by (metis div_mult_mod_eq)
qed simp

lemma full_map_lookup: "map_of (tm_map full_map) k = Some a \<Longrightarrow> a < DEFAULT_TOPIC_MAP_CAPACITY \<and> k = key_of a"
  by (drule map_of_SomeD) (auto simp: full_map_def)

lemma full_map_ok: "tm_ok full_heap full_map"
proof -
  have "distinct (tm_order full_map)"
    by (simp add: full_map_def distinct_map inj_on_def key_of_inj)
  moreover have "map fst (tm_map full_map) = tm_order full_map" by (simp add: full_map_def)
  moreover have "length full_heap = DEFAULT_TOPIC_MAP_CAPACITY" by (simp add: full_heap_def)
  ultimately show ?thesis
    using full_map_lookup by (metis (no_types, lifting) keys_def list.set_map tm_ok_def)
qed

lemma full_map_size: "length (tm_map full_map) = DEFAULT_TOPIC_MAP_CAPACITY"
  by (simp add: full_map_def)

text \<open>The registry loses a topic that is opened while 4096 other topics are live. The entry is inserted
  before the caller has registered its receiver, so the eviction that follows finds it as the only
  entry without one: the caller gets a channel that is in no map, the map is as it was before, and the
  eviction counter goes up. (A channel that was just created has no receiver.)\<close>

theorem full_live_map_orphans_channel:
  assumes "tm_ok h tm" and "length (tm_map tm) = DEFAULT_TOPIC_MAP_CAPACITY"
    and "map_of (tm_map tm) k = None"
    and "channel_new rt w = (ch, w')"
    and fresh: "rt_bcast_receiver_count rt (tc_sender ch) w' = 0"
    and live: "\<And>j b. map_of (tm_map tm) j = Some b \<Longrightarrow> rt_bcast_receiver_count rt (tc_sender (h ! b)) w' \<noteq> 0"
  shows "get_or_insert rt k tm h ev w = (length h, tm, h @ [ch], ev + 1, w')
    \<and> length h \<notin> snd ` set (tm_map tm)"
proof -
  let ?tm = "tm\<lparr>tm_map := AList.update k (length h) (tm_map tm), tm_order := tm_order tm @ [k]\<rparr>"
  have k: "k \<notin> keys (tm_map tm)" "k \<notin> set (tm_order tm)"
    using assms(1,3) by (simp_all add: map_of_None_keys tm_ok_def)
  have dist: "distinct (map fst (tm_map tm))" using assms(1) by (simp add: tm_ok_def)
  have old: "\<not> evictable rt (h @ [ch]) w' (tm_map ?tm) j" if "j \<in> set (tm_order tm)" for j
  proof -
    have "j \<in> keys (tm_map tm)" using that assms(1) by (simp add: tm_ok_def)
    then obtain b where b: "map_of (tm_map tm) j = Some b" by (auto simp: keys_dom)
    then have "b < length h" using assms(1) by (auto simp: tm_ok_def)
    with live [OF b] b that k show ?thesis by (auto simp: evictable_def nth_append)
  qed
  have "evictable rt (h @ [ch]) w' (tm_map ?tm) k" using fresh by (simp add: evictable_def)
  with old have pos: "position (evictable rt (h @ [ch]) w' (tm_map ?tm)) (tm_order tm @ [k]) = Some (length (tm_order tm))"
    by (simp add: position_append_last)
  have "evict_over_capacity rt (h @ [ch]) w' ?tm ev = (tm, ev + 1)"
    using pos k assms(2) delete_update_new [OF k(1), of "length h"]
    by (simp add: evict_over_capacity_def length_update_new remove_at_def)
  moreover have "length h \<notin> snd ` set (tm_map tm)"
    using assms(1) dist by (force simp: tm_ok_def)
  ultimately show ?thesis by (simp add: get_or_insert_def Let_def assms(3,4))
qed

text \<open>The full map is one where the two theorems apply.\<close>

lemma full_map_live:
  "map_of (tm_map full_map) j = Some b \<Longrightarrow>
     rt_bcast_receiver_count world_rt (tc_sender (full_heap ! b)) (full_world\<lparr>wd_handles := n\<rparr>) \<noteq> 0"
  by (drule full_map_lookup) (simp add: full_heap_def full_world_def world_defs)

lemma full_map_channel_new:
  "channel_new world_rt full_world =
     (\<lparr>tc_sender = DEFAULT_TOPIC_MAP_CAPACITY, tc_buffer = [], tc_retained = None\<rparr>,
      full_world\<lparr>wd_handles := Suc DEFAULT_TOPIC_MAP_CAPACITY\<rparr>)"
  by (simp add: channel_new_def full_world_def world_defs)

lemma full_map_new_key: "map_of (tm_map full_map) (Topic [122]) = None"
  by (auto simp: map_of_None_keys keys_def full_map_def key_of_def)

theorem full_live_map_orphans_channel_witness:
  "\<exists>ch w'. get_or_insert world_rt (Topic [122]) full_map full_heap 0 full_world =
     (length full_heap, full_map, full_heap @ [ch], 0 + 1, w') \<and> length full_heap \<notin> snd ` set (tm_map full_map)"
  using full_live_map_orphans_channel [OF full_map_ok full_map_size full_map_new_key full_map_channel_new
      _ full_map_live, of _ 0]
  by (simp add: full_world_def world_defs)

theorem get_or_insert_keeps_live_witness:
  "\<exists>a tm' h' ev' w'. get_or_insert world_rt (Topic [122]) full_map full_heap 0 full_world = (a, tm', h', ev', w')
     \<and> (\<exists>x. keys (tm_map full_map) - {x} \<subseteq> keys (tm_map tm')) \<and> take (length full_heap) h' = full_heap \<and> tm_ok h' tm'"
proof -
  obtain a tm' h' ev' w' where
    goi: "get_or_insert world_rt (Topic [122]) full_map full_heap 0 full_world = (a, tm', h', ev', w')"
    by (metis prod_cases5)
  from get_or_insert_keeps_live [OF full_map_ok this] goi show ?thesis by blast
qed

end
