(* ===== verification/Seen_Ids.thy ===== *)
theory Seen_Ids
  imports Messages
begin

text \<open>
  The duplicate filter of the broker (\<open>SeenIds\<close> in crates/thoth-mesh-broker/src/lib.rs): a set of
  message ids with a FIFO that bounds it. An id is a duplicate exactly when it is one of the last
  \<open>capacity\<close> ids that were accepted.
\<close>

section \<open>State and operations\<close>

definition DEFAULT_DEDUP_CAPACITY :: nat where
  "DEFAULT_DEDUP_CAPACITY = 4096"

record seen_ids =
  si_capacity :: nat
  si_order :: "message_id list"
  si_set :: "message_id set"

definition seen_new :: "nat \<Rightarrow> seen_ids" where
  "seen_new cap = \<lparr>si_capacity = cap, si_order = [], si_set = {}\<rparr>"

definition seen_record :: "message_id \<Rightarrow> seen_ids \<Rightarrow> bool \<times> seen_ids" where
  "seen_record i s =
     (if i \<in> si_set s then (False, s)
      else (True,
        case push_capped (si_capacity s) i (si_order s) of
          (q, None) \<Rightarrow> s\<lparr>si_order := q, si_set := insert i (si_set s)\<rparr>
        | (q, Some oldest) \<Rightarrow> s\<lparr>si_order := q, si_set := insert i (si_set s) - {oldest}\<rparr>))"

section \<open>The window of accepted ids\<close>

definition seen_ok :: "seen_ids \<Rightarrow> bool" where
  "seen_ok s \<longleftrightarrow> distinct (si_order s) \<and> si_set s = set (si_order s)"

lemma seen_record_ok:
  assumes "seen_ok s"
  shows "seen_ok (snd (seen_record i s))"
proof (cases "i \<in> si_set s")
  case False
  obtain q o' where push: "push_capped (si_capacity s) i (si_order s) = (q, o')" by fastforce
  have d: "distinct (si_order s @ [i])" using False assms by (auto simp: seen_ok_def)
  show ?thesis
  proof (cases o')
    case None
    then have "q = si_order s @ [i]" using push by (simp add: push_capped_conv)
    with push None False d assms show ?thesis by (simp add: seen_record_def seen_ok_def)
  next
    case (Some x)
    then have q: "si_order s @ [i] = x # q" using push by (simp add: push_capped_conv)
    have "distinct (x # q)" using d by (simp only: q)
    moreover have "insert i (set (si_order s)) = insert x (set q)" using arg_cong [OF q, of set] by simp
    ultimately show ?thesis using push Some False assms by (simp add: seen_record_def seen_ok_def)
  qed
qed (use assms in \<open>simp add: seen_record_def\<close>)

lemma seen_record_new:
  "i \<notin> si_set s \<Longrightarrow> si_order (snd (seen_record i s)) = fst (push_capped (si_capacity s) i (si_order s))"
  by (simp add: seen_record_def split: prod.splits option.splits)

lemma seen_record_fields [simp]: "si_capacity (snd (seen_record i s)) = si_capacity s"
  by (simp add: seen_record_def split: prod.splits option.splits)

lemma fst_seen_record [simp]: "fst (seen_record i s) \<longleftrightarrow> i \<notin> si_set s"
  by (simp add: seen_record_def)

interpretation seen: capped_registry "seen_new DEFAULT_DEDUP_CAPACITY" "\<lambda>i s. snd (seen_record i s)"
  "\<lambda>s. si_capacity s = DEFAULT_DEDUP_CAPACITY" si_order si_set DEFAULT_DEDUP_CAPACITY
proof unfold_locales
  fix s :: seen_ids and x
  assume "distinct (si_order s)" "si_set s = set (si_order s)"
  then have "seen_ok s" by (simp add: seen_ok_def)
  then show "distinct (si_order (snd (seen_record x s)))"
    and "si_set (snd (seen_record x s)) = set (si_order (snd (seen_record x s)))"
    using seen_record_ok [of s x] by (simp_all add: seen_ok_def)
  show "length (si_order (snd (seen_record x s))) \<le> DEFAULT_DEDUP_CAPACITY"
    if "si_capacity s = DEFAULT_DEDUP_CAPACITY" "length (si_order s) \<le> DEFAULT_DEDUP_CAPACITY"
    using that seen_record_new [of x s] push_capped_length [of "si_order s" DEFAULT_DEDUP_CAPACITY x]
    by (cases "x \<in> si_set s") (simp_all add: seen_record_def [of x s])
qed (simp_all add: seen_new_def)

text \<open>The ids accepted by a run of \<open>record\<close> calls, in order.\<close>

fun accepted :: "message_id list \<Rightarrow> seen_ids \<Rightarrow> message_id list" where
  "accepted [] s = []"
| "accepted (i # is') s =
     (if fst (seen_record i s) then [i] else []) @ accepted is' (snd (seen_record i s))"

lemma accepted_append:
  "accepted (xs @ ys) s = accepted xs s @ accepted ys (fold (\<lambda>i s. snd (seen_record i s)) xs s)"
  by (induction xs arbitrary: s) auto

lemma seen_window:
  assumes "0 < cap"
  shows "si_order (fold (\<lambda>i s. snd (seen_record i s)) xs (seen_new cap)) = last_n cap (accepted xs (seen_new cap))
    \<and> seen_ok (fold (\<lambda>i s. snd (seen_record i s)) xs (seen_new cap))
    \<and> si_capacity (fold (\<lambda>i s. snd (seen_record i s)) xs (seen_new cap)) = cap"
proof (induction xs rule: rev_induct)
  case Nil
  then show ?case by (simp add: seen_new_def seen_ok_def last_n_def)
next
  case (snoc x xs)
  let ?s = "fold (\<lambda>i s. snd (seen_record i s)) xs (seen_new cap)"
  show ?case
  proof (cases "x \<in> si_set ?s")
    case True
    then have "seen_record x ?s = (False, ?s)" by (simp add: seen_record_def)
    with snoc show ?thesis by (simp add: accepted_append)
  next
    case False
    with snoc seen_record_ok [of ?s x] assms show ?thesis
      by (simp add: accepted_append seen_record_new push_last_n)
  qed
qed

section \<open>Properties\<close>

text \<open>C21. Duplicate suppression is exact: after any sequence of ids on a fresh filter, the next id is
  refused exactly when it is one of the last \<open>capacity\<close> ids that were accepted, and the filter then
  remembers exactly these ids (with the broker's capacity, at most 4096 of them).\<close>

theorem seen_refuses_exactly_recent:
  "let s = fold (\<lambda>i s. snd (seen_record i s)) ids (seen_new DEFAULT_DEDUP_CAPACITY);
       recent = set (last_n DEFAULT_DEDUP_CAPACITY (accepted ids (seen_new DEFAULT_DEDUP_CAPACITY)))
   in (fst (seen_record i s) \<longleftrightarrow> i \<notin> recent) \<and> si_set s = recent
      \<and> card (si_set s) \<le> DEFAULT_DEDUP_CAPACITY"
proof -
  have cap: "0 < DEFAULT_DEDUP_CAPACITY" by (simp add: DEFAULT_DEDUP_CAPACITY_def)
  show ?thesis
    using seen_window [OF cap, of ids] seen.reachable_bounded [of ids] by (simp add: seen_ok_def Let_def)
qed

end
