(* ===== verification/Consumer_Groups.thy ===== *)
theory Consumer_Groups
  imports Messages
begin

text \<open>
  Consumer groups and work queues of the broker (\<open>GroupMembers\<close>, \<open>GroupLease\<close> and the group operations of
  \<open>Broker\<close> in crates/thoth-mesh-broker/src/lib.rs). A message that matches a group goes to one member,
  round robin; in an ack-tracked group the delivery is leased until a member acknowledges it, and the
  sweep redelivers an expired lease or gives it up. Sends go through the runtime record; an \<open>Instant\<close>
  is a number of nanoseconds, and \<open>duration_since\<close> saturates at zero, as subtraction on \<open>nat\<close> does.
\<close>

section \<open>State\<close>

record group_lease =
  gl_envelope :: envelope
  gl_leased_at :: nat
  gl_attempts :: u32

record group_members =
  gm_members :: "sender list"
  gm_next :: nat
  gm_ack_tracked :: bool
  gm_leases :: "(message_id, group_lease) hmap"

type_synonym group_key = "topic_filter \<times> rstr"
type_synonym groups = "(group_key, group_members) hmap"

definition group_members_default :: group_members where
  "group_members_default = \<lparr>gm_members = [], gm_next = 0, gm_ack_tracked = False, gm_leases = []\<rparr>"

section \<open>Operations\<close>

text \<open>The loop of \<open>deliver\<close>: try the members at the given indices in turn until one accepts.\<close>

fun try_members ::
  "('w, 'z) runtime_scheme \<Rightarrow> nat list \<Rightarrow> sender list \<Rightarrow> envelope \<Rightarrow> 'w \<Rightarrow> nat option \<times> 'w" where
  "try_members rt [] ms e w = (None, w)"
| "try_members rt (idx # idxs) ms e w =
     (let (ok, w') = rt_mpsc_try_send rt (ms ! idx) e w
      in if ok then (Some idx, w') else try_members rt idxs ms e w')"

definition deliver ::
  "('w, 'z) runtime_scheme \<Rightarrow> envelope \<Rightarrow> group_members \<Rightarrow> 'w \<Rightarrow> bool \<times> group_members \<times> 'w" where
  "deliver rt e g w =
     (let len = length (gm_members g) in
      if len = 0 then (False, g, w)
      else (case try_members rt (map (\<lambda>offset. (gm_next g + offset) mod len) [0..<len]) (gm_members g) e w of
              (Some idx, w') \<Rightarrow> (True, g\<lparr>gm_next := (idx + 1) mod len\<rparr>, w')
            | (None, w') \<Rightarrow> (False, g, w')))"

definition join_group :: "topic_filter \<Rightarrow> rstr \<Rightarrow> sender \<Rightarrow> bool \<Rightarrow> groups \<Rightarrow> groups" where
  "join_group f name s ack gs =
     (let g = (case map_of gs (f, name) of
                 Some g \<Rightarrow> g
               | None \<Rightarrow> group_members_default\<lparr>gm_ack_tracked := ack\<rparr>)
      in AList.update (f, name) (g\<lparr>gm_members := gm_members g @ [s]\<rparr>) gs)"

definition leave_group :: "topic_filter \<Rightarrow> rstr \<Rightarrow> sender \<Rightarrow> groups \<Rightarrow> groups" where
  "leave_group f name s gs =
     (case map_of gs (f, name) of
        Some g \<Rightarrow> AList.update (f, name) (g\<lparr>gm_members := retain_ne s (gm_members g)\<rparr>) gs
      | None \<Rightarrow> gs)"

definition ack_group_delivery :: "topic_filter \<Rightarrow> rstr \<Rightarrow> message_id \<Rightarrow> groups \<Rightarrow> groups" where
  "ack_group_delivery f name i gs =
     (case map_of gs (f, name) of
        Some g \<Rightarrow> AList.update (f, name) (g\<lparr>gm_leases := AList.delete i (gm_leases g)\<rparr>) gs
      | None \<Rightarrow> gs)"

text \<open>The group part of \<open>Broker::publish\<close>: every matching group gets the message once.\<close>

definition group_publish ::
  "('w, 'z) runtime_scheme \<Rightarrow> topic \<Rightarrow> envelope \<Rightarrow> topic_filter \<Rightarrow> group_members \<Rightarrow> 'w
     \<Rightarrow> nat \<times> group_members \<times> 'w" where
  "group_publish rt t e f g w =
     (if filter_matches f t then
        (case deliver rt e g w of
           (True, g', w') \<Rightarrow>
             (1, if gm_ack_tracked g'
                 then g'\<lparr>gm_leases := AList.update (env_id e)
                         \<lparr>gl_envelope = e, gl_leased_at = rt_instant_now rt w', gl_attempts = 0\<rparr> (gm_leases g')\<rparr>
                 else g', w')
         | (False, g', w') \<Rightarrow> (0, g', w'))
      else (0, g, w))"

fun groups_publish ::
  "('w, 'z) runtime_scheme \<Rightarrow> topic \<Rightarrow> envelope \<Rightarrow> groups \<Rightarrow> 'w \<Rightarrow> nat \<times> groups \<times> 'w" where
  "groups_publish rt t e [] w = (0, [], w)"
| "groups_publish rt t e ((k, g) # gs) w =
     (let (n, g', w') = group_publish rt t e (fst k) g w;
          (m, gs', w'') = groups_publish rt t e gs w'
      in (n + m, (k, g') # gs', w''))"

text \<open>
  The sweep. The two \<open>expect\<close>s on the lease of an id that was collected before the loop are branches that
  panic; the result carries the envelopes that are given up.
\<close>

definition lease_expired :: "nat \<Rightarrow> nat \<Rightarrow> group_lease \<Rightarrow> bool" where
  "lease_expired now timeout l \<longleftrightarrow> now - gl_leased_at l \<ge> timeout"

definition sweep_lease ::
  "('w, 'z) runtime_scheme \<Rightarrow> nat \<Rightarrow> u32 \<Rightarrow> message_id \<Rightarrow> group_members \<Rightarrow> 'w
     \<Rightarrow> (envelope list \<times> group_members \<times> 'w) outcome" where
  "sweep_lease rt now max_attempts i g w =
     (case map_of (gm_leases g) i of
        None \<Rightarrow> Panics
      | Some l \<Rightarrow>
          if gl_attempts l \<ge> max_attempts
          then Returns ([gl_envelope l], g\<lparr>gm_leases := AList.delete i (gm_leases g)\<rparr>, w)
          else
            (case deliver rt (gl_envelope l) g w of
               (True, g', w') \<Rightarrow>
                 (case map_of (gm_leases g') i of
                    Some l' \<Rightarrow>
                      Returns ([], g'\<lparr>gm_leases := AList.update i
                        (l'\<lparr>gl_attempts := gl_attempts l' + 1, gl_leased_at := now\<rparr>) (gm_leases g')\<rparr>, w')
                  | None \<Rightarrow> Returns ([], g', w'))
             | (False, g', w') \<Rightarrow> Returns ([], g', w')))"

fun sweep_ids ::
  "('w, 'z) runtime_scheme \<Rightarrow> nat \<Rightarrow> u32 \<Rightarrow> message_id list \<Rightarrow> group_members \<Rightarrow> 'w
     \<Rightarrow> (envelope list \<times> group_members \<times> 'w) outcome" where
  "sweep_ids rt now max_attempts [] g w = Returns ([], g, w)"
| "sweep_ids rt now max_attempts (i # ids) g w =
     (case sweep_lease rt now max_attempts i g w of
        Panics \<Rightarrow> Panics
      | Returns (es, g', w') \<Rightarrow>
          (case sweep_ids rt now max_attempts ids g' w' of
             Panics \<Rightarrow> Panics
           | Returns (es', g'', w'') \<Rightarrow> Returns (es @ es', g'', w'')))"

definition sweep_group ::
  "('w, 'z) runtime_scheme \<Rightarrow> nat \<Rightarrow> nat \<Rightarrow> u32 \<Rightarrow> group_members \<Rightarrow> 'w
     \<Rightarrow> (envelope list \<times> group_members \<times> 'w) outcome" where
  "sweep_group rt now timeout max_attempts g w =
     (if gm_leases g = [] then Returns ([], g, w)
      else sweep_ids rt now max_attempts
             (map fst (filter (\<lambda>(_, l). lease_expired now timeout l) (gm_leases g))) g w)"

fun sweep_group_leases ::
  "('w, 'z) runtime_scheme \<Rightarrow> nat \<Rightarrow> nat \<Rightarrow> u32 \<Rightarrow> groups \<Rightarrow> 'w
     \<Rightarrow> (envelope list \<times> groups \<times> 'w) outcome" where
  "sweep_group_leases rt now timeout max_attempts [] w = Returns ([], [], w)"
| "sweep_group_leases rt now timeout max_attempts ((k, g) # gs) w =
     (case sweep_group rt now timeout max_attempts g w of
        Panics \<Rightarrow> Panics
      | Returns (es, g', w') \<Rightarrow>
          (case sweep_group_leases rt now timeout max_attempts gs w' of
             Panics \<Rightarrow> Panics
           | Returns (es', gs', w'') \<Rightarrow> Returns (es @ es', (k, g') # gs', w'')))"

section \<open>Round robin\<close>

text \<open>The documented behaviour of \<open>mpsc::Sender::try_send\<close> that the group relies on: a refused send does
  nothing.\<close>

definition try_send_atomic :: "('w, 'z) runtime_scheme \<Rightarrow> bool" where
  "try_send_atomic rt \<longleftrightarrow> (\<forall>s e w. fst (rt_mpsc_try_send rt s e w) \<or> snd (rt_mpsc_try_send rt s e w) = w)"

abbreviation accepts :: "('w, 'z) runtime_scheme \<Rightarrow> envelope \<Rightarrow> 'w \<Rightarrow> sender \<Rightarrow> bool" where
  "accepts rt e w s \<equiv> fst (rt_mpsc_try_send rt s e w)"

lemma try_members_spec:
  assumes "try_send_atomic rt"
  shows "try_members rt idxs ms e w =
    (case find (\<lambda>idx. accepts rt e w (ms ! idx)) idxs of
       None \<Rightarrow> (None, w)
     | Some idx \<Rightarrow> (Some idx, snd (rt_mpsc_try_send rt (ms ! idx) e w)))"
proof (induction idxs)
  case (Cons idx idxs)
  obtain ok w' where ts: "rt_mpsc_try_send rt (ms ! idx) e w = (ok, w')" by fastforce
  with assms have "ok \<or> w' = w" by (metis fst_conv snd_conv try_send_atomic_def)
  with Cons ts show ?case by auto
qed simp

lemma deliver_frame:
  assumes "deliver rt e g w = (ok, g', w')"
  shows "gm_members g' = gm_members g" "gm_leases g' = gm_leases g" "gm_ack_tracked g' = gm_ack_tracked g"
  using assms by (auto simp: deliver_def Let_def split: if_splits prod.splits option.splits)

lemma deliver_next: "deliver rt e g w = (True, g', w') \<Longrightarrow> gm_next g' < length (gm_members g')"
  by (auto simp: deliver_def Let_def split: if_splits prod.splits option.splits)

text \<open>A group delivers to at most one member, in turn: when no current member accepts, nothing changes;
  otherwise the message is sent to exactly one member, the first one that accepts counting from the cursor
  around the ring, and the cursor moves behind it. (A refused \<open>try_send\<close> has no effect.)\<close>

theorem deliver_round_robin:
  assumes "try_send_atomic rt"
  shows "case find (\<lambda>idx. accepts rt e w (gm_members g ! idx))
               (map (\<lambda>offset. (gm_next g + offset) mod length (gm_members g)) [0..<length (gm_members g)]) of
           None \<Rightarrow> deliver rt e g w = (False, g, w) \<and> (\<forall>m \<in> set (gm_members g). \<not> accepts rt e w m)
         | Some idx \<Rightarrow> idx < length (gm_members g)
             \<and> deliver rt e g w = (True, g\<lparr>gm_next := (idx + 1) mod length (gm_members g)\<rparr>,
                                   snd (rt_mpsc_try_send rt (gm_members g ! idx) e w))"
proof (cases "gm_members g = []")
  case True
  then show ?thesis by (simp add: deliver_def)
next
  case False
  let ?len = "length (gm_members g)"
  let ?ring = "map (\<lambda>offset. (gm_next g + offset) mod ?len) [0..<?len]"
  have ring: "set ?ring = {0..<?len}" using False by (simp add: ring_indices)
  show ?thesis
  proof (cases "find (\<lambda>idx. accepts rt e w (gm_members g ! idx)) ?ring")
    case None
    then have "\<forall>idx \<in> set ?ring. \<not> accepts rt e w (gm_members g ! idx)" by (simp add: find_None_iff)
    then have "\<forall>m \<in> set (gm_members g). \<not> accepts rt e w m"
      unfolding ring by (metis atLeastLessThan_iff in_set_conv_nth zero_le)
    with None False show ?thesis by (simp add: deliver_def Let_def try_members_spec [OF assms])
  next
    case (Some idx)
    then have "idx \<in> set ?ring" by (simp only: find_SomeD)
    then have "idx < ?len" unfolding ring by simp
    with Some False show ?thesis by (simp add: deliver_def Let_def try_members_spec [OF assms])
  qed
qed

lemma world_try_send_atomic: "try_send_atomic world_rt"
  by (simp add: try_send_atomic_def world_defs)

theorem deliver_round_robin_witness:
  "\<exists>e g w. w = world0\<lparr>wd_room := (\<lambda>s. if s = 8 then 0 else 1)\<rparr>
     \<and> g = group_members_default\<lparr>gm_members := [7, 8, 9], gm_next := 1\<rparr>
     \<and> deliver world_rt e g w = (True, g\<lparr>gm_next := 0\<rparr>, snd (rt_mpsc_try_send world_rt 9 e w))"
proof -
  let ?w = "world0\<lparr>wd_room := (\<lambda>s. if s = 8 then 0 else 1)\<rparr>"
  let ?g = "group_members_default\<lparr>gm_members := [7, 8, 9], gm_next := 1\<rparr>"
  fix e :: envelope
  have "find (\<lambda>idx. accepts world_rt e ?w (gm_members ?g ! idx))
      (map (\<lambda>offset. (gm_next ?g + offset) mod length (gm_members ?g)) [0..<length (gm_members ?g)]) = Some 2"
    by (simp add: world_defs group_members_default_def upt_rec)
  with deliver_round_robin [OF world_try_send_atomic, where e = e and w = ?w and g = ?g] show ?thesis
    by (auto simp: group_members_default_def numeral_2_eq_2)
qed

text \<open>A run of deliveries, one after the other.\<close>

fun deliver_all ::
  "('w, 'z) runtime_scheme \<Rightarrow> envelope list \<Rightarrow> group_members \<Rightarrow> 'w \<Rightarrow> bool list \<times> group_members \<times> 'w" where
  "deliver_all rt [] g w = ([], g, w)"
| "deliver_all rt (e # es) g w =
     (let (ok, g', w') = deliver rt e g w; (oks, g'', w'') = deliver_all rt es g' w'
      in (ok # oks, g'', w''))"

fun send_each :: "('w, 'z) runtime_scheme \<Rightarrow> (sender \<times> envelope) list \<Rightarrow> 'w \<Rightarrow> 'w" where
  "send_each rt [] w = w"
| "send_each rt ((s, e) # ses) w = send_each rt ses (snd (rt_mpsc_try_send rt s e w))"

lemma deliver_accepting:
  assumes "\<And>s e w. fst (rt_mpsc_try_send rt s e w)" and "gm_members g \<noteq> []"
  defines "len \<equiv> length (gm_members g)"
  shows "deliver rt e g w = (True, g\<lparr>gm_next := Suc (gm_next g) mod len\<rparr>,
           snd (rt_mpsc_try_send rt (gm_members g ! (gm_next g mod len)) e w))"
proof -
  have len: "[0..<len] = 0 # [1..<len]" using assms(2) by (simp add: len_def upt_rec)
  have mod_Suc: "Suc (gm_next g mod len) mod len = Suc (gm_next g) mod len" by (rule mod_Suc_eq)
  show ?thesis
    using assms(1) [of "gm_members g ! (gm_next g mod len)" e w] assms(2) mod_Suc
    by (simp add: deliver_def Let_def len split: prod.splits flip: len_def) (auto simp: len_def)
qed

text \<open>Work is shared evenly: while every member accepts, consecutive messages go to consecutive members
  around the ring, every delivery succeeds, and as many messages as there are members reach each member
  once (a rotation of the member list).\<close>

theorem round_robin_fair:
  assumes "\<And>s e w. fst (rt_mpsc_try_send rt s e w)" and "gm_members g \<noteq> []"
  shows "fst (deliver_all rt es g w) = replicate (length es) True
    \<and> snd (snd (deliver_all rt es g w)) =
        send_each rt (zip (map (\<lambda>i. gm_members g ! ((gm_next g + i) mod length (gm_members g))) [0..<length es]) es) w
    \<and> map (\<lambda>i. gm_members g ! ((gm_next g + i) mod length (gm_members g))) [0..<length (gm_members g)]
        = rotate (gm_next g) (gm_members g)"
proof (intro conjI ring_rotate)
  let ?tgt = "\<lambda>g n. map (\<lambda>i. gm_members g ! ((gm_next g + i) mod length (gm_members g))) [0..<n]"
  have "fst (deliver_all rt es g w) = replicate (length es) True
      \<and> snd (snd (deliver_all rt es g w)) = send_each rt (zip (?tgt g (length es)) es) w"
    using assms(2)
  proof (induction es arbitrary: g w)
    case (Cons e es)
    let ?g = "g\<lparr>gm_next := Suc (gm_next g) mod length (gm_members g)\<rparr>"
    have "?tgt g (length (e # es)) = gm_members g ! (gm_next g mod length (gm_members g)) # ?tgt ?g (length es)"
      by (simp add: upt_conv_Cons map_Suc_upt [symmetric] mod_add_left_eq del: upt_Suc)
    moreover obtain oks g' w' where "deliver_all rt es ?g (snd (rt_mpsc_try_send rt
        (gm_members g ! (gm_next g mod length (gm_members g))) e w)) = (oks, g', w')"
      by (metis prod_cases3)
    moreover have "gm_members ?g \<noteq> []" using Cons.prems by simp
    ultimately show ?case
      using Cons.IH [of ?g "snd (rt_mpsc_try_send rt (gm_members g ! (gm_next g mod length (gm_members g))) e w)"]
      by (simp add: deliver_accepting [OF assms(1) Cons.prems] del: upt_Suc)
  qed simp
  then show "fst (deliver_all rt es g w) = replicate (length es) True"
    and "snd (snd (deliver_all rt es g w)) = send_each rt (zip (?tgt g (length es)) es) w"
    by simp_all
qed

theorem round_robin_fair_witness:
  "\<exists>rt :: nat runtime. \<exists>g es. gm_members g = [4, 5] \<and> length es = 3
     \<and> fst (deliver_all rt es g 0) = [True, True, True]"
proof -
  fix e :: envelope
  let ?rt = "\<lparr>rt_now_v7 = (\<lambda>w. ([], w)), rt_instant_now = (\<lambda>w. 0), rt_custom_bytes = (\<lambda>bs. bs),
    rt_mpsc_try_send = (\<lambda>s e w. (True, Suc w)), rt_mpsc_send = (\<lambda>s e w. (True, Suc w)), rt_mpsc_is_closed = (\<lambda>s w. False),
    rt_bcast_channel = (\<lambda>n w. (0, w)), rt_bcast_subscribe = (\<lambda>b w. (0, w)), rt_bcast_receiver_count = (\<lambda>b w. 0),
    rt_bcast_send = (\<lambda>b e w. (None, w))\<rparr> :: nat runtime"
  let ?g = "group_members_default\<lparr>gm_members := [4, 5]\<rparr>"
  have "fst (deliver_all ?rt [e, e, e] ?g 0) = replicate (length [e, e, e]) True"
    using round_robin_fair [of ?rt ?g "[e, e, e]" 0] by simp
  then show ?thesis by (intro exI [of _ ?rt] exI [of _ ?g] exI [of _ "[e, e, e]"]) simp
qed

section \<open>Leases\<close>

definition leases_ok :: "group_members \<Rightarrow> bool" where
  "leases_ok g \<longleftrightarrow> distinct (map fst (gm_leases g))"

definition groups_ok :: "groups \<Rightarrow> bool" where
  "groups_ok gs \<longleftrightarrow> distinct (map fst gs) \<and> (\<forall>k g. map_of gs k = Some g \<longrightarrow> leases_ok g)"

lemma groups_okD: "groups_ok gs \<Longrightarrow> map_of gs k = Some g \<Longrightarrow> leases_ok g"
  unfolding groups_ok_def by blast

lemma groups_ok_update:
  "groups_ok gs \<Longrightarrow> leases_ok g \<Longrightarrow> groups_ok (AList.update k g gs)"
  by (auto simp: groups_ok_def distinct_update simp del: map_of_eq_Some_iff split_paired_All split: if_splits)

lemma groups_ok_Cons: "groups_ok ((k, g) # gs) \<longleftrightarrow> k \<notin> keys gs \<and> leases_ok g \<and> groups_ok gs"
proof -
  have "k \<notin> keys gs \<Longrightarrow> map_of gs k = None" by (simp add: map_of_None_keys)
  then show ?thesis
    by (auto simp: groups_ok_def keys_def simp del: map_of_eq_Some_iff split_paired_All split: if_splits)
qed

lemma groups_ok_empty [inv_intros]: "groups_ok []"
  by (simp add: groups_ok_def)

lemma groups_ok_join [inv_intros]: "groups_ok gs \<Longrightarrow> groups_ok (join_group f n s ack gs)"
  using groups_okD [of gs "(f, n)"]
  by (simp add: join_group_def Let_def leases_ok_def group_members_default_def groups_ok_update split: option.split)

lemma groups_ok_leave [inv_intros]: "groups_ok gs \<Longrightarrow> groups_ok (leave_group f n s gs)"
  using groups_okD [of gs "(f, n)"]
  by (simp add: leave_group_def leases_ok_def groups_ok_update split: option.split)

lemma groups_ok_ack [inv_intros]: "groups_ok gs \<Longrightarrow> groups_ok (ack_group_delivery f n i gs)"
  using groups_okD [of gs "(f, n)"]
  by (simp add: ack_group_delivery_def leases_ok_def distinct_delete groups_ok_update split: option.split)

lemma group_publish_ok: "leases_ok g \<Longrightarrow> leases_ok (fst (snd (group_publish rt t e f g w)))"
  by (auto simp: group_publish_def leases_ok_def distinct_update deliver_frame split: prod.splits bool.splits)

lemma groups_publish_keys: "map fst (fst (snd (groups_publish rt t e gs w))) = map fst gs"
proof (induction gs arbitrary: w)
  case (Cons kg gs)
  obtain k g where kg: "kg = (k, g)" by fastforce
  obtain n g' w' where 1: "group_publish rt t e (fst k) g w = (n, g', w')" by (metis prod_cases3)
  obtain m gs' w'' where 2: "groups_publish rt t e gs w' = (m, gs', w'')" by (metis prod_cases3)
  show ?case using Cons [of w'] by (simp add: kg 1 2)
qed simp

lemma groups_publish_ok [inv_intros]: "groups_ok gs \<Longrightarrow> groups_ok (fst (snd (groups_publish rt t e gs w)))"
proof (induction gs arbitrary: w)
  case (Cons kg gs)
  obtain k g where kg: "kg = (k, g)" by fastforce
  obtain n g' w' where 1: "group_publish rt t e (fst k) g w = (n, g', w')" by (metis prod_cases3)
  obtain m gs' w'' where 2: "groups_publish rt t e gs w' = (m, gs', w'')" by (metis prod_cases3)
  from Cons.prems have "leases_ok g" "groups_ok gs" "k \<notin> keys gs" by (simp_all add: groups_ok_Cons kg)
  with Cons.IH [of w'] group_publish_ok [of g rt t e "fst k" w] have "leases_ok g'" "groups_ok gs'"
    by (simp_all add: 1 2)
  moreover have "keys gs' = keys gs"
    using arg_cong [OF groups_publish_keys [of rt t e gs w'], of set] by (simp add: 2 keys_def)
  ultimately show ?case using \<open>k \<notin> keys gs\<close> by (simp add: kg 1 2 groups_ok_Cons)
qed (simp add: groups_ok_empty)

text \<open>What the sweep may do to the lease of an expired id; \<open>certain\<close> says that some member is bound to
  accept the redelivery.\<close>

definition always_accepts :: "('w, 'z) runtime_scheme \<Rightarrow> group_members \<Rightarrow> bool" where
  "always_accepts rt g \<longleftrightarrow> gm_members g \<noteq> [] \<and> (\<forall>s e w. fst (rt_mpsc_try_send rt s e w))"

definition swept :: "bool \<Rightarrow> nat \<Rightarrow> u32 \<Rightarrow> group_lease \<Rightarrow> group_lease option \<Rightarrow> bool" where
  "swept certain now max_attempts l r \<longleftrightarrow>
     (if gl_attempts l \<ge> max_attempts then r = None
      else (r = Some l \<and> \<not> certain) \<or> r = Some (l\<lparr>gl_attempts := gl_attempts l + 1, gl_leased_at := now\<rparr>))"

lemma sweep_lease_spec:
  assumes "map_of (gm_leases g) i = Some l" and "leases_ok g"
  shows "\<exists>g' w'. sweep_lease rt now mx i g w =
      Returns (if mx \<le> gl_attempts l then [gl_envelope l] else [], g', w')
    \<and> gm_members g' = gm_members g \<and> gm_ack_tracked g' = gm_ack_tracked g \<and> leases_ok g'
    \<and> (\<forall>j. j \<noteq> i \<longrightarrow> map_of (gm_leases g') j = map_of (gm_leases g) j)
    \<and> swept (always_accepts rt g) now mx l (map_of (gm_leases g') i)"
proof (cases "mx \<le> gl_attempts l")
  case True
  with assms show ?thesis
    by (auto simp: sweep_lease_def swept_def leases_ok_def distinct_delete simp del: map_of_eq_Some_iff)
next
  case False
  obtain ok g' w' where d: "deliver rt (gl_envelope l) g w = (ok, g', w')" by (metis prod_cases3)
  note fr = deliver_frame [OF d]
  have "ok" if "always_accepts rt g"
    using that d deliver_accepting [of rt g "gl_envelope l" w] by (simp add: always_accepts_def)
  then show ?thesis
    using False assms
    by (cases ok; cases "always_accepts rt g")
      (simp_all add: sweep_lease_def d fr swept_def leases_ok_def distinct_update del: map_of_eq_Some_iff)
qed

lemma sweep_ids_spec:
  assumes "leases_ok g" and "distinct ids" and "set ids \<subseteq> keys (gm_leases g)"
  shows "\<exists>g' w'. sweep_ids rt now mx ids g w =
      Returns (concat (map (\<lambda>i. let l = the (map_of (gm_leases g) i)
                 in if mx \<le> gl_attempts l then [gl_envelope l] else []) ids), g', w')
    \<and> gm_members g' = gm_members g \<and> gm_ack_tracked g' = gm_ack_tracked g \<and> leases_ok g'
    \<and> (\<forall>j. j \<notin> set ids \<longrightarrow> map_of (gm_leases g') j = map_of (gm_leases g) j)
    \<and> (\<forall>j \<in> set ids. swept (always_accepts rt g) now mx (the (map_of (gm_leases g) j)) (map_of (gm_leases g') j))"
  using assms
proof (induction ids arbitrary: g w)
  case (Cons i ids)
  then have "i \<in> keys (gm_leases g)" by simp
  then obtain l where l: "map_of (gm_leases g) i = Some l" by (auto simp: keys_dom)
  from sweep_lease_spec [OF l Cons.prems(1), of rt now mx w] obtain g1 w1 where
    one: "sweep_lease rt now mx i g w = Returns (if mx \<le> gl_attempts l then [gl_envelope l] else [], g1, w1)"
    and fr: "gm_members g1 = gm_members g" "gm_ack_tracked g1 = gm_ack_tracked g" "leases_ok g1"
    and other: "\<And>j. j \<noteq> i \<Longrightarrow> map_of (gm_leases g1) j = map_of (gm_leases g) j"
    and sw: "swept (always_accepts rt g) now mx l (map_of (gm_leases g1) i)" by blast
  have i: "i \<notin> set ids" and d: "distinct ids" using Cons.prems(2) by simp_all
  have sub: "set ids \<subseteq> keys (gm_leases g1)"
  proof
    fix j assume j: "j \<in> set ids"
    then have "j \<in> keys (gm_leases g)" "j \<noteq> i" using Cons.prems(3) i by auto
    then show "j \<in> keys (gm_leases g1)" using other [of j] by (auto simp: keys_dom)
  qed
  have same: "map_of (gm_leases g1) j = map_of (gm_leases g) j" if "j \<in> set ids" for j
    using other [of j] i that by auto
  have given: "map (\<lambda>i. let l = the (map_of (gm_leases g1) i) in if mx \<le> gl_attempts l then [gl_envelope l] else []) ids
     = map (\<lambda>i. let l = the (map_of (gm_leases g) i) in if mx \<le> gl_attempts l then [gl_envelope l] else []) ids"
    using same by (intro map_cong) simp_all
  have aa: "always_accepts rt g1 = always_accepts rt g" by (simp add: always_accepts_def fr)
  from Cons.IH [OF fr(3) d sub, of w1] obtain g2 w2 where
    two: "sweep_ids rt now mx ids g1 w1 = Returns (concat (map (\<lambda>i. let l = the (map_of (gm_leases g) i)
            in if mx \<le> gl_attempts l then [gl_envelope l] else []) ids), g2, w2)"
    and fr2: "gm_members g2 = gm_members g1" "gm_ack_tracked g2 = gm_ack_tracked g1" "leases_ok g2"
    and other2: "\<And>j. j \<notin> set ids \<Longrightarrow> map_of (gm_leases g2) j = map_of (gm_leases g1) j"
    and sw2: "\<And>j. j \<in> set ids \<Longrightarrow> swept (always_accepts rt g) now mx (the (map_of (gm_leases g1) j)) (map_of (gm_leases g2) j)"
    unfolding given aa by blast
  have "swept (always_accepts rt g) now mx (the (map_of (gm_leases g) j)) (map_of (gm_leases g2) j)" if "j \<in> set (i # ids)" for j
  proof (cases "j = i")
    case True
    with sw other2 [OF i] l show ?thesis by simp
  next
    case False
    with that sw2 [of j] same [of j] show ?thesis by simp
  qed
  moreover have "map_of (gm_leases g2) j = map_of (gm_leases g) j" if "j \<notin> set (i # ids)" for j
    using that other2 [of j] other [of j] by simp
  moreover have "swept (always_accepts rt g) now mx l (map_of (gm_leases g2) i)" using sw other2 [OF i] by simp
  ultimately show ?case using fr fr2 by (simp add: one two l)
qed simp

definition given_up :: "nat \<Rightarrow> nat \<Rightarrow> u32 \<Rightarrow> group_members \<Rightarrow> envelope list" where
  "given_up now timeout max_attempts g =
     map (gl_envelope \<circ> snd)
       (filter (\<lambda>(_, l). lease_expired now timeout l \<and> max_attempts \<le> gl_attempts l) (gm_leases g))"

definition group_swept ::
  "('w, 'z) runtime_scheme \<Rightarrow> nat \<Rightarrow> nat \<Rightarrow> u32 \<Rightarrow> group_members \<Rightarrow> group_members \<Rightarrow> bool" where
  "group_swept rt now timeout max_attempts g g' \<longleftrightarrow>
     gm_members g' = gm_members g \<and> gm_ack_tracked g' = gm_ack_tracked g \<and> leases_ok g'
     \<and> (\<forall>i. case map_of (gm_leases g) i of
               None \<Rightarrow> map_of (gm_leases g') i = None
             | Some l \<Rightarrow>
                 if lease_expired now timeout l
                 then swept (always_accepts rt g) now max_attempts l (map_of (gm_leases g') i)
                 else map_of (gm_leases g') i = Some l)"

lemma given_up_concat:
  assumes "distinct (map fst m)"
  shows "concat (map (\<lambda>i. let l = the (map_of m i) in if Q l then [f l] else []) (map fst (filter (\<lambda>(_, l). P l) m)))
    = map (f \<circ> snd) (filter (\<lambda>(_, l). P l \<and> Q l) m)"
proof -
  have "concat (map (\<lambda>i. let l = the (map_of m i) in if Q l then [f l] else []) (map fst ps))
      = map (f \<circ> snd) (filter (\<lambda>(_, l). Q l) ps)" if "set ps \<subseteq> set m" for ps
    using that assms by (induction ps) auto
  note this [of "filter (\<lambda>(_, l). P l) m"]
  moreover have "filter (\<lambda>(_, l). Q l) (filter (\<lambda>(_, l). P l) m) = filter (\<lambda>(_, l). P l \<and> Q l) m"
    by (induction m) auto
  ultimately show ?thesis by (simp only: filter_is_subset)
qed

lemma sweep_group_spec:
  assumes "leases_ok g"
  shows "\<exists>g' w'. sweep_group rt now timeout mx g w = Returns (given_up now timeout mx g, g', w')
    \<and> group_swept rt now timeout mx g g'"
proof (cases "gm_leases g = []")
  case True
  with assms show ?thesis by (simp add: sweep_group_def given_up_def group_swept_def)
next
  case False
  let ?ids = "map fst (filter (\<lambda>(_, l). lease_expired now timeout l) (gm_leases g))"
  have dist: "distinct (map fst (gm_leases g))" using assms by (simp add: leases_ok_def)
  have ids: "distinct ?ids" using dist by (rule distinct_map_filter)
  have sub: "set ?ids \<subseteq> keys (gm_leases g)" by (auto simp: keys_def)
  have mem: "i \<in> set ?ids \<longleftrightarrow> lease_expired now timeout l" if "map_of (gm_leases g) i = Some l" for i l
  proof -
    have "(i, l') \<in> set (gm_leases g) \<longleftrightarrow> l' = l" for l'
      using that dist by (metis map_of_eq_Some_iff option.inject)
    then show ?thesis by force
  qed
  have none: "i \<notin> set ?ids" if "map_of (gm_leases g) i = None" for i
    using that sub by (auto simp: map_of_None_keys)
  from sweep_ids_spec [OF assms ids sub, of rt now mx w] obtain g' w' where
    run: "sweep_ids rt now mx ?ids g w = Returns (given_up now timeout mx g, g', w')"
    and fr: "gm_members g' = gm_members g" "gm_ack_tracked g' = gm_ack_tracked g" "leases_ok g'"
    and other: "\<And>j. j \<notin> set ?ids \<Longrightarrow> map_of (gm_leases g') j = map_of (gm_leases g) j"
    and sw: "\<And>j. j \<in> set ?ids \<Longrightarrow> swept (always_accepts rt g) now mx (the (map_of (gm_leases g) j)) (map_of (gm_leases g') j)"
    unfolding given_up_concat [OF dist] given_up_def by blast
  have "group_swept rt now timeout mx g g'"
    unfolding group_swept_def
  proof (intro conjI fr allI)
    fix i
    show "case map_of (gm_leases g) i of None \<Rightarrow> map_of (gm_leases g') i = None
        | Some l \<Rightarrow> if lease_expired now timeout l
            then swept (always_accepts rt g) now mx l (map_of (gm_leases g') i) else map_of (gm_leases g') i = Some l"
    proof (cases "map_of (gm_leases g) i")
      case None
      with other [OF none [OF None]] show ?thesis by simp
    next
      case (Some l)
      with other [of i] sw [of i] mem [OF Some] show ?thesis by (simp del: map_of_eq_Some_iff set_map)
    qed
  qed
  with run False show ?thesis by (simp add: sweep_group_def)
qed

lemma sweep_group_leases_spec:
  assumes "groups_ok gs"
  shows "\<exists>gs' w'. sweep_group_leases rt now timeout mx gs w =
      Returns (concat (map (\<lambda>(_, g). given_up now timeout mx g) gs), gs', w')
    \<and> groups_ok gs' \<and> list_all2 (\<lambda>(k, g) (k', g'). k' = k \<and> group_swept rt now timeout mx g g') gs gs'"
  using assms
proof (induction gs arbitrary: w)
  case (Cons kg gs)
  obtain k g where kg: "kg = (k, g)" by fastforce
  have ok: "k \<notin> keys gs" "leases_ok g" "groups_ok gs" using Cons.prems by (simp_all add: kg groups_ok_Cons)
  from sweep_group_spec [OF ok(2), of rt now timeout mx w] obtain g' w1 where
    1: "sweep_group rt now timeout mx g w = Returns (given_up now timeout mx g, g', w1)"
       "group_swept rt now timeout mx g g'" by blast
  from Cons.IH [OF ok(3), of w1] obtain gs' w2 where
    2: "sweep_group_leases rt now timeout mx gs w1 = Returns (concat (map (\<lambda>(_, g). given_up now timeout mx g) gs), gs', w2)"
       "groups_ok gs'" "list_all2 (\<lambda>(k, g) (k', g'). k' = k \<and> group_swept rt now timeout mx g g') gs gs'" by blast
  have "map fst gs' = map fst gs" using 2(3) by (induction rule: list_all2_induct) auto
  then have "keys gs' = keys gs" by (metis keys_def list.set_map)
  with ok 1 2 show ?case by (simp add: kg groups_ok_Cons group_swept_def)
qed (simp add: groups_ok_empty)



text \<open>Sweeps one after the other, at times at least a timeout apart.\<close>

fun sweep_run ::
  "('w, 'z) runtime_scheme \<Rightarrow> nat \<Rightarrow> u32 \<Rightarrow> nat list \<Rightarrow> group_members \<Rightarrow> 'w
     \<Rightarrow> (envelope list list \<times> group_members \<times> 'w) outcome" where
  "sweep_run rt timeout max_attempts [] g w = Returns ([], g, w)"
| "sweep_run rt timeout max_attempts (now # nows) g w =
     (case sweep_group rt now timeout max_attempts g w of
        Panics \<Rightarrow> Panics
      | Returns (es, g', w') \<Rightarrow>
          (case sweep_run rt timeout max_attempts nows g' w' of
             Panics \<Rightarrow> Panics
           | Returns (ess, g'', w'') \<Rightarrow> Returns (es # ess, g'', w'')))"

fun spaced :: "nat \<Rightarrow> nat \<Rightarrow> nat list \<Rightarrow> bool" where
  "spaced timeout t [] = True"
| "spaced timeout t (now # nows) \<longleftrightarrow> t + timeout \<le> now \<and> spaced timeout now nows"



end
