(* ===== verification/Store.thy ===== *)
theory Store
  imports Messages
begin

text \<open>
  Persistence. The first part is the trait \<open>MessageStore\<close> of crates/thoth-mesh-broker/src/lib.rs, a record
  of functions on the state of the store, with its contract as a locale. The second part is
  \<open>SqliteStore\<close> (crates/thoth-mesh-node/src/persistence.rs, schema.sql): the tables are lists of rows, each
  SQL statement of the source is the list operation it denotes, and a statement may fail, which
  rolls its transaction back. The codec, the wall clock and the failing statements are parameters.
\<close>

section \<open>The trait\<close>

type_synonym 'a io_result = "io_error + 'a"

text \<open>A call that panics is what \<open>spawn_blocking\<close> reports as a \<open>JoinError\<close>.\<close>

record 's message_store =
  st_append :: "envelope \<Rightarrow> 's \<Rightarrow> unit io_result outcome \<times> 's"
  st_load_recent :: "nat \<Rightarrow> 's \<Rightarrow> (topic \<times> envelope list) list io_result"
  st_load_retained :: "'s \<Rightarrow> (topic \<times> envelope) list io_result"
  st_messages_since :: "topic \<Rightarrow> message_id \<Rightarrow> 's \<Rightarrow> envelope list io_result outcome"
  st_load_offset :: "peer_id \<Rightarrow> topic \<Rightarrow> 's \<Rightarrow> message_id option io_result outcome"
  st_record_offset :: "peer_id \<Rightarrow> topic \<Rightarrow> message_id \<Rightarrow> 's \<Rightarrow> unit io_result outcome \<times> 's"
  st_expire_before :: "int \<Rightarrow> 's \<Rightarrow> envelope list io_result outcome \<times> 's"

section \<open>The tables\<close>

definition DEFAULT_PERSISTED_MESSAGES_PER_TOPIC :: nat where
  "DEFAULT_PERSISTED_MESSAGES_PER_TOPIC = 100000"

definition PRUNE_EVERY :: u64 where
  "PRUNE_EVERY = 1000"

text \<open>A row of \<open>messages\<close>; the table is kept in the order of \<open>seq\<close>. \<open>None\<close> is a NULL \<open>msg_id\<close>.\<close>

record message_row =
  mr_seq :: nat
  mr_topic :: rstr
  mr_ts :: int
  mr_envelope :: "u8 list"
  mr_msg_id :: "u8 list option"

record sqlite_store =
  sq_messages :: "message_row list"
  sq_last_seq :: nat
  sq_retained :: "(rstr, u8 list) hmap"
  sq_offsets :: "(u8 list \<times> rstr, u8 list \<times> int) hmap"
  sq_appends_since_prune :: u64

datatype sql_stmt = SqlOpen | SqlSchema | SqlBegin | SqlInsertMessage | SqlDeleteRetained | SqlUpsertRetained | SqlCommit | SqlPrune
  | SqlSelectRecent | SqlSelectRetained | SqlSelectSince | SqlSelectOffset | SqlUpsertOffset
  | SqlSelectExpired | SqlDeleteExpired

record sqlite_env =
  se_codec :: codec
  se_now_ms :: int
  se_fails :: "sql_stmt \<Rightarrow> bool"

definition to_io :: "sql_stmt \<Rightarrow> io_error" where
  "to_io s = OtherIo (str ''sqlite'')"

text \<open>\<open>ROW_NUMBER() OVER (PARTITION BY topic ORDER BY seq DESC) \<le> n\<close>: fewer than \<open>n\<close> newer rows of the topic.\<close>

definition row_rank_le :: "nat \<Rightarrow> message_row list \<Rightarrow> message_row \<Rightarrow> bool" where
  "row_rank_le n rows r \<longleftrightarrow> length (filter (\<lambda>q. mr_topic q = mr_topic r \<and> mr_seq q > mr_seq r) rows) < n"

definition prune :: "sqlite_env \<Rightarrow> sqlite_store \<Rightarrow> unit io_result \<times> sqlite_store" where
  "prune env s =
     (if se_fails env SqlPrune then (Inl (to_io SqlPrune), s)
      else (Inr (), s\<lparr>sq_messages :=
              filter (row_rank_le DEFAULT_PERSISTED_MESSAGES_PER_TOPIC (sq_messages s)) (sq_messages s)\<rparr>))"

text \<open>
  Opening the database: a table from before \<open>msg_id\<close> existed gets the column with NULL in every row, which
  is how such rows are represented here already; then the schema is applied and the table pruned.
\<close>

definition sqlite_open :: "sqlite_env \<Rightarrow> sqlite_store \<Rightarrow> sqlite_store io_result" where
  "sqlite_open env s =
     (if se_fails env SqlOpen then Inl (to_io SqlOpen)
      else if se_fails env SqlSchema then Inl (to_io SqlSchema)
      else (case prune env (s\<lparr>sq_appends_since_prune := 0\<rparr>) of
              (Inl err, _) \<Rightarrow> Inl err
            | (Inr _, s') \<Rightarrow> Inr s'))"

section \<open>The operations\<close>

text \<open>The transaction of \<open>append\<close>; a failed statement leaves the tables as they were.\<close>

definition append_tx ::
  "sqlite_env \<Rightarrow> topic \<Rightarrow> u8 list \<Rightarrow> bool \<Rightarrow> u8 list \<Rightarrow> message_id \<Rightarrow> sqlite_store \<Rightarrow> unit io_result \<times> sqlite_store" where
  "append_tx env t payload retain bytes i s =
     (if se_fails env SqlBegin then (Inl (to_io SqlBegin), s)
      else if se_fails env SqlInsertMessage then (Inl (to_io SqlInsertMessage), s)
      else
        (let s1 = s\<lparr>sq_messages := sq_messages s @ [\<lparr>mr_seq = Suc (sq_last_seq s), mr_topic = topic_str t,
                      mr_ts = se_now_ms env, mr_envelope = bytes, mr_msg_id = Some (message_id_as_bytes i)\<rparr>],
                    sq_last_seq := Suc (sq_last_seq s)\<rparr>;
             stmt = (if payload = [] then SqlDeleteRetained else SqlUpsertRetained)
         in if retain \<and> se_fails env stmt then (Inl (to_io stmt), s)
            else if se_fails env SqlCommit then (Inl (to_io SqlCommit), s)
            else (Inr (), if retain
                          then s1\<lparr>sq_retained := (if payload = [] then AList.delete (topic_str t) (sq_retained s1)
                                                  else AList.update (topic_str t) bytes (sq_retained s1))\<rparr>
                          else s1)))"

definition sqlite_append :: "sqlite_env \<Rightarrow> envelope \<Rightarrow> sqlite_store \<Rightarrow> unit io_result \<times> sqlite_store" where
  "sqlite_append env e s =
     (case env_kind e of
        Publish t payload retain ct rt irt \<Rightarrow>
          (case to_bytes (se_codec env) e of
             Inl _ \<Rightarrow> (Inl (OtherIo (str ''encode'')), s)
           | Inr bytes \<Rightarrow>
               (case append_tx env t payload retain bytes (env_id e) s of
                  (Inl err, s') \<Rightarrow> (Inl err, s')
                | (Inr _, s') \<Rightarrow>
                    if sq_appends_since_prune s' + 1 \<ge> PRUNE_EVERY
                    then prune env (s'\<lparr>sq_appends_since_prune := 0\<rparr>)
                    else (Inr (), s'\<lparr>sq_appends_since_prune := sq_appends_since_prune s' + 1\<rparr>)))
      | _ \<Rightarrow> (Inl (OtherIo (str ''MessageStore::append given a non-Publish envelope'')), s))"

text \<open>The loop of \<open>load_recent\<close>: rows of one topic in a row are collected under that topic.\<close>

fun decode_rows :: "codec \<Rightarrow> u8 list list \<Rightarrow> envelope list io_result" where
  "decode_rows c [] = Inr []"
| "decode_rows c (b # bs) =
     (case from_bytes c b of
        Inl _ \<Rightarrow> Inl (OtherIo (str ''decode''))
      | Inr e \<Rightarrow> (case decode_rows c bs of Inl err \<Rightarrow> Inl err | Inr es \<Rightarrow> Inr (e # es)))"

definition push_recent ::
  "topic \<Rightarrow> envelope \<Rightarrow> (topic \<times> envelope list) list \<Rightarrow> (topic \<times> envelope list) list" where
  "push_recent t e out =
     (if out \<noteq> [] \<and> fst (last out) = t then butlast out @ [(t, snd (last out) @ [e])] else out @ [(t, [e])])"

fun collect_recent ::
  "codec \<Rightarrow> (rstr \<times> u8 list) list \<Rightarrow> (topic \<times> envelope list) list \<Rightarrow> (topic \<times> envelope list) list io_result" where
  "collect_recent c [] out = Inr out"
| "collect_recent c ((name, b) # rows) out =
     (case topic_from_str name of
        Inl _ \<Rightarrow> Inl (OtherIo (str ''topic''))
      | Inr t \<Rightarrow>
          (case from_bytes c b of
             Inl _ \<Rightarrow> Inl (OtherIo (str ''decode''))
           | Inr e \<Rightarrow> collect_recent c rows (push_recent t e out)))"

definition sqlite_load_recent :: "sqlite_env \<Rightarrow> nat \<Rightarrow> sqlite_store \<Rightarrow> (topic \<times> envelope list) list io_result" where
  "sqlite_load_recent env per_topic s =
     (if se_fails env SqlSelectRecent then Inl (to_io SqlSelectRecent)
      else collect_recent (se_codec env)
             (map (\<lambda>r. (mr_topic r, mr_envelope r))
                (sort_key mr_topic (filter (row_rank_le per_topic (sq_messages s)) (sq_messages s)))) [])"

fun collect_retained :: "codec \<Rightarrow> (rstr \<times> u8 list) list \<Rightarrow> (topic \<times> envelope) list io_result" where
  "collect_retained c [] = Inr []"
| "collect_retained c ((name, b) # rows) =
     (case topic_from_str name of
        Inl _ \<Rightarrow> Inl (OtherIo (str ''topic''))
      | Inr t \<Rightarrow>
          (case from_bytes c b of
             Inl _ \<Rightarrow> Inl (OtherIo (str ''decode''))
           | Inr e \<Rightarrow> (case collect_retained c rows of Inl err \<Rightarrow> Inl err | Inr out \<Rightarrow> Inr ((t, e) # out))))"

definition sqlite_load_retained :: "sqlite_env \<Rightarrow> sqlite_store \<Rightarrow> (topic \<times> envelope) list io_result" where
  "sqlite_load_retained env s =
     (if se_fails env SqlSelectRetained then Inl (to_io SqlSelectRetained)
      else collect_retained (se_codec env) (sq_retained s))"

text \<open>\<open>msg_id > ?\<close> on blobs compares bytes, as the order on lists does; NULL never matches.\<close>

definition since_rows :: "topic \<Rightarrow> message_id \<Rightarrow> message_row list \<Rightarrow> message_row list" where
  "since_rows t after rows =
     sort_key (\<lambda>r. the (mr_msg_id r))
       (filter (\<lambda>r. mr_topic r = topic_str t
                  \<and> (case mr_msg_id r of None \<Rightarrow> False | Some i \<Rightarrow> message_id_as_bytes after < i)) rows)"

definition sqlite_messages_since :: "sqlite_env \<Rightarrow> topic \<Rightarrow> message_id \<Rightarrow> sqlite_store \<Rightarrow> envelope list io_result" where
  "sqlite_messages_since env t after s =
     (if se_fails env SqlSelectSince then Inl (to_io SqlSelectSince)
      else decode_rows (se_codec env) (map mr_envelope (since_rows t after (sq_messages s))))"

definition sqlite_load_offset :: "sqlite_env \<Rightarrow> peer_id \<Rightarrow> topic \<Rightarrow> sqlite_store \<Rightarrow> message_id option io_result" where
  "sqlite_load_offset env p t s =
     (if se_fails env SqlSelectOffset then Inl (to_io SqlSelectOffset)
      else (case map_of (sq_offsets s) (peer_id_as_bytes p, topic_str t) of
              None \<Rightarrow> Inr None
            | Some (bytes, _) \<Rightarrow>
                if length bytes = 16 then Inr (Some (message_id_from_bytes bytes))
                else Inl (OtherIo (str ''stored last_msg_id is not 16 bytes''))))"

definition sqlite_record_offset ::
  "sqlite_env \<Rightarrow> peer_id \<Rightarrow> topic \<Rightarrow> message_id \<Rightarrow> sqlite_store \<Rightarrow> unit io_result \<times> sqlite_store" where
  "sqlite_record_offset env p t i s =
     (if se_fails env SqlUpsertOffset then (Inl (to_io SqlUpsertOffset), s)
      else (Inr (), s\<lparr>sq_offsets := AList.update (peer_id_as_bytes p, topic_str t)
                        (message_id_as_bytes i, se_now_ms env) (sq_offsets s)\<rparr>))"

definition sqlite_expire_before :: "sqlite_env \<Rightarrow> int \<Rightarrow> sqlite_store \<Rightarrow> envelope list io_result \<times> sqlite_store" where
  "sqlite_expire_before env cutoff s =
     (if se_fails env SqlBegin then (Inl (to_io SqlBegin), s)
      else if se_fails env SqlSelectExpired then (Inl (to_io SqlSelectExpired), s)
      else (case decode_rows (se_codec env) (map mr_envelope (filter (\<lambda>r. mr_ts r < cutoff) (sq_messages s))) of
              Inl err \<Rightarrow> (Inl err, s)
            | Inr expired \<Rightarrow>
                if se_fails env SqlDeleteExpired then (Inl (to_io SqlDeleteExpired), s)
                else if se_fails env SqlCommit then (Inl (to_io SqlCommit), s)
                else (Inr expired, s\<lparr>sq_messages := filter (\<lambda>r. \<not> mr_ts r < cutoff) (sq_messages s)\<rparr>)))"

text \<open>The implementation of the trait. No operation panics.\<close>

definition sqlite_message_store :: "sqlite_env \<Rightarrow> sqlite_store message_store" where
  "sqlite_message_store env =
     \<lparr>st_append = (\<lambda>e s. (case sqlite_append env e s of (r, s') \<Rightarrow> (Returns r, s'))),
      st_load_recent = sqlite_load_recent env,
      st_load_retained = sqlite_load_retained env,
      st_messages_since = (\<lambda>t after s. Returns (sqlite_messages_since env t after s)),
      st_load_offset = (\<lambda>p t s. Returns (sqlite_load_offset env p t s)),
      st_record_offset = (\<lambda>p t i s. (case sqlite_record_offset env p t i s of (r, s') \<Rightarrow> (Returns r, s'))),
      st_expire_before = (\<lambda>cutoff s. (case sqlite_expire_before env cutoff s of (r, s') \<Rightarrow> (Returns r, s')))\<rparr>"

section \<open>The contract\<close>

text \<open>
  What the broker relies on, over an abstract view of the store: \<open>log s t\<close> is the persisted history of a topic,
  oldest first, \<open>kept s t\<close> its retained message, \<open>offs s\<close> the recorded positions. \<open>storable\<close> says which
  envelopes the store can take; \<open>limit\<close> is the number of messages per topic that pruning always keeps.
\<close>

definition publish_topic :: "envelope \<Rightarrow> topic option" where
  "publish_topic e = (case env_kind e of Publish t _ _ _ _ _ \<Rightarrow> Some t | _ \<Rightarrow> None)"

definition is_publish :: "envelope \<Rightarrow> bool" where
  "is_publish e \<longleftrightarrow> (case env_kind e of Publish t _ _ _ _ _ \<Rightarrow> True | _ \<Rightarrow> False)"

fun append_run :: "'s message_store \<Rightarrow> envelope list \<Rightarrow> 's \<Rightarrow> 's" where
  "append_run ops [] s = s"
| "append_run ops (e # es) s = append_run ops es (snd (st_append ops e s))"

locale durable_store =
  fixes ops :: "'s message_store"
    and ok :: "'s \<Rightarrow> bool"
    and storable :: "envelope \<Rightarrow> bool"
    and log :: "'s \<Rightarrow> topic \<Rightarrow> envelope list"
    and kept :: "'s \<Rightarrow> topic \<Rightarrow> envelope option"
    and offs :: "'s \<Rightarrow> peer_id \<times> topic \<Rightarrow> message_id option"
    and limit :: nat
  assumes append_law: "ok s \<Longrightarrow> storable e \<Longrightarrow> env_kind e = Publish t payload retain ct rt irt \<Longrightarrow>
      \<exists>s'. st_append ops e s = (Returns (Inr ()), s') \<and> ok s'
        \<and> (\<exists>n \<ge> limit. log s' t = last_n n (log s t @ [e]) \<and> (\<forall>u. u \<noteq> t \<longrightarrow> log s' u = last_n n (log s u)))
        \<and> kept s' = (if retain then (kept s)(t := if payload = [] then None else Some e) else kept s)
        \<and> offs s' = offs s"
    and since_law: "ok s \<Longrightarrow> st_messages_since ops t after s
      = Returns (Inr (sort_key env_id (filter (\<lambda>e. after < env_id e) (log s t))))"
    and recent_law: "ok s \<Longrightarrow> 0 < n \<Longrightarrow> \<exists>out. st_load_recent ops n s = Inr out \<and> distinct (map fst out)
      \<and> (\<forall>t. map_of out t = (if log s t = [] then None else Some (last_n n (log s t))))"
    and retained_law: "ok s \<Longrightarrow> \<exists>out. st_load_retained ops s = Inr out \<and> distinct (map fst out) \<and> map_of out = kept s"
    and offset_law: "ok s \<Longrightarrow> length (message_uuid i) = 16 \<Longrightarrow>
      \<exists>s'. st_record_offset ops p t i s = (Returns (Inr ()), s') \<and> ok s' \<and> log s' = log s \<and> kept s' = kept s
        \<and> offs s' = (offs s)((p, t) \<mapsto> i)"
    and load_offset_law: "ok s \<Longrightarrow> st_load_offset ops p t s = Returns (Inr (offs s (p, t)))"
begin

text \<open>A run of appends: nothing is lost up to the limit, whatever else is appended in between.\<close>

lemma append_run_ok:
  assumes "ok s" and "\<And>e. e \<in> set es \<Longrightarrow> storable e \<and> is_publish e"
  shows "ok (append_run ops es s)
    \<and> (\<exists>n \<ge> limit. log (append_run ops es s) t = last_n n (log s t @ filter (\<lambda>e. publish_topic e = Some t) es))
    \<and> offs (append_run ops es s) = offs s"
  using assms
proof (induction es arbitrary: s)
  case Nil
  have "log s t = last_n (max limit (length (log s t))) (log s t)" by (simp add: last_n_def)
  with Nil show ?case by (metis append_Nil2 append_run.simps(1) filter.simps(1) max.cobounded1)
next
  case (Cons e es)
  from Cons.prems(2) [of e] obtain u payload retain ct rt irt
    where kind: "env_kind e = Publish u payload retain ct rt irt" and e: "storable e"
    by (auto simp: is_publish_def split: message_kind.splits)
  from append_law [OF Cons.prems(1) e kind] obtain s' n where
    s': "st_append ops e s = (Returns (Inr ()), s')" "ok s'" "offs s' = offs s" and n: "n \<ge> limit"
    and log': "log s' u = last_n n (log s u @ [e])" "\<And>v. v \<noteq> u \<Longrightarrow> log s' v = last_n n (log s v)" by blast
  have one: "log s' t = last_n n (log s t @ filter (\<lambda>e. publish_topic e = Some t) [e])"
    using log' kind by (cases "t = u") (auto simp: publish_topic_def)
  from Cons.IH [OF s'(2)] Cons.prems(2) obtain m where
    m: "ok (append_run ops es s')" "offs (append_run ops es s') = offs s'" "m \<ge> limit"
      "log (append_run ops es s') t = last_n m (log s' t @ filter (\<lambda>e. publish_topic e = Some t) es)" by auto
  let ?k = "min m (n + length (filter (\<lambda>e. publish_topic e = Some t) es))"
  have "log (append_run ops es s') t = last_n ?k (log s t @ filter (\<lambda>e. publish_topic e = Some t) (e # es))"
    using m(4) by (simp add: one last_n_snoc_last_n)
  moreover have "?k \<ge> limit" using n m(3) by simp
  ultimately have "\<exists>n \<ge> limit. log (append_run ops es s') t
      = last_n n (log s t @ filter (\<lambda>e. publish_topic e = Some t) (e # es))" by blast
  with s' m(1,2) show ?case by simp
qed

text \<open>So the most recent messages of every topic, up to the limit, can be read back.\<close>

lemma recent_after_run:
  assumes "ok s" and "\<And>e. e \<in> set es \<Longrightarrow> storable e \<and> is_publish e" and "log s t = []" and "0 < n" and "n \<le> limit"
  shows "\<exists>out. st_load_recent ops n (append_run ops es s) = Inr out \<and> distinct (map fst out)
    \<and> map_of out t = (if filter (\<lambda>e. publish_topic e = Some t) es = [] then None
                       else Some (last_n n (filter (\<lambda>e. publish_topic e = Some t) es)))"
proof -
  let ?es = "filter (\<lambda>e. publish_topic e = Some t) es"
  from append_run_ok [OF assms(1,2), of es t] assms(3) obtain m where
    run: "ok (append_run ops es s)" "m \<ge> limit" "log (append_run ops es s) t = last_n m ?es" by auto
  have pos: "0 < m" and "min n m = n" using run(2) assms(4,5) by auto
  then have "last_n n (last_n m ?es) = last_n n ?es" by (simp add: last_n_last_n)
  with recent_law [OF run(1) assms(4)] pos show ?thesis
    by (auto simp: run(3) last_n_Nil_iff)
qed

end

section \<open>The tables implement the contract\<close>

lemma topic_str_eq: "topic_str a = topic_str b \<longleftrightarrow> a = b"
  by (auto intro: topic.expand)

definition row_envelope :: "codec \<Rightarrow> message_row \<Rightarrow> envelope" where
  "row_envelope c r = the (cbor_decode c (mr_envelope r))"

definition row_ok :: "codec \<Rightarrow> message_row \<Rightarrow> bool" where
  "row_ok c r \<longleftrightarrow> (\<exists>e. cbor_decode c (mr_envelope r) = Some e \<and> mr_msg_id r = Some (message_id_as_bytes (env_id e)))
     \<and> wf_topic (Topic (mr_topic r))"

text \<open>Tables written by this version: rows in the order of \<open>seq\<close>, every row decodable under a valid topic,
  every recorded position sixteen bytes long.\<close>

definition sqlite_ok :: "codec \<Rightarrow> sqlite_store \<Rightarrow> bool" where
  "sqlite_ok c s \<longleftrightarrow>
     sorted_wrt (\<lambda>a b. mr_seq a < mr_seq b) (sq_messages s)
     \<and> (\<forall>r \<in> set (sq_messages s). row_ok c r \<and> mr_seq r \<le> sq_last_seq s)
     \<and> distinct (map fst (sq_retained s))
     \<and> (\<forall>(name, b) \<in> set (sq_retained s). wf_topic (Topic name) \<and> cbor_decode c b \<noteq> None)
     \<and> (\<forall>k b ts. map_of (sq_offsets s) k = Some (b, ts) \<longrightarrow> length b = 16)"

definition sqlite_log :: "codec \<Rightarrow> sqlite_store \<Rightarrow> topic \<Rightarrow> envelope list" where
  "sqlite_log c s t = map (row_envelope c) (filter (\<lambda>r. mr_topic r = topic_str t) (sq_messages s))"

definition sqlite_kept :: "codec \<Rightarrow> sqlite_store \<Rightarrow> topic \<Rightarrow> envelope option" where
  "sqlite_kept c s t = (case map_of (sq_retained s) (topic_str t) of None \<Rightarrow> None | Some b \<Rightarrow> cbor_decode c b)"

definition sqlite_offs :: "sqlite_store \<Rightarrow> peer_id \<times> topic \<Rightarrow> message_id option" where
  "sqlite_offs s pt =
     map_option (message_id_from_bytes \<circ> fst) (map_of (sq_offsets s) (peer_id_as_bytes (fst pt), topic_str (snd pt)))"

text \<open>Envelopes that can be stored: publishes to a valid topic that the encoder accepts.\<close>

definition storable :: "codec \<Rightarrow> envelope \<Rightarrow> bool" where
  "storable c e \<longleftrightarrow> cbor_encode c e \<noteq> None
     \<and> (case env_kind e of Publish t _ _ _ _ _ \<Rightarrow> wf_topic t | _ \<Rightarrow> False)"

lemma filter_rank_last_n:
  assumes "sorted_wrt (\<lambda>a b. f a < (f b :: nat)) xs"
  shows "filter (\<lambda>r. length (filter (\<lambda>q. f r < f q) xs) < n) xs = last_n n xs"
  using assms
proof (induction xs)
  case (Cons x xs)
  have older: "filter (\<lambda>q. f r < f q) (x # xs) = filter (\<lambda>q. f r < f q) xs" if "r \<in> set xs" for r
    using Cons.prems that by (auto dest: order.strict_trans)
  have newest: "filter (\<lambda>q. f x < f q) xs = xs" using Cons.prems by (simp add: filter_id_conv)
  have "filter (\<lambda>r. length (filter (\<lambda>q. f r < f q) (x # xs)) < n) xs
      = filter (\<lambda>r. length (filter (\<lambda>q. f r < f q) xs) < n) xs"
    using older by (intro filter_cong) simp_all
  also have "\<dots> = last_n n xs" using Cons by simp
  finally have rest: "filter (\<lambda>r. length (filter (\<lambda>q. f r < f q) (x # xs)) < n) xs = last_n n xs" .
  have "filter (\<lambda>r. length (filter (\<lambda>q. f r < f q) (x # xs)) < n) (x # xs)
      = (if length xs < n then [x] else []) @ last_n n xs"
    using rest newest by (simp only: filter.simps(2) [of _ x xs]) simp
  also have "\<dots> = last_n n (x # xs)" by (auto simp: last_n_def Suc_diff_le not_less)
  finally show ?case .
qed (simp add: last_n_def)

lemma pruned_topic:
  assumes "sorted_wrt (\<lambda>a b. mr_seq a < mr_seq b) rows"
  shows "filter (\<lambda>r. mr_topic r = t) (filter (row_rank_le n rows) rows) = last_n n (filter (\<lambda>r. mr_topic r = t) rows)"
proof -
  let ?R = "filter (\<lambda>r. mr_topic r = t) rows"
  have "filter (\<lambda>r. mr_topic r = t) (filter (row_rank_le n rows) rows)
      = filter (\<lambda>r. length (filter (\<lambda>q. mr_seq r < mr_seq q) ?R) < n) ?R"
    by (auto simp: row_rank_le_def conj_commute intro!: filter_cong)
  also have "\<dots> = last_n n ?R" using assms by (intro filter_rank_last_n sorted_wrt_filter)
  finally show ?thesis .
qed

lemma decode_rows_ok:
  "\<forall>r \<in> set rows. row_ok c r \<Longrightarrow> decode_rows c (map mr_envelope rows) = Inr (map (row_envelope c) rows)"
  by (induction rows) (auto simp: row_ok_def from_bytes_def row_envelope_def split: option.splits)

lemma prune_ok:
  assumes "\<not> se_fails env SqlPrune" and "sqlite_ok c s"
  obtains s' where "prune env s = (Inr (), s')" "sqlite_ok c s'"
    "\<And>t. sqlite_log c s' t = last_n DEFAULT_PERSISTED_MESSAGES_PER_TOPIC (sqlite_log c s t)"
    "sqlite_kept c s' = sqlite_kept c s" "sqlite_offs s' = sqlite_offs s"
proof -
  let ?s = "s\<lparr>sq_messages := filter (row_rank_le DEFAULT_PERSISTED_MESSAGES_PER_TOPIC (sq_messages s)) (sq_messages s)\<rparr>"
  have sorted: "sorted_wrt (\<lambda>a b. mr_seq a < mr_seq b) (sq_messages s)"
    using assms(2) by (simp add: sqlite_ok_def)
  have "sqlite_ok c ?s" using assms(2) by (auto simp: sqlite_ok_def sorted_wrt_filter)
  moreover have "sqlite_log c ?s t = last_n DEFAULT_PERSISTED_MESSAGES_PER_TOPIC (sqlite_log c s t)" for t
    using pruned_topic [OF sorted, of "topic_str t"] by (simp add: sqlite_log_def map_last_n del: filter_filter)
  ultimately show thesis
    using assms(1) by (intro that [of ?s]) (simp_all add: prune_def sqlite_kept_def sqlite_offs_def fun_eq_iff)
qed

lemma sort_key_key_cong:
  fixes f :: "'a \<Rightarrow> 'b::linorder" and g :: "'a \<Rightarrow> 'c::linorder"
  assumes "\<And>x y. x \<in> set xs \<Longrightarrow> y \<in> set xs \<Longrightarrow> f x \<le> f y \<longleftrightarrow> g x \<le> g y"
  shows "sort_key f xs = sort_key g xs"
proof -
  have insort: "insort_key f x ys = insort_key g x ys" if "set (x # ys) \<subseteq> set xs" for x ys
    using that by (induction ys) (auto simp: assms)
  have "sort_key f ys = sort_key g ys" if "set ys \<subseteq> set xs" for ys
    using that
  proof (induction ys)
    case (Cons y ys)
    then show ?case using insort [of y "sort_key g ys"] by simp
  qed simp
  then show ?thesis by simp
qed

lemma map_sort_key: "map h (sort_key (\<lambda>x. f (h x)) xs) = sort_key f (map h xs)"
proof -
  have "map h (insort_key (\<lambda>x. f (h x)) x ys) = insort_key f (h x) (map h ys)" for x ys
    by (induction ys) auto
  then show ?thesis by (induction xs) auto
qed

lemma messages_since_ok:
  assumes "sqlite_ok c s" and "\<not> se_fails env SqlSelectSince" and "se_codec env = c"
  shows "sqlite_messages_since env t after s
    = Inr (sort_key env_id (filter (\<lambda>e. after < env_id e) (sqlite_log c s t)))"
proof -
  let ?R = "filter (\<lambda>r. mr_topic r = topic_str t \<and> after < env_id (row_envelope c r)) (sq_messages s)"
  have row: "\<And>r. r \<in> set (sq_messages s) \<Longrightarrow> row_ok c r" using assms(1) by (simp add: sqlite_ok_def)
  have id: "mr_msg_id r = Some (message_id_as_bytes (env_id (row_envelope c r)))" if "r \<in> set (sq_messages s)" for r
    using row [OF that] by (auto simp: row_ok_def row_envelope_def)
  have "since_rows t after (sq_messages s) = sort_key (\<lambda>r. the (mr_msg_id r)) ?R"
    unfolding since_rows_def using id by (intro arg_cong [where f = "sort_key _"] filter_cong) (simp_all add: message_id_as_bytes_less)
  also have "\<dots> = sort_key (\<lambda>r. env_id (row_envelope c r)) ?R"
    using id by (intro sort_key_key_cong) (simp add: message_id_as_bytes_def less_eq_message_id_def)
  finally have rows: "since_rows t after (sq_messages s) = sort_key (\<lambda>r. env_id (row_envelope c r)) ?R" .
  have "decode_rows c (map mr_envelope (sort_key (\<lambda>r. env_id (row_envelope c r)) ?R))
      = Inr (map (row_envelope c) (sort_key (\<lambda>r. env_id (row_envelope c r)) ?R))"
    using row by (intro decode_rows_ok) simp
  also have "map (row_envelope c) (sort_key (\<lambda>r. env_id (row_envelope c r)) ?R)
      = sort_key env_id (map (row_envelope c) ?R)"
    by (rule map_sort_key)
  also have "map (row_envelope c) ?R = filter (\<lambda>e. after < env_id e) (sqlite_log c s t)"
    by (simp add: sqlite_log_def filter_map comp_def conj_commute)
  finally show ?thesis using assms(2,3) by (simp add: sqlite_messages_since_def rows)
qed

lemma sqlite_ok_record:
  assumes "sqlite_ok c s" and "length (message_uuid i) = 16"
  shows "sqlite_ok c (s\<lparr>sq_offsets := AList.update k (message_id_as_bytes i, n) (sq_offsets s)\<rparr>)"
  using assms by (auto simp: sqlite_ok_def message_id_as_bytes_def simp del: map_of_eq_Some_iff split_paired_All split: if_splits)

lemma sqlite_ok_offset: "sqlite_ok c s \<Longrightarrow> map_of (sq_offsets s) k = Some (b, ts) \<Longrightarrow> length b = 16"
  unfolding sqlite_ok_def by blast

lemma sqlite_offs_record:
  "sqlite_offs (s\<lparr>sq_offsets := AList.update (peer_id_as_bytes p, topic_str t) (message_id_as_bytes i, n) (sq_offsets s)\<rparr>)
     = (sqlite_offs s)((p, t) \<mapsto> i)"
  by (auto simp: sqlite_offs_def fun_eq_iff peer_id_as_bytes_def topic.expand peer_id.expand)

subsection \<open>Reading the log back\<close>

definition extend :: "envelope list option \<Rightarrow> envelope list \<Rightarrow> envelope list option" where
  "extend o' es = (if es = [] then o' else Some (case o' of None \<Rightarrow> es | Some xs \<Rightarrow> xs @ es))"

lemma extend_extend: "extend (extend o' xs) ys = extend o' (xs @ ys)"
  by (auto simp: extend_def split: option.splits)

lemma push_recent_map:
  assumes "distinct (map fst out)" and "t \<in> fst ` set out \<Longrightarrow> t = fst (last out)"
  shows "distinct (map fst (push_recent t e out))" "fst ` set (push_recent t e out) = insert t (fst ` set out)"
    "push_recent t e out \<noteq> []" "fst (last (push_recent t e out)) = t"
    "map_of (push_recent t e out) u = (if u = t then extend (map_of out t) [e] else map_of out u)"
proof -
  show "push_recent t e out \<noteq> []" "fst (last (push_recent t e out)) = t" by (simp_all add: push_recent_def)
  show "distinct (map fst (push_recent t e out))" "fst ` set (push_recent t e out) = insert t (fst ` set out)"
    "map_of (push_recent t e out) u = (if u = t then extend (map_of out t) [e] else map_of out u)"
  proof -
    have "distinct (map fst (push_recent t e out)) \<and> fst ` set (push_recent t e out) = insert t (fst ` set out)
      \<and> map_of (push_recent t e out) u = (if u = t then extend (map_of out t) [e] else map_of out u)"
    proof (cases "out \<noteq> [] \<and> fst (last out) = t")
      case True
      then obtain pre es where out: "out = pre @ [(t, es)]"
        by (metis append_butlast_last_id prod.collapse)
      have "t \<notin> fst ` set pre" using assms(1) by (simp add: out)
      then have none: "map_of pre t = None" by (simp add: map_of_eq_None_iff)
      show ?thesis
        using assms(1) none by (auto simp: out push_recent_def extend_def map_add_def split: option.splits)
    next
      case False
      have new: "t \<notin> fst ` set out"
      proof
        assume t: "t \<in> fst ` set out"
        then have "out \<noteq> []" by auto
        with assms(2) [OF t] False show False by simp
      qed
      then have none: "map_of out t = None" by (simp add: map_of_eq_None_iff)
      from False have "push_recent t e out = out @ [(t, [e])]" by (auto simp: push_recent_def)
      then show ?thesis using assms(1) new none by (auto simp: extend_def map_add_def split: option.splits)
    qed
    then show "distinct (map fst (push_recent t e out))" "fst ` set (push_recent t e out) = insert t (fst ` set out)"
      "map_of (push_recent t e out) u = (if u = t then extend (map_of out t) [e] else map_of out u)" by blast+
  qed
qed

lemma collect_recent_ok:
  assumes "\<forall>(name, b) \<in> set rows. wf_topic (Topic name) \<and> cbor_decode c b \<noteq> None"
    and "sorted (map fst rows)" and "distinct (map fst out)"
    and "\<forall>t \<in> fst ` set out. topic_str t \<le> topic_str (fst (last out))"
    and "out \<noteq> [] \<Longrightarrow> \<forall>name \<in> fst ` set rows. topic_str (fst (last out)) \<le> name"
  shows "\<exists>out'. collect_recent c rows out = Inr out' \<and> distinct (map fst out')
    \<and> (\<forall>t. map_of out' t = extend (map_of out t)
             (map (\<lambda>(_, b). the (cbor_decode c b)) (filter (\<lambda>(name, _). name = topic_str t) rows)))"
  using assms
proof (induction rows arbitrary: out)
  case Nil
  then show ?case by (simp add: extend_def)
next
  case (Cons row rows)
  obtain name b where row: "row = (name, b)" by fastforce
  then obtain e where e: "cbor_decode c b = Some e" and wf: "wf_topic (Topic name)" using Cons.prems(1) by auto
  have last: "Topic name \<in> fst ` set out \<Longrightarrow> Topic name = fst (last out)"
    using Cons.prems(4,5) by (cases "out = []") (auto simp: row intro!: topic.expand antisym)
  let ?out = "push_recent (Topic name) e out"
  note push = push_recent_map [OF Cons.prems(3) last]
  have bound: "topic_str t \<le> topic_str (fst (last ?out))" if "t \<in> fst ` set ?out" for t
  proof -
    have "t = Topic name \<or> (t \<in> fst ` set out)" using that push(2) by simp
    moreover have "topic_str t \<le> name" if t: "t \<in> fst ` set out"
    proof -
      have "out \<noteq> []" using t by auto
      then have "topic_str (fst (last out)) \<le> name" using Cons.prems(5) by (simp add: row)
      moreover have "topic_str t \<le> topic_str (fst (last out))" using Cons.prems(4) t by blast
      ultimately show ?thesis by (rule order.trans [rotated])
    qed
    ultimately show ?thesis using push(4) by auto
  qed
  have "\<exists>out'. collect_recent c rows ?out = Inr out' \<and> distinct (map fst out')
    \<and> (\<forall>t. map_of out' t = extend (map_of ?out t)
             (map (\<lambda>(_, b). the (cbor_decode c b)) (filter (\<lambda>(name, _). name = topic_str t) rows)))"
    using Cons.prems(1,2) push bound by (intro Cons.IH) (auto simp: row)
  moreover have "collect_recent c (row # rows) out = collect_recent c rows ?out"
    using wf e by (simp add: row topic_from_str_def wf_topic_def from_bytes_def)
  moreover have "extend (map_of ?out t) (map (\<lambda>(_, b). the (cbor_decode c b)) (filter (\<lambda>(name, _). name = topic_str t) rows))
     = extend (map_of out t) (map (\<lambda>(_, b). the (cbor_decode c b)) (filter (\<lambda>(name, _). name = topic_str t) (row # rows)))" for t
    using push(5) [of e t] e by (cases t) (auto simp: row extend_extend)
  ultimately show ?case by simp
qed

lemma load_recent_ok:
  assumes "sqlite_ok c s" and "\<not> se_fails env SqlSelectRecent" and "se_codec env = c" and "0 < n"
  shows "\<exists>out. sqlite_load_recent env n s = Inr out \<and> distinct (map fst out)
    \<and> (\<forall>t. map_of out t = (if sqlite_log c s t = [] then None else Some (last_n n (sqlite_log c s t))))"
proof -
  let ?F = "filter (row_rank_le n (sq_messages s)) (sq_messages s)"
  let ?rows = "map (\<lambda>r. (mr_topic r, mr_envelope r)) (sort_key mr_topic ?F)"
  have sorted: "sorted_wrt (\<lambda>a b. mr_seq a < mr_seq b) (sq_messages s)" using assms(1) by (simp add: sqlite_ok_def)
  have valid: "\<forall>(name, b) \<in> set ?rows. wf_topic (Topic name) \<and> cbor_decode c b \<noteq> None"
    using assms(1) by (auto simp: sqlite_ok_def row_ok_def)
  have srt: "sorted (map fst ?rows)" by (simp add: comp_def)
  have "map (\<lambda>(_, b). the (cbor_decode c b)) (filter (\<lambda>(name, _). name = topic_str t) ?rows)
      = last_n n (sqlite_log c s t)" for t
  proof -
    have "filter (\<lambda>(name, _). name = topic_str t) ?rows
        = map (\<lambda>r. (mr_topic r, mr_envelope r)) (filter (\<lambda>r. mr_topic r = topic_str t) (sort_key mr_topic ?F))"
      by (simp add: filter_map comp_def)
    also have "filter (\<lambda>r. mr_topic r = topic_str t) (sort_key mr_topic ?F) = filter (\<lambda>r. mr_topic r = topic_str t) ?F"
      by (rule sort_key_stable)
    also have "\<dots> = last_n n (filter (\<lambda>r. mr_topic r = topic_str t) (sq_messages s))" by (rule pruned_topic [OF sorted])
    finally show ?thesis by (simp add: sqlite_log_def row_envelope_def map_last_n comp_def flip: map_last_n)
  qed
  then show ?thesis
    using collect_recent_ok [OF valid srt, of "[]"] assms(2-4)
    by (auto simp: sqlite_load_recent_def extend_def last_n_Nil_iff)
qed

lemma collect_retained_ok:
  assumes "\<forall>(name, b) \<in> set rows. wf_topic (Topic name) \<and> cbor_decode c b \<noteq> None" and "distinct (map fst rows)"
  shows "\<exists>out. collect_retained c rows = Inr out \<and> map fst out = map (\<lambda>(name, _). Topic name) rows
    \<and> map_of out = (\<lambda>t. case map_of rows (topic_str t) of None \<Rightarrow> None | Some b \<Rightarrow> cbor_decode c b)"
  using assms
proof (induction rows)
  case (Cons row rows)
  obtain name b where row: "row = (name, b)" by fastforce
  then obtain e where e: "cbor_decode c b = Some e" and wf: "wf_topic (Topic name)" using Cons.prems(1) by auto
  from Cons obtain out where out: "collect_retained c rows = Inr out" "map fst out = map (\<lambda>(name, _). Topic name) rows"
    "map_of out = (\<lambda>t. case map_of rows (topic_str t) of None \<Rightarrow> None | Some b \<Rightarrow> cbor_decode c b)" by auto
  have "collect_retained c (row # rows) = Inr ((Topic name, e) # out)"
    using wf e out by (simp add: row topic_from_str_def wf_topic_def from_bytes_def)
  moreover have "map_of ((Topic name, e) # out)
      = (\<lambda>t. case map_of (row # rows) (topic_str t) of None \<Rightarrow> None | Some b \<Rightarrow> cbor_decode c b)"
  proof
    fix t show "map_of ((Topic name, e) # out) t
      = (case map_of (row # rows) (topic_str t) of None \<Rightarrow> None | Some b \<Rightarrow> cbor_decode c b)"
      using out(3) e by (cases t) (simp add: row)
  qed
  ultimately show ?case using out(2) by (simp add: row)
qed (simp add: fun_eq_iff)

lemma load_retained_ok:
  assumes "sqlite_ok c s" and "\<not> se_fails env SqlSelectRetained" and "se_codec env = c"
  shows "\<exists>out. sqlite_load_retained env s = Inr out \<and> distinct (map fst out) \<and> map_of out = sqlite_kept c s"
proof -
  have valid: "\<forall>(name, b) \<in> set (sq_retained s). wf_topic (Topic name) \<and> cbor_decode c b \<noteq> None"
    and dist: "distinct (map fst (sq_retained s))" using assms(1) by (simp_all add: sqlite_ok_def)
  from collect_retained_ok [OF this] obtain out where
    out: "collect_retained c (sq_retained s) = Inr out" "map fst out = map (\<lambda>(name, _). Topic name) (sq_retained s)"
      "map_of out = sqlite_kept c s" by (auto simp: sqlite_kept_def fun_eq_iff)
  have "map fst out = map Topic (map fst (sq_retained s))" by (simp add: out(2) case_prod_beta)
  then have "distinct (map fst out)" using dist by (simp add: distinct_map inj_on_def)
  with out assms show ?thesis by (simp add: sqlite_load_retained_def)
qed

subsection \<open>Appending\<close>

lemma append_tx_ok:
  assumes ok: "sqlite_ok c s" and "\<And>q. \<not> se_fails env q" and "se_codec env = c" and "codec_round_trip c"
    and e: "env_kind e = Publish t payload retain ct rt irt" and wf: "wf_topic t" and enc: "cbor_encode c e = Some bytes"
  obtains s' where "append_tx env t payload retain bytes (env_id e) s = (Inr (), s')" "sqlite_ok c s'"
    "sqlite_log c s' t = sqlite_log c s t @ [e]" "\<And>u. u \<noteq> t \<Longrightarrow> sqlite_log c s' u = sqlite_log c s u"
    "sqlite_kept c s' = (if retain then (sqlite_kept c s)(t := if payload = [] then None else Some e) else sqlite_kept c s)"
    "sqlite_offs s' = sqlite_offs s"
proof -
  have dec: "cbor_decode c bytes = Some e" using assms(4) enc by (simp add: codec_round_trip_def)
  let ?row = "\<lparr>mr_seq = Suc (sq_last_seq s), mr_topic = topic_str t, mr_ts = se_now_ms env, mr_envelope = bytes,
    mr_msg_id = Some (message_id_as_bytes (env_id e))\<rparr>"
  let ?s1 = "s\<lparr>sq_messages := sq_messages s @ [?row], sq_last_seq := Suc (sq_last_seq s)\<rparr>"
  let ?R = "if payload = [] then AList.delete (topic_str t) (sq_retained s) else AList.update (topic_str t) bytes (sq_retained s)"
  let ?s' = "if retain then ?s1\<lparr>sq_retained := ?R\<rparr> else ?s1"
  have row: "row_ok c ?row" "row_envelope c ?row = e" using dec wf by (simp_all add: row_ok_def row_envelope_def)
  have ok1: "sqlite_ok c ?s1"
    using ok row(1) by (auto simp: sqlite_ok_def sorted_wrt_append less_Suc_eq_le intro: le_SucI)
  have R: "distinct (map fst ?R)" "\<forall>(name, b) \<in> set ?R. wf_topic (Topic name) \<and> cbor_decode c b \<noteq> None"
    using ok dec wf by (auto simp: sqlite_ok_def distinct_delete distinct_update
        dest!: subsetD [OF set_delete_subset] subsetD [OF set_update_subset])
  show thesis
  proof (rule that [of ?s'])
    show "append_tx env t payload retain bytes (env_id e) s = (Inr (), ?s')" using assms(2) by (simp add: append_tx_def Let_def)
    show "sqlite_ok c ?s'" using ok1 R by (simp add: sqlite_ok_def)
    show "sqlite_log c ?s' t = sqlite_log c s t @ [e]" using row(2) by (simp add: sqlite_log_def)
    show "sqlite_log c ?s' u = sqlite_log c s u" if "u \<noteq> t" for u
      using that by (auto simp: sqlite_log_def topic_str_eq)
    show "sqlite_kept c ?s' = (if retain then (sqlite_kept c s)(t := if payload = [] then None else Some e) else sqlite_kept c s)"
      using dec by (auto simp: sqlite_kept_def fun_eq_iff topic_str_eq)
    show "sqlite_offs ?s' = sqlite_offs s" by (simp add: sqlite_offs_def fun_eq_iff)
  qed
qed

text \<open>The documented behaviour of the database and of the encoder: statements succeed, the decoder undoes the
  encoder.\<close>

definition healthy :: "sqlite_env \<Rightarrow> bool" where
  "healthy env \<longleftrightarrow> (\<forall>q. \<not> se_fails env q) \<and> codec_round_trip (se_codec env)"

lemma sqlite_ok_counter: "sqlite_ok c (s\<lparr>sq_appends_since_prune := n\<rparr>) = sqlite_ok c s"
  by (simp add: sqlite_ok_def)

lemma sqlite_views_counter:
  "sqlite_log c (s\<lparr>sq_appends_since_prune := n\<rparr>) = sqlite_log c s"
  "sqlite_kept c (s\<lparr>sq_appends_since_prune := n\<rparr>) = sqlite_kept c s"
  "sqlite_offs (s\<lparr>sq_appends_since_prune := n\<rparr>) = sqlite_offs s"
  by (simp_all add: sqlite_log_def sqlite_kept_def sqlite_offs_def fun_eq_iff)

lemma sqlite_append_ok:
  assumes "healthy env" and "sqlite_ok (se_codec env) s" and "storable (se_codec env) e"
    and e: "env_kind e = Publish t payload retain ct rt irt"
  shows "\<exists>s'. sqlite_append env e s = (Inr (), s') \<and> sqlite_ok (se_codec env) s'
    \<and> (\<exists>n \<ge> DEFAULT_PERSISTED_MESSAGES_PER_TOPIC. sqlite_log (se_codec env) s' t = last_n n (sqlite_log (se_codec env) s t @ [e])
        \<and> (\<forall>u. u \<noteq> t \<longrightarrow> sqlite_log (se_codec env) s' u = last_n n (sqlite_log (se_codec env) s u)))
    \<and> sqlite_kept (se_codec env) s' = (if retain then (sqlite_kept (se_codec env) s)(t := if payload = [] then None else Some e)
                                        else sqlite_kept (se_codec env) s)
    \<and> sqlite_offs s' = sqlite_offs s"
proof -
  let ?c = "se_codec env"
  from assms(3) e obtain bytes where enc: "cbor_encode ?c e = Some bytes" and wf: "wf_topic t"
    by (auto simp: storable_def)
  from assms(1) have nf: "\<And>q. \<not> se_fails env q" and rt': "codec_round_trip ?c" by (simp_all add: healthy_def)
  obtain s1 where s1: "append_tx env t payload retain bytes (env_id e) s = (Inr (), s1)" "sqlite_ok ?c s1"
    "sqlite_log ?c s1 t = sqlite_log ?c s t @ [e]" "\<And>u. u \<noteq> t \<Longrightarrow> sqlite_log ?c s1 u = sqlite_log ?c s u"
    "sqlite_kept ?c s1 = (if retain then (sqlite_kept ?c s)(t := if payload = [] then None else Some e) else sqlite_kept ?c s)"
    "sqlite_offs s1 = sqlite_offs s"
    using append_tx_ok [OF assms(2) nf refl rt' e wf enc] by metis
  show ?thesis
  proof (cases "sq_appends_since_prune s1 + 1 \<ge> PRUNE_EVERY")
    case True
    obtain s2 where s2: "prune env (s1\<lparr>sq_appends_since_prune := 0\<rparr>) = (Inr (), s2)" "sqlite_ok ?c s2"
      "\<And>t. sqlite_log ?c s2 t = last_n DEFAULT_PERSISTED_MESSAGES_PER_TOPIC (sqlite_log ?c s1 t)"
      "sqlite_kept ?c s2 = sqlite_kept ?c s1" "sqlite_offs s2 = sqlite_offs s1"
      using prune_ok [OF nf, of ?c "s1\<lparr>sq_appends_since_prune := 0\<rparr>"] s1(2)
      by (auto simp: sqlite_ok_counter sqlite_views_counter)
    have "sqlite_append env e s = (Inr (), s2)" using True s1(1) s2(1) enc e by (simp add: sqlite_append_def to_bytes_def)
    with s1 s2 show ?thesis by auto
  next
    case False
    let ?s2 = "s1\<lparr>sq_appends_since_prune := sq_appends_since_prune s1 + 1\<rparr>"
    have run: "sqlite_append env e s = (Inr (), ?s2)" using False s1(1) enc e by (simp add: sqlite_append_def to_bytes_def)
    have views: "sqlite_log ?c ?s2 = sqlite_log ?c s1" "sqlite_kept ?c ?s2 = sqlite_kept ?c s1" "sqlite_offs ?s2 = sqlite_offs s1"
      "sqlite_ok ?c ?s2"
      using s1(2) by (simp_all add: sqlite_views_counter sqlite_ok_counter)
    define n where "n = max DEFAULT_PERSISTED_MESSAGES_PER_TOPIC (Max ((\<lambda>u. length (sqlite_log ?c s1 u)) ` insert t (Topic ` mr_topic ` set (sq_messages s1))))"
    have "length (sqlite_log ?c s1 u) \<le> n" for u
    proof (cases "u \<in> insert t (Topic ` mr_topic ` set (sq_messages s1))")
      case True
      then have "length (sqlite_log ?c s1 u) \<le> Max ((\<lambda>u. length (sqlite_log ?c s1 u)) ` insert t (Topic ` mr_topic ` set (sq_messages s1)))"
        by (intro Max_ge) auto
      then show ?thesis by (simp add: n_def)
    next
      case False
      then have "sqlite_log ?c s1 u = []" by (cases u) (auto simp: sqlite_log_def filter_empty_conv)
      then show ?thesis by simp
    qed
    then have all: "last_n n (sqlite_log ?c s1 u) = sqlite_log ?c s1 u" for u by (simp add: last_n_short)
    have "n \<ge> DEFAULT_PERSISTED_MESSAGES_PER_TOPIC" by (simp add: n_def)
    with run views s1 all show ?thesis by (metis (no_types, lifting))
  qed
qed

interpretation sqlite: durable_store "sqlite_message_store env"
  "\<lambda>s. healthy env \<and> sqlite_ok (se_codec env) s" "storable (se_codec env)"
  "sqlite_log (se_codec env)" "sqlite_kept (se_codec env)" sqlite_offs DEFAULT_PERSISTED_MESSAGES_PER_TOPIC for env
proof (unfold_locales, goal_cases)
  case (1 s e t payload retain ct rt irt)
  with sqlite_append_ok [of env s e t payload retain ct rt irt] show ?case
    by (auto simp: sqlite_message_store_def)
next
  case (2 s t after)
  then show ?case using messages_since_ok [of "se_codec env" s env t after]
    by (simp add: sqlite_message_store_def healthy_def)
next
  case (3 s n)
  then show ?case using load_recent_ok [of "se_codec env" s env n]
    by (simp add: sqlite_message_store_def healthy_def)
next
  case (4 s)
  then show ?case using load_retained_ok [of "se_codec env" s env]
    by (simp add: sqlite_message_store_def healthy_def)
next
  case (5 s i p t)
  let ?s = "s\<lparr>sq_offsets := AList.update (peer_id_as_bytes p, topic_str t) (message_id_as_bytes i, se_now_ms env) (sq_offsets s)\<rparr>"
  have "sqlite_log (se_codec env) ?s = sqlite_log (se_codec env) s" "sqlite_kept (se_codec env) ?s = sqlite_kept (se_codec env) s"
    by (simp_all add: sqlite_log_def sqlite_kept_def fun_eq_iff)
  moreover have "st_record_offset (sqlite_message_store env) p t i s = (Returns (Inr ()), ?s)"
    using 5 by (simp add: sqlite_message_store_def sqlite_record_offset_def healthy_def)
  ultimately show ?case using 5 sqlite_ok_record [of "se_codec env" s i] sqlite_offs_record [where s = s and p = p and t = t and i = i] by metis
next
  case (6 s p t)
  then show ?case
    using sqlite_ok_offset [of "se_codec env" s "(peer_id_as_bytes p, topic_str t)"]
    by (cases "map_of (sq_offsets s) (peer_id_as_bytes p, topic_str t)")
      (auto simp: sqlite_message_store_def sqlite_load_offset_def healthy_def sqlite_offs_def simp del: map_of_eq_Some_iff)
qed

section \<open>Properties\<close>

definition sqlite_empty :: sqlite_store where
  "sqlite_empty = \<lparr>sq_messages = [], sq_last_seq = 0, sq_retained = [], sq_offsets = [], sq_appends_since_prune = 0\<rparr>"

lemma sqlite_empty_ok: "sqlite_ok c sqlite_empty" "sqlite_log c sqlite_empty t = []"
  by (simp_all add: sqlite_ok_def sqlite_empty_def sqlite_log_def)

text \<open>C18. What was published survives a restart: after any sequence of successful appends to an empty
  database, with the pruning they trigger, reading back at most 100000 messages per topic returns for each
  topic exactly its most recent messages, oldest first, and each topic once. (Assumes that the decoder undoes
  the encoder and that no SQL statement fails.)\<close>

theorem persisted_messages_read_back:
  assumes "healthy env" and "\<And>e. e \<in> set es \<Longrightarrow> storable (se_codec env) e"
    and "0 < n" and "n \<le> DEFAULT_PERSISTED_MESSAGES_PER_TOPIC"
  shows "\<exists>out. sqlite_load_recent env n (fold (\<lambda>e s. snd (sqlite_append env e s)) es sqlite_empty) = Inr out
    \<and> distinct (map fst out)
    \<and> map_of out t = (let own = filter (\<lambda>e. publish_topic e = Some t) es
                       in if own = [] then None else Some (last_n n own))"
proof -
  have one: "snd (st_append (sqlite_message_store env) e s) = snd (sqlite_append env e s)" for e s
    by (simp add: sqlite_message_store_def split: prod.splits)
  have run: "append_run (sqlite_message_store env) es s = fold (\<lambda>e s. snd (sqlite_append env e s)) es s" for s
    by (induction es arbitrary: s) (simp_all add: one)
  have load: "st_load_recent (sqlite_message_store env) = sqlite_load_recent env" by (simp add: sqlite_message_store_def)
  have "is_publish e" if "e \<in> set es" for e
    using assms(2) [OF that] by (auto simp: storable_def is_publish_def split: message_kind.splits)
  with sqlite.recent_after_run [of env sqlite_empty es t n] assms show ?thesis
    by (simp add: sqlite_empty_ok run load Let_def)
qed

definition example_publish :: "u8 \<Rightarrow> envelope" where
  "example_publish n = \<lparr>env_version = 1, env_id = MessageId (replicate 15 0 @ [n]), env_sender = PeerId [],
     env_kind = Publish (Topic [97]) [n] False None None None\<rparr>"

definition example_env :: sqlite_env where
  "example_env = \<lparr>se_codec = pair_codec (example_publish 1) (example_publish 2), se_now_ms = 0, se_fails = (\<lambda>_. False)\<rparr>"

lemma example_env_healthy: "healthy example_env"
  by (simp add: healthy_def example_env_def pair_codec_round_trip)

lemma example_storable: "storable (se_codec example_env) (example_publish 1)" "storable (se_codec example_env) (example_publish 2)"
  by (simp_all add: storable_def example_env_def pair_codec_def example_publish_def wf_topic_def topic_validate_def
      str_len_def utf8_width_def MAX_TOPIC_LEN_def is_valid_topic_char_def is_ascii_alphanumeric_def is_ascii_lower_def)

theorem persisted_messages_read_back_witness:
  "\<exists>out. sqlite_load_recent example_env 1
       (fold (\<lambda>e s. snd (sqlite_append example_env e s)) [example_publish 1, example_publish 2] sqlite_empty) = Inr out
     \<and> map_of out (Topic [97]) = Some [example_publish 2]"
proof -
  let ?es = "[example_publish 1, example_publish 2]"
  have st: "e \<in> set ?es \<Longrightarrow> storable (se_codec example_env) e" for e
    using example_storable by auto
  have topic: "publish_topic (example_publish k) = Some (Topic [97])" for k
    by (simp add: publish_topic_def example_publish_def)
  have "\<exists>out. sqlite_load_recent example_env 1 (fold (\<lambda>e s. snd (sqlite_append example_env e s)) ?es sqlite_empty) = Inr out
    \<and> distinct (map fst out)
    \<and> map_of out (Topic [97]) = (let own = filter (\<lambda>e. publish_topic e = Some (Topic [97])) ?es
                       in if own = [] then None else Some (last_n 1 own))"
    by (rule persisted_messages_read_back [OF example_env_healthy st])
      (simp_all add: DEFAULT_PERSISTED_MESSAGES_PER_TOPIC_def)
  then show ?thesis by (auto simp: topic Let_def last_n_def)
qed



end
