(* ===== verification/Broker.thy ===== *)
theory Broker
  imports Topic_Map Seen_Ids Consumer_Groups Store
begin

text \<open>
  The broker (\<open>Broker\<close> in crates/thoth-mesh-broker/src/lib.rs): publishing, subscribing, durable
  subscriptions, rehydration from the store and the topic listing. Every operation is a function on the
  broker's state and on the outside world. Operations that take several locks one after the other are
  composed from one definition per critical section, so that other operations can be interleaved
  between them. The store is the state \<open>'s\<close> with the operations of a \<open>message_store\<close>.
\<close>

section \<open>State\<close>

record 's broker =
  br_topics :: "topic topic_map"
  br_patterns :: "topic_filter topic_map"
  br_channels :: heap
  br_seen :: seen_ids
  br_messages_published :: u64
  br_topic_evictions :: u64
  br_pattern_evictions :: u64
  br_groups :: groups
  br_store :: "'s option"
  br_persist_failures :: u64

definition broker_default :: "'s broker" where
  "broker_default = \<lparr>br_topics = topic_map_empty, br_patterns = topic_map_empty, br_channels = [],
     br_seen = seen_new DEFAULT_DEDUP_CAPACITY, br_messages_published = 0, br_topic_evictions = 0,
     br_pattern_evictions = 0, br_groups = [], br_store = None, br_persist_failures = 0\<rparr>"

definition broker_new :: "'s broker" where
  "broker_new = broker_default"

definition with_store :: "'s \<Rightarrow> 's broker" where
  "with_store s = broker_default\<lparr>br_store := Some s\<rparr>"

section \<open>The channel of a topic and of a pattern\<close>

definition topic_channel_of :: "('w, 'z) runtime_scheme \<Rightarrow> topic \<Rightarrow> 's broker \<Rightarrow> 'w \<Rightarrow> nat \<times> 's broker \<times> 'w" where
  "topic_channel_of rt t b w =
     (let (a, tm, h, ev, w') = get_or_insert rt t (br_topics b) (br_channels b) (br_topic_evictions b) w
      in (a, b\<lparr>br_topics := tm, br_channels := h, br_topic_evictions := ev\<rparr>, w'))"

definition pattern_channel_of ::
  "('w, 'z) runtime_scheme \<Rightarrow> topic_filter \<Rightarrow> 's broker \<Rightarrow> 'w \<Rightarrow> nat \<times> 's broker \<times> 'w" where
  "pattern_channel_of rt f b w =
     (let (a, tm, h, ev, w') = get_or_insert rt f (br_patterns b) (br_channels b) (br_pattern_evictions b) w
      in (a, b\<lparr>br_patterns := tm, br_channels := h, br_pattern_evictions := ev\<rparr>, w'))"

section \<open>Rehydration\<close>

definition rehydrate_buffer ::
  "('w, 'z) runtime_scheme \<Rightarrow> topic \<Rightarrow> envelope list \<Rightarrow> 's broker \<Rightarrow> 'w \<Rightarrow> 's broker \<times> 'w" where
  "rehydrate_buffer rt t es b w =
     (if es = [] then (b, w)
      else
        (let (a, b', w') = topic_channel_of rt t b w;
             ch = br_channels b' ! a;
             buf = tc_buffer ch @ es
         in (b'\<lparr>br_channels := (br_channels b')[a := ch\<lparr>tc_buffer := last_n DEFAULT_REPLAY_BUFFER_CAPACITY buf\<rparr>]\<rparr>, w')))"

definition rehydrate_retained ::
  "('w, 'z) runtime_scheme \<Rightarrow> topic \<Rightarrow> envelope \<Rightarrow> 's broker \<Rightarrow> 'w \<Rightarrow> 's broker \<times> 'w" where
  "rehydrate_retained rt t e b w =
     (let (a, b', w') = topic_channel_of rt t b w
      in (b'\<lparr>br_channels := (br_channels b')[a := (br_channels b' ! a)\<lparr>tc_retained := Some e\<rparr>]\<rparr>, w'))"

section \<open>Subscribing\<close>

definition subscribe_exact ::
  "('w, 'z) runtime_scheme \<Rightarrow> topic \<Rightarrow> 's broker \<Rightarrow> 'w \<Rightarrow> (envelope list \<times> receiver) \<times> 's broker \<times> 'w" where
  "subscribe_exact rt t b w =
     (let (a, b', w') = topic_channel_of rt t b w;
          (backlog, r, w'') = channel_subscribe rt (br_channels b' ! a) w'
      in ((backlog, r), b', w''))"

text \<open>A wildcard subscription: first the pattern's own channel, then the retained messages of the topics.\<close>

definition subscribe_pattern ::
  "('w, 'z) runtime_scheme \<Rightarrow> topic_filter \<Rightarrow> 's broker \<Rightarrow> 'w \<Rightarrow> (envelope list \<times> receiver) \<times> 's broker \<times> 'w" where
  "subscribe_pattern rt f b w =
     (let (a, b', w') = pattern_channel_of rt f b w;
          (backlog, r, w'') = channel_subscribe rt (br_channels b' ! a) w'
      in ((backlog, r), b', w''))"

fun gather_loop :: "topic_filter \<Rightarrow> heap \<Rightarrow> (topic, nat) hmap \<Rightarrow> envelope list \<Rightarrow> envelope list" where
  "gather_loop f h [] backlog = backlog"
| "gather_loop f h ((t, a) # ts) backlog =
     (if filter_matches f t
      then (case retained_snapshot (h ! a) of
              Some r \<Rightarrow> gather_loop f h ts
                (if list_ex (\<lambda>e. env_id e = env_id r) backlog then backlog else backlog @ [r])
            | None \<Rightarrow> gather_loop f h ts backlog)
      else gather_loop f h ts backlog)"

definition gather_retained :: "topic_filter \<Rightarrow> envelope list \<Rightarrow> 's broker \<Rightarrow> envelope list" where
  "gather_retained f backlog b =
     sort_key env_id (gather_loop f (br_channels b) (tm_map (br_topics b)) backlog)"

definition broker_subscribe ::
  "('w, 'z) runtime_scheme \<Rightarrow> topic_filter \<Rightarrow> 's broker \<Rightarrow> 'w \<Rightarrow> (envelope list \<times> receiver) \<times> 's broker \<times> 'w" where
  "broker_subscribe rt f b w =
     (case as_topic f of
        Some t \<Rightarrow> subscribe_exact rt t b w
      | None \<Rightarrow>
          (let ((backlog, r), b', w') = subscribe_pattern rt f b w
           in ((gather_retained f backlog b', r), b', w')))"

definition has_store :: "'s broker \<Rightarrow> bool" where
  "has_store b \<longleftrightarrow> br_store b \<noteq> None"

section \<open>Durable subscriptions\<close>

datatype durable_subscribe_error = NoStore | WildcardFilter | DurableIo io_error

definition join_error :: io_error where
  "join_error = OtherIo (str ''join'')"

text \<open>The blocking task: the last position and the messages persisted since then.\<close>

definition durable_catchup ::
  "'s message_store \<Rightarrow> peer_id \<Rightarrow> topic \<Rightarrow> 's \<Rightarrow> (message_id option \<times> envelope list) io_result outcome" where
  "durable_catchup ops p t s =
     (case st_load_offset ops p t s of
        Panics \<Rightarrow> Panics
      | Returns (Inl err) \<Rightarrow> Returns (Inl err)
      | Returns (Inr None) \<Rightarrow> Returns (Inr (None, []))
      | Returns (Inr (Some last_id)) \<Rightarrow>
          (case st_messages_since ops t last_id s of
             Panics \<Rightarrow> Panics
           | Returns (Inl err) \<Rightarrow> Returns (Inl err)
           | Returns (Inr es) \<Rightarrow> Returns (Inr (Some last_id, es))))"

fun merge_buffered :: "message_id option \<Rightarrow> envelope list \<Rightarrow> envelope list \<Rightarrow> envelope list" where
  "merge_buffered last_id [] backlog = backlog"
| "merge_buffered last_id (e # es) backlog =
     (if (case last_id of Some l \<Rightarrow> env_id e \<le> l | None \<Rightarrow> False) then merge_buffered last_id es backlog
      else merge_buffered last_id es
             (if list_ex (\<lambda>x. env_id x = env_id e) backlog then backlog else backlog @ [e]))"

definition subscribe_durable ::
  "('w, 'z) runtime_scheme \<Rightarrow> 's message_store \<Rightarrow> topic_filter \<Rightarrow> peer_id \<Rightarrow> 's broker \<Rightarrow> 'w
     \<Rightarrow> (durable_subscribe_error + envelope list \<times> receiver) \<times> 's broker \<times> 'w" where
  "subscribe_durable rt ops f p b w =
     (case as_topic f of
        None \<Rightarrow> (Inl WildcardFilter, b, w)
      | Some t \<Rightarrow>
          (case br_store b of
             None \<Rightarrow> (Inl NoStore, b, w)
           | Some s \<Rightarrow>
               (case durable_catchup ops p t s of
                  Panics \<Rightarrow> (Inl (DurableIo join_error), b, w)
                | Returns (Inl err) \<Rightarrow> (Inl (DurableIo err), b, w)
                | Returns (Inr (last_id, catchup)) \<Rightarrow>
                    (let ((buffered, r), b', w') = broker_subscribe rt f b w
                     in (Inr (sort_key env_id (merge_buffered last_id buffered catchup), r), b', w')))))"

definition record_delivered ::
  "'s message_store \<Rightarrow> peer_id \<Rightarrow> topic \<Rightarrow> message_id \<Rightarrow> 's broker \<Rightarrow> 's broker" where
  "record_delivered ops p t i b =
     (case br_store b of
        None \<Rightarrow> b
      | Some s \<Rightarrow> b\<lparr>br_store := Some (snd (st_record_offset ops p t i s))\<rparr>)"

section \<open>Publishing\<close>

definition publish_seen :: "envelope \<Rightarrow> 's broker \<Rightarrow> bool \<times> 's broker" where
  "publish_seen e b =
     (case seen_record (env_id e) (br_seen b) of
        (False, seen) \<Rightarrow> (False, b\<lparr>br_seen := seen\<rparr>)
      | (True, seen) \<Rightarrow> (True, b\<lparr>br_seen := seen, br_messages_published := br_messages_published b + 1\<rparr>))"

definition publish_persist :: "'s message_store \<Rightarrow> envelope \<Rightarrow> 's broker \<Rightarrow> 's broker" where
  "publish_persist ops e b =
     (case br_store b of
        None \<Rightarrow> b
      | Some s \<Rightarrow>
          (let (r, s') = st_append ops e s; recorded = (r = Returns (Inr ()))
           in b\<lparr>br_store := Some s',
                br_persist_failures := (if recorded then br_persist_failures b else br_persist_failures b + 1)\<rparr>))"

definition publish_retain :: "envelope \<Rightarrow> bool" where
  "publish_retain e = (case env_kind e of Publish _ _ retain _ _ _ \<Rightarrow> retain | _ \<Rightarrow> False)"

definition publish_exact ::
  "('w, 'z) runtime_scheme \<Rightarrow> topic \<Rightarrow> envelope \<Rightarrow> 's broker \<Rightarrow> 'w \<Rightarrow> nat \<times> 's broker \<times> 'w" where
  "publish_exact rt t e b w =
     (let (a, b', w') = topic_channel_of rt t b w;
          (n, ch, w'') = channel_publish rt e (publish_retain e) (br_channels b' ! a) w'
      in (n, b'\<lparr>br_channels := (br_channels b')[a := ch]\<rparr>, w''))"

fun patterns_publish ::
  "('w, 'z) runtime_scheme \<Rightarrow> topic \<Rightarrow> envelope \<Rightarrow> (topic_filter, nat) hmap \<Rightarrow> heap \<Rightarrow> 'w \<Rightarrow> nat \<times> heap \<times> 'w" where
  "patterns_publish rt t e [] h w = (0, h, w)"
| "patterns_publish rt t e ((f, a) # ps) h w =
     (if filter_matches f t
      then (let (n, ch, w') = channel_publish rt e False (h ! a) w;
                (m, h', w'') = patterns_publish rt t e ps (h[a := ch]) w'
            in (n + m, h', w''))
      else patterns_publish rt t e ps h w)"

definition publish_patterns ::
  "('w, 'z) runtime_scheme \<Rightarrow> topic \<Rightarrow> envelope \<Rightarrow> 's broker \<Rightarrow> 'w \<Rightarrow> nat \<times> 's broker \<times> 'w" where
  "publish_patterns rt t e b w =
     (let (n, h, w') = patterns_publish rt t e (tm_map (br_patterns b)) (br_channels b) w
      in (n, b\<lparr>br_channels := h\<rparr>, w'))"

definition publish_groups ::
  "('w, 'z) runtime_scheme \<Rightarrow> topic \<Rightarrow> envelope \<Rightarrow> 's broker \<Rightarrow> 'w \<Rightarrow> nat \<times> 's broker \<times> 'w" where
  "publish_groups rt t e b w =
     (let (n, gs, w') = groups_publish rt t e (br_groups b) w in (n, b\<lparr>br_groups := gs\<rparr>, w'))"

definition broker_publish ::
  "('w, 'z) runtime_scheme \<Rightarrow> 's message_store \<Rightarrow> topic \<Rightarrow> envelope \<Rightarrow> 's broker \<Rightarrow> 'w \<Rightarrow> nat \<times> 's broker \<times> 'w" where
  "broker_publish rt ops t e b w =
     (let (is_new, b0) = publish_seen e b in
      if \<not> is_new then (0, b0, w)
      else
        (let b1 = publish_persist ops e b0;
             (n1, b2, w2) = publish_exact rt t e b1 w;
             (n2, b3, w3) = publish_patterns rt t e b2 w2;
             (n3, b4, w4) = publish_groups rt t e b3 w3
         in (n1 + n2 + n3, b4, w4)))"

section \<open>Groups of the broker\<close>

definition broker_join_group :: "topic_filter \<Rightarrow> rstr \<Rightarrow> sender \<Rightarrow> bool \<Rightarrow> 's broker \<Rightarrow> 's broker" where
  "broker_join_group f name s ack b = b\<lparr>br_groups := join_group f name s ack (br_groups b)\<rparr>"

definition broker_leave_group :: "topic_filter \<Rightarrow> rstr \<Rightarrow> sender \<Rightarrow> 's broker \<Rightarrow> 's broker" where
  "broker_leave_group f name s b = b\<lparr>br_groups := leave_group f name s (br_groups b)\<rparr>"

definition broker_ack_group_delivery :: "topic_filter \<Rightarrow> rstr \<Rightarrow> message_id \<Rightarrow> 's broker \<Rightarrow> 's broker" where
  "broker_ack_group_delivery f name i b = b\<lparr>br_groups := ack_group_delivery f name i (br_groups b)\<rparr>"

definition broker_sweep_group_leases ::
  "('w, 'z) runtime_scheme \<Rightarrow> nat \<Rightarrow> nat \<Rightarrow> u32 \<Rightarrow> 's broker \<Rightarrow> 'w \<Rightarrow> (envelope list \<times> 's broker \<times> 'w) outcome" where
  "broker_sweep_group_leases rt now timeout max_attempts b w =
     (case sweep_group_leases rt now timeout max_attempts (br_groups b) w of
        Panics \<Rightarrow> Panics
      | Returns (es, gs, w') \<Rightarrow> Returns (es, b\<lparr>br_groups := gs\<rparr>, w'))"

section \<open>The topic listing\<close>

record topic_info =
  ti_topic :: topic
  ti_subscribers :: u64
  ti_messages_buffered :: u64

fun group_subscribers ::
  "('w, 'z) runtime_scheme \<Rightarrow> groups \<Rightarrow> 'w \<Rightarrow> (topic, u64) hmap \<Rightarrow> (topic, u64) hmap" where
  "group_subscribers rt [] w acc = acc"
| "group_subscribers rt ((k, g) # gs) w acc =
     (case as_topic (fst k) of
        None \<Rightarrow> group_subscribers rt gs w acc
      | Some t \<Rightarrow>
          (let live = of_nat (length (filter (\<lambda>m. \<not> rt_mpsc_is_closed rt m w) (gm_members g))) :: u64
           in group_subscribers rt gs w
                (if live > 0
                 then AList.update t ((case map_of acc t of None \<Rightarrow> 0 | Some n \<Rightarrow> n) + live) acc
                 else acc)))"

definition broker_topics :: "('w, 'z) runtime_scheme \<Rightarrow> 's broker \<Rightarrow> 'w \<Rightarrow> topic_info list" where
  "broker_topics rt b w =
     (let subs = group_subscribers rt (br_groups b) w [];
          listed = tm_map (br_topics b)
      in map (\<lambda>(t, a). \<lparr>ti_topic = t,
                ti_subscribers = of_nat (rt_bcast_receiver_count rt (tc_sender (br_channels b ! a)) w)
                  + (case map_of subs t of None \<Rightarrow> 0 | Some n \<Rightarrow> n),
                ti_messages_buffered = of_nat (length (tc_buffer (br_channels b ! a)))\<rparr>) listed
         @ map (\<lambda>(t, n). \<lparr>ti_topic = t, ti_subscribers = n, ti_messages_buffered = 0\<rparr>)
             (filter (\<lambda>(t, _). t \<notin> fst ` set listed) subs))"

section \<open>The invariant\<close>

abbreviation addrs :: "'k topic_map \<Rightarrow> nat set" where
  "addrs tm \<equiv> ran (map_of (tm_map tm))"

definition own_channels :: "'k topic_map \<Rightarrow> bool" where
  "own_channels tm \<longleftrightarrow> (\<forall>j k a. map_of (tm_map tm) j = Some a \<and> map_of (tm_map tm) k = Some a \<longrightarrow> j = k)"

definition heap_ok :: "nat set \<Rightarrow> heap \<Rightarrow> bool" where
  "heap_ok P h \<longleftrightarrow> (\<forall>ch \<in> set h. length (tc_buffer ch) \<le> DEFAULT_REPLAY_BUFFER_CAPACITY)
     \<and> (\<forall>a \<in> P. a < length h \<longrightarrow> tc_retained (h ! a) = None)"

definition broker_ok :: "'s broker \<Rightarrow> bool" where
  "broker_ok b \<longleftrightarrow> tm_ok (br_channels b) (br_topics b) \<and> tm_ok (br_channels b) (br_patterns b)
     \<and> own_channels (br_topics b) \<and> own_channels (br_patterns b) \<and> addrs (br_topics b) \<inter> addrs (br_patterns b) = {}
     \<and> heap_ok (addrs (br_patterns b)) (br_channels b)
     \<and> seen_ok (br_seen b) \<and> groups_ok (br_groups b)"

lemma tm_ok_addrs: "tm_ok h tm \<Longrightarrow> a \<in> addrs tm \<Longrightarrow> a < length h"
  by (auto simp: tm_ok_def ran_def)

lemma tm_ok_mono: "tm_ok h tm \<Longrightarrow> length h \<le> length h' \<Longrightarrow> tm_ok h' tm"
  unfolding tm_ok_def by (metis order.strict_trans2)

lemma get_or_insert_entries:
  assumes "tm_ok h tm" and "get_or_insert rt k tm h ev w = (a, tm', h', ev', w')"
    and "map_of (tm_map tm') j = Some x"
  shows "j = k \<and> x = a \<or> j \<noteq> k \<and> map_of (tm_map tm) j = Some x"
  using assms(2)
proof (cases rule: get_or_insert_cases)
  case old
  then have "tm_map tm' = tm_map tm" by (simp add: tm_touch_def split: option.splits)
  with old assms(3) show ?thesis by auto
next
  case (new ch)
  from new(5) have "map_of (tm_map tm') j = Some x \<Longrightarrow> map_of (AList.update k a (tm_map tm)) j = Some x"
    by (cases rule: evict_cases) (auto split: if_splits)
  with assms(3) show ?thesis by (auto split: if_splits)
qed

lemma get_or_insert_fresh:
  assumes "tm_ok h tm" and "get_or_insert rt k tm h ev w = (a, tm', h', ev', w')"
  shows "(h' = h \<and> map_of (tm_map tm) k = Some a)
    \<or> (\<exists>ch. h' = h @ [ch] \<and> a = length h \<and> tc_buffer ch = [] \<and> tc_retained ch = None)"
  using assms(2)
proof (cases rule: get_or_insert_cases)
  case (new ch)
  then have "tc_buffer ch = [] \<and> tc_retained ch = None" by (auto simp: channel_new_def split: prod.splits)
  with new show ?thesis by auto
qed auto

lemma get_or_insert_addr:
  assumes "tm_ok h tm" and "get_or_insert rt k tm h ev w = (a, tm', h', ev', w')"
  shows "a \<in> addrs tm \<or> a \<ge> length h" and "addrs tm' \<subseteq> insert a (addrs tm)"
  using get_or_insert_fresh [OF assms] get_or_insert_entries [OF assms] by (auto simp: ran_def)

lemma own_channels_get_or_insert:
  assumes "tm_ok h tm" and "get_or_insert rt k tm h ev w = (a, tm', h', ev', w')" and "own_channels tm"
  shows "own_channels tm'"
  unfolding own_channels_def
proof (intro allI impI, elim conjE)
  fix i j x assume i: "map_of (tm_map tm') i = Some x" and j: "map_of (tm_map tm') j = Some x"
  have inj: "map_of (tm_map tm) u = Some y \<Longrightarrow> map_of (tm_map tm) v = Some y \<Longrightarrow> u = v" for u v y
    using assms(3) unfolding own_channels_def by blast
  have new: "map_of (tm_map tm) u = Some a \<Longrightarrow> u = k" for u
    using get_or_insert_fresh [OF assms(1,2)] tm_ok_addrs [OF assms(1), of a] inj by (fastforce simp: ran_def)
  from get_or_insert_entries [OF assms(1,2) i] get_or_insert_entries [OF assms(1,2) j] inj new show "i = j" by blast
qed

lemma heap_ok_get_or_insert:
  assumes "tm_ok h tm" and "get_or_insert rt k tm h ev w = (a, tm', h', ev', w')" and "heap_ok P h"
  shows "heap_ok P h'"
  using get_or_insert_fresh [OF assms(1,2)] assms(3) by (auto simp: heap_ok_def nth_append less_Suc_eq)

lemma get_or_insert_length:
  "get_or_insert rt k tm h ev w = (a, tm', h', ev', w') \<Longrightarrow> length h \<le> length h'"
  by (drule get_or_insert_heap) auto

lemma topic_channel_of_ok:
  assumes "broker_ok b" and "topic_channel_of rt t b w = (a, b', w')"
  shows "broker_ok b'" "a < length (br_channels b')" "a \<notin> addrs (br_patterns b')"
    "br_patterns b' = br_patterns b" "br_groups b' = br_groups b" "br_seen b' = br_seen b" "br_store b' = br_store b"
proof -
  obtain tm h ev where goi: "get_or_insert rt t (br_topics b) (br_channels b) (br_topic_evictions b) w = (a, tm, h, ev, w')"
    and b': "b' = b\<lparr>br_topics := tm, br_channels := h, br_topic_evictions := ev\<rparr>"
    using assms(2) by (auto simp: topic_channel_of_def split: prod.splits)
  have ok: "tm_ok (br_channels b) (br_topics b)" "tm_ok (br_channels b) (br_patterns b)"
    "addrs (br_topics b) \<inter> addrs (br_patterns b) = {}"
    using assms(1) by (simp_all add: broker_ok_def)
  show a: "a \<notin> addrs (br_patterns b')"
    using get_or_insert_addr(1) [OF ok(1) goi] ok(3) tm_ok_addrs [OF ok(2), of a] by (auto simp: b')
  show "a < length (br_channels b')" using tm_ok_get_or_insert(2) [OF ok(1) goi] by (simp add: b')
  show "broker_ok b'"
    using assms(1) a get_or_insert_addr(2) [OF ok(1) goi] tm_ok_get_or_insert(1) [OF ok(1) goi]
      tm_ok_mono [OF ok(2) get_or_insert_length [OF goi]] own_channels_get_or_insert [OF ok(1) goi]
      heap_ok_get_or_insert [OF ok(1) goi]
    by (auto simp: broker_ok_def b')
qed (use assms(2) in \<open>auto simp: topic_channel_of_def split: prod.splits\<close>)

lemma pattern_channel_of_ok:
  assumes "broker_ok b" and "pattern_channel_of rt f b w = (a, b', w')"
  shows "broker_ok b'" "a < length (br_channels b')" "br_topics b' = br_topics b" "br_groups b' = br_groups b"
    "br_store b' = br_store b"
proof -
  obtain tm h ev where goi: "get_or_insert rt f (br_patterns b) (br_channels b) (br_pattern_evictions b) w = (a, tm, h, ev, w')"
    and b': "b' = b\<lparr>br_patterns := tm, br_channels := h, br_pattern_evictions := ev\<rparr>"
    using assms(2) by (auto simp: pattern_channel_of_def split: prod.splits)
  have ok: "tm_ok (br_channels b) (br_patterns b)" "tm_ok (br_channels b) (br_topics b)"
    "addrs (br_topics b) \<inter> addrs (br_patterns b) = {}" "heap_ok (addrs (br_patterns b)) (br_channels b)"
    using assms(1) by (simp_all add: broker_ok_def)
  have a: "a \<notin> addrs (br_topics b)"
    using get_or_insert_addr(1) [OF ok(1) goi] ok(3) tm_ok_addrs [OF ok(2), of a] by auto
  have "a < length h \<longrightarrow> tc_retained (h ! a) = None"
    using get_or_insert_fresh [OF ok(1) goi] ok(4) by (auto simp: heap_ok_def ran_def)
  then have "heap_ok (addrs tm) h"
    using heap_ok_get_or_insert [OF ok(1) goi ok(4)] get_or_insert_addr(2) [OF ok(1) goi]
    by (auto simp: heap_ok_def)
  then show "broker_ok b'"
    using assms(1) a get_or_insert_addr(2) [OF ok(1) goi] tm_ok_get_or_insert(1) [OF ok(1) goi]
      tm_ok_mono [OF ok(2) get_or_insert_length [OF goi]] own_channels_get_or_insert [OF ok(1) goi]
    by (auto simp: broker_ok_def b')
  show "a < length (br_channels b')" using tm_ok_get_or_insert(2) [OF ok(1) goi] by (simp add: b')
qed (use assms(2) in \<open>auto simp: pattern_channel_of_def split: prod.splits\<close>)

lemma heap_ok_update:
  assumes "heap_ok P h" and "length (tc_buffer ch) \<le> DEFAULT_REPLAY_BUFFER_CAPACITY"
    and "a \<in> P \<Longrightarrow> tc_retained ch = None"
  shows "heap_ok P (h[a := ch])"
  unfolding heap_ok_def
proof (intro conjI ballI impI)
  show "length (tc_buffer c) \<le> DEFAULT_REPLAY_BUFFER_CAPACITY" if "c \<in> set (h[a := ch])" for c
    using that set_update_subset_insert [of h a ch] assms by (auto simp: heap_ok_def)
  show "tc_retained (h[a := ch] ! i) = None" if "i \<in> P" "i < length (h[a := ch])" for i
    using that assms by (cases "i = a") (auto simp: heap_ok_def)
qed

lemma broker_ok_channel:
  assumes "broker_ok b" and "length (tc_buffer ch) \<le> DEFAULT_REPLAY_BUFFER_CAPACITY"
    and "a \<in> addrs (br_patterns b) \<Longrightarrow> tc_retained ch = None"
  shows "broker_ok (b\<lparr>br_channels := (br_channels b)[a := ch]\<rparr>)"
proof -
  have "heap_ok (addrs (br_patterns b)) ((br_channels b)[a := ch])"
    using assms by (intro heap_ok_update) (simp_all add: broker_ok_def)
  then show ?thesis using assms(1) by (auto simp: broker_ok_def intro: tm_ok_mono)
qed

lemma channel_publish_state:
  "fst (snd (channel_publish rt e retain ch w)) = channel_store e retain ch"
  by (simp add: channel_publish_def Let_def split: prod.splits)

lemma channel_store_ok:
  "length (tc_buffer ch) \<le> DEFAULT_REPLAY_BUFFER_CAPACITY \<Longrightarrow>
     length (tc_buffer (channel_store e retain ch)) \<le> DEFAULT_REPLAY_BUFFER_CAPACITY"
  by (auto simp: channel_store_def push_buffer_def Let_def)

lemma channel_store_no_retain [simp]: "tc_retained (channel_store e False ch) = tc_retained ch"
  by (simp add: channel_store_def)

lemma broker_ok_buffer:
  "broker_ok b \<Longrightarrow> a < length (br_channels b) \<Longrightarrow> length (tc_buffer (br_channels b ! a)) \<le> DEFAULT_REPLAY_BUFFER_CAPACITY"
  by (simp add: broker_ok_def heap_ok_def)

lemma publish_seen_ok [inv_intros]: "broker_ok b \<Longrightarrow> broker_ok (snd (publish_seen e b))"
  using seen_record_ok [of "br_seen b" "env_id e"]
  by (auto simp: publish_seen_def broker_ok_def split: prod.splits bool.splits)

lemma publish_persist_ok [inv_intros]: "broker_ok b \<Longrightarrow> broker_ok (publish_persist ops e b)"
  by (auto simp: publish_persist_def broker_ok_def Let_def split: option.splits prod.splits)

lemma publish_exact_ok [inv_intros]: "broker_ok b \<Longrightarrow> broker_ok (fst (snd (publish_exact rt t e b w)))"
proof -
  assume ok: "broker_ok b"
  obtain a b' w' where tc: "topic_channel_of rt t b w = (a, b', w')" by (metis prod_cases3)
  obtain n ch w'' where p: "channel_publish rt e (publish_retain e) (br_channels b' ! a) w' = (n, ch, w'')" by (metis prod_cases3)
  note tc_ok = topic_channel_of_ok [OF ok tc]
  have "ch = channel_store e (publish_retain e) (br_channels b' ! a)"
    using channel_publish_state [of rt e "publish_retain e" "br_channels b' ! a" w'] by (simp add: p)
  then have "length (tc_buffer ch) \<le> DEFAULT_REPLAY_BUFFER_CAPACITY"
    using channel_store_ok broker_ok_buffer [OF tc_ok(1,2)] by blast
  then show ?thesis using broker_ok_channel [OF tc_ok(1), of ch a] tc_ok(3) by (simp add: publish_exact_def tc p)
qed

lemma patterns_publish_ok:
  assumes "heap_ok P h" and "\<forall>(f, a) \<in> set ps. a \<in> P \<and> a < length h"
  shows "heap_ok P (fst (snd (patterns_publish rt t e ps h w))) \<and> length (fst (snd (patterns_publish rt t e ps h w))) = length h"
  using assms
proof (induction ps arbitrary: h w)
  case (Cons fa ps)
  obtain f a where fa: "fa = (f, a)" by fastforce
  show ?case
  proof (cases "filter_matches f t")
    case True
    obtain n ch w' where p: "channel_publish rt e False (h ! a) w = (n, ch, w')" by (metis prod_cases3)
    have ch: "ch = channel_store e False (h ! a)"
      using channel_publish_state [of rt e False "h ! a" w] by (simp add: p)
    have a: "a \<in> P" "a < length h" using Cons.prems(2) by (simp_all add: fa)
    have "length (tc_buffer ch) \<le> DEFAULT_REPLAY_BUFFER_CAPACITY" "tc_retained ch = None"
      using Cons.prems(1) a channel_store_ok [of "h ! a" e False] by (auto simp: heap_ok_def ch)
    then have "heap_ok P (h[a := ch])"
      using Cons.prems(1) by (intro heap_ok_update)
    then have "heap_ok P (fst (snd (patterns_publish rt t e ps (h[a := ch]) w')))
      \<and> length (fst (snd (patterns_publish rt t e ps (h[a := ch]) w'))) = length (h[a := ch])"
      using Cons.prems(2) by (intro Cons.IH) auto
    then show ?thesis
      using True by (cases "patterns_publish rt t e ps (h[a := ch]) w'" rule: prod_cases3) (simp add: fa p)
  next
    case False
    with Cons show ?thesis by (simp add: fa)
  qed
qed simp

lemma publish_patterns_ok [inv_intros]: "broker_ok b \<Longrightarrow> broker_ok (fst (snd (publish_patterns rt t e b w)))"
proof -
  assume ok: "broker_ok b"
  obtain n h w' where p: "patterns_publish rt t e (tm_map (br_patterns b)) (br_channels b) w = (n, h, w')" by (metis prod_cases3)
  have dist: "distinct (map fst (tm_map (br_patterns b)))" using ok by (simp add: broker_ok_def tm_ok_def)
  have "\<forall>(f, a) \<in> set (tm_map (br_patterns b)). a \<in> addrs (br_patterns b) \<and> a < length (br_channels b)"
    using ok dist by (force simp: broker_ok_def tm_ok_def ran_def)
  then have "heap_ok (addrs (br_patterns b)) h" "length h = length (br_channels b)"
    using patterns_publish_ok [of "addrs (br_patterns b)" "br_channels b" "tm_map (br_patterns b)" rt t e w] ok
    by (simp_all add: broker_ok_def p)
  then show ?thesis using ok by (auto simp: publish_patterns_def p broker_ok_def intro: tm_ok_mono)
qed

lemma publish_groups_ok [inv_intros]: "broker_ok b \<Longrightarrow> broker_ok (fst (snd (publish_groups rt t e b w)))"
  using groups_publish_ok [of "br_groups b" rt t e w]
  by (cases "groups_publish rt t e (br_groups b) w" rule: prod_cases3) (simp add: publish_groups_def broker_ok_def)

lemma broker_publish_ok [inv_intros]: "broker_ok b \<Longrightarrow> broker_ok (fst (snd (broker_publish rt ops t e b w)))"
proof -
  assume ok: "broker_ok b"
  let ?b1 = "publish_persist ops e (snd (publish_seen e b))"
  obtain n2 b2 w2 where 2: "publish_exact rt t e ?b1 w = (n2, b2, w2)" by (metis prod_cases3)
  obtain n3 b3 w3 where 3: "publish_patterns rt t e b2 w2 = (n3, b3, w3)" by (metis prod_cases3)
  have 0: "broker_ok (snd (publish_seen e b))" using ok by (rule publish_seen_ok)
  have "broker_ok b2" using publish_exact_ok [OF publish_persist_ok [OF 0], of rt t e ops e w] by (simp add: 2)
  then have "broker_ok b3" using publish_patterns_ok [of b2 rt t e w2] by (simp add: 3)
  with 0 publish_groups_ok [of b3 rt t e w3] 2 3 show ?thesis
    by (auto simp: broker_publish_def Let_def split: prod.splits)
qed

lemma subscribe_exact_ok [inv_intros]: "broker_ok b \<Longrightarrow> broker_ok (fst (snd (subscribe_exact rt t b w)))"
  by (auto simp: subscribe_exact_def channel_subscribe_def Let_def split: prod.splits dest: topic_channel_of_ok(1))

lemma subscribe_pattern_ok [inv_intros]: "broker_ok b \<Longrightarrow> broker_ok (fst (snd (subscribe_pattern rt f b w)))"
  by (auto simp: subscribe_pattern_def channel_subscribe_def Let_def split: prod.splits dest: pattern_channel_of_ok(1))

lemma rehydrate_buffer_ok [inv_intros]: "broker_ok b \<Longrightarrow> broker_ok (fst (rehydrate_buffer rt t es b w))"
proof -
  assume ok: "broker_ok b"
  obtain a b' w' where tc: "topic_channel_of rt t b w = (a, b', w')" by (metis prod_cases3)
  note tc_ok = topic_channel_of_ok [OF ok tc]
  show ?thesis
    using ok broker_ok_channel [OF tc_ok(1), of _ a] tc_ok(3)
    by (simp add: rehydrate_buffer_def tc Let_def length_last_n)
qed

lemma rehydrate_retained_ok [inv_intros]: "broker_ok b \<Longrightarrow> broker_ok (fst (rehydrate_retained rt t e b w))"
proof -
  assume ok: "broker_ok b"
  obtain a b' w' where tc: "topic_channel_of rt t b w = (a, b', w')" by (metis prod_cases3)
  note tc_ok = topic_channel_of_ok [OF ok tc]
  show ?thesis
    using broker_ok_channel [OF tc_ok(1), of _ a] tc_ok(3) broker_ok_buffer [OF tc_ok(1,2)]
    by (simp add: rehydrate_retained_def tc)
qed

lemma broker_default_ok [inv_intros]: "broker_ok broker_default" "broker_ok (with_store s)"
  by (simp_all add: broker_ok_def broker_default_def with_store_def own_channels_def heap_ok_def tm_ok_empty
      seen_new_def seen_ok_def groups_ok_empty topic_map_empty_def tm_ok_def)

end
