(* ===== verification/Membership.thy ===== *)
theory Membership
  imports Messages
begin

text \<open>
  The membership table (crates/thoth-mesh/src/membership.rs): which peers are connected, with a
  FIFO of the disconnected ones that caps how many of those are remembered. Both fields live under
  one lock, so every method is one atomic step on the record. The table refines the abstract set of
  connected peers: evicting entries never touches a connected peer.
\<close>

section \<open>State and operations\<close>

definition DEFAULT_MEMBERSHIP_DISCONNECTED_CAPACITY :: nat where
  "DEFAULT_MEMBERSHIP_DISCONNECTED_CAPACITY = 4096"

record peer_status =
  st_connected :: bool
  st_listen_addr :: "rstr option"

record membership =
  mb_peers :: "(peer_id, peer_status) hmap"
  mb_disconnected_order :: "peer_id list"
  mb_disconnected_evictions :: u64

definition membership_new :: membership where
  "membership_new = \<lparr>mb_peers = [], mb_disconnected_order = [], mb_disconnected_evictions = 0\<rparr>"

definition mark_connected :: "peer_id \<Rightarrow> rstr option \<Rightarrow> membership \<Rightarrow> membership" where
  "mark_connected p addr m =
     m\<lparr>mb_peers := AList.update p \<lparr>st_connected = True, st_listen_addr = addr\<rparr> (mb_peers m),
       mb_disconnected_order := retain_ne p (mb_disconnected_order m)\<rparr>"

definition mark_disconnected :: "peer_id \<Rightarrow> membership \<Rightarrow> membership" where
  "mark_disconnected p m =
     (case map_of (mb_peers m) p of
        None \<Rightarrow> m
      | Some status \<Rightarrow>
          (let m' = m\<lparr>mb_peers := AList.update p (status\<lparr>st_connected := False\<rparr>) (mb_peers m)\<rparr> in
           if st_connected status then
             (case push_capped DEFAULT_MEMBERSHIP_DISCONNECTED_CAPACITY p (mb_disconnected_order m') of
                (q, None) \<Rightarrow> m'\<lparr>mb_disconnected_order := q\<rparr>
              | (q, Some oldest) \<Rightarrow>
                  m'\<lparr>mb_disconnected_order := q, mb_peers := AList.delete oldest (mb_peers m'),
                     mb_disconnected_evictions := mb_disconnected_evictions m' + 1\<rparr>)
           else m'))"

definition is_reachable :: "peer_id \<Rightarrow> membership \<Rightarrow> bool" where
  "is_reachable p m = (case map_of (mb_peers m) p of None \<Rightarrow> False | Some s \<Rightarrow> st_connected s)"

definition membership_snapshot :: "membership \<Rightarrow> (peer_id, peer_status) hmap" where
  "membership_snapshot m = mb_peers m"

definition connected_count :: "membership \<Rightarrow> nat" where
  "connected_count m = length (filter (\<lambda>(_, s). st_connected s) (mb_peers m))"

section \<open>The table as a capped registry\<close>

datatype membership_op = MarkConnected peer_id "rstr option" | MarkDisconnected peer_id

fun membership_step :: "membership_op \<Rightarrow> membership \<Rightarrow> membership" where
  "membership_step (MarkConnected p addr) m = mark_connected p addr m"
| "membership_step (MarkDisconnected p) m = mark_disconnected p m"

definition disconnected :: "membership \<Rightarrow> peer_id set" where
  "disconnected m = {p. \<exists>s. map_of (mb_peers m) p = Some s \<and> \<not> st_connected s}"

definition connected :: "membership \<Rightarrow> peer_id set" where
  "connected m = {p. is_reachable p m}"

lemma connected_alt: "connected m = {p. \<exists>s. map_of (mb_peers m) p = Some s \<and> st_connected s}"
  by (auto simp: connected_def is_reachable_def split: option.splits)

lemma connected_disconnected_disjoint: "connected m \<inter> disconnected m = {}"
  by (auto simp: connected_alt disconnected_def)

lemma mark_connected_sets:
  "connected (mark_connected p a m) = insert p (connected m)"
  "disconnected (mark_connected p a m) = disconnected m - {p}"
  by (auto simp: connected_alt disconnected_def mark_connected_def)

text \<open>The three ways \<open>mark_disconnected\<close> can go.\<close>

lemma mark_disconnected_cases:
  obtains (idle) "p \<notin> connected m" "connected (mark_disconnected p m) = connected m"
      "disconnected (mark_disconnected p m) = disconnected m"
      "mb_disconnected_order (mark_disconnected p m) = mb_disconnected_order m"
  | (queued) "p \<in> connected m" "connected (mark_disconnected p m) = connected m - {p}"
      "disconnected (mark_disconnected p m) = insert p (disconnected m)"
      "mb_disconnected_order (mark_disconnected p m) = mb_disconnected_order m @ [p]"
      "length (mb_disconnected_order m) < DEFAULT_MEMBERSHIP_DISCONNECTED_CAPACITY"
  | (evicted) x q where "p \<in> connected m" "mb_disconnected_order m @ [p] = x # q"
      "connected (mark_disconnected p m) = connected m - {p} - {x}"
      "disconnected (mark_disconnected p m) = insert p (disconnected m) - {x}"
      "mb_disconnected_order (mark_disconnected p m) = q"
      "DEFAULT_MEMBERSHIP_DISCONNECTED_CAPACITY \<le> length (mb_disconnected_order m)"
proof (cases "map_of (mb_peers m) p")
  case None
  then show thesis by (intro idle) (auto simp: connected_alt mark_disconnected_def)
next
  case (Some s)
  show thesis
  proof (cases "st_connected s")
    case False
    with Some show thesis
      by (intro idle) (auto simp: connected_alt disconnected_def mark_disconnected_def)
  next
    case True
    obtain q o' where push: "push_capped DEFAULT_MEMBERSHIP_DISCONNECTED_CAPACITY p
      (mb_disconnected_order m) = (q, o')" by fastforce
    show thesis
    proof (cases o')
      case None
      then have "q = mb_disconnected_order m @ [p] \<and>
        length (mb_disconnected_order m) < DEFAULT_MEMBERSHIP_DISCONNECTED_CAPACITY"
        using push by (simp add: push_capped_conv)
      with push None True Some show thesis
        by (intro queued) (auto simp: connected_alt disconnected_def mark_disconnected_def split: if_splits)
    next
      case (Some x)
      then have "mb_disconnected_order m @ [p] = x # q \<and>
        DEFAULT_MEMBERSHIP_DISCONNECTED_CAPACITY \<le> length (mb_disconnected_order m)"
        using push by (simp add: push_capped_conv)
      with push Some True \<open>map_of (mb_peers m) p = Some s\<close> show thesis
        by (intro evicted [of x q])
          (auto simp: connected_alt disconnected_def mark_disconnected_def split: if_splits)
    qed
  qed
qed

definition members_ok :: "membership \<Rightarrow> bool" where
  "members_ok m \<longleftrightarrow> distinct (mb_disconnected_order m) \<and> disconnected m = set (mb_disconnected_order m)"

lemma mark_disconnected_ok:
  assumes "members_ok m"
  shows "members_ok (mark_disconnected p m) \<and> connected (mark_disconnected p m) = connected m - {p} \<and>
    (length (mb_disconnected_order m) \<le> DEFAULT_MEMBERSHIP_DISCONNECTED_CAPACITY \<longrightarrow>
      length (mb_disconnected_order (mark_disconnected p m)) \<le> DEFAULT_MEMBERSHIP_DISCONNECTED_CAPACITY)"
proof (cases rule: mark_disconnected_cases [of p m])
  case idle
  with assms show ?thesis by (simp add: members_ok_def)
next
  case queued
  moreover from this have "p \<notin> disconnected m" using connected_disconnected_disjoint [of m] by auto
  ultimately show ?thesis using assms by (simp add: members_ok_def)
next
  case (evicted x q)
  have "p \<notin> set (mb_disconnected_order m)"
    using evicted(1) assms connected_disconnected_disjoint [of m] by (auto simp: members_ok_def)
  with assms have "distinct (mb_disconnected_order m @ [p])" by (simp add: members_ok_def)
  then have d: "distinct (x # q)" by (simp only: evicted(2))
  have s: "insert p (set (mb_disconnected_order m)) = insert x (set q)"
    using arg_cong [OF evicted(2), of set] by simp
  then have x: "x \<notin> connected m \<or> x = p"
    using assms connected_disconnected_disjoint [of m] by (auto simp: members_ok_def)
  have "length q = length (mb_disconnected_order m)"
    using arg_cong [OF evicted(2), of length] by simp
  moreover have "disconnected (mark_disconnected p m) = set q"
    using evicted(4) assms s d by (simp add: members_ok_def)
  moreover have "connected (mark_disconnected p m) = connected m - {p}"
    using evicted(3) x by auto
  ultimately show ?thesis using d evicted(5) by (simp add: members_ok_def)
qed

lemma mark_connected_order [simp]:
  "mb_disconnected_order (mark_connected p a m) = retain_ne p (mb_disconnected_order m)"
  by (simp add: mark_connected_def)

lemma mark_connected_ok:
  "members_ok m \<Longrightarrow> members_ok (mark_connected p a m) \<and> connected (mark_connected p a m) = insert p (connected m)"
  by (simp add: members_ok_def mark_connected_sets set_diff_eq)

lemma membership_step_ok:
  "members_ok m \<Longrightarrow> members_ok (membership_step x m)"
  by (cases x) (simp_all add: mark_connected_ok mark_disconnected_ok)

interpretation members: capped_registry membership_new membership_step "\<lambda>_. True" mb_disconnected_order
  disconnected DEFAULT_MEMBERSHIP_DISCONNECTED_CAPACITY
proof unfold_locales
  fix s x
  assume ok: "distinct (mb_disconnected_order s)" "disconnected s = set (mb_disconnected_order s)"
  then show "distinct (mb_disconnected_order (membership_step x s))"
    and "disconnected (membership_step x s) = set (mb_disconnected_order (membership_step x s))"
    using membership_step_ok [of s x] by (simp_all add: members_ok_def)
  show "length (mb_disconnected_order (membership_step x s)) \<le> DEFAULT_MEMBERSHIP_DISCONNECTED_CAPACITY"
    if "length (mb_disconnected_order s) \<le> DEFAULT_MEMBERSHIP_DISCONNECTED_CAPACITY"
    using that ok mark_disconnected_ok [of s]
    by (cases x) (auto simp: members_ok_def intro: le_trans [OF length_filter_le])
qed (auto simp: membership_new_def disconnected_def)

section \<open>Refinement of the connected set\<close>

text \<open>What the table promises: connecting adds a peer, disconnecting removes it, nothing else.\<close>

fun connected_step :: "membership_op \<Rightarrow> peer_id set \<Rightarrow> peer_id set" where
  "connected_step (MarkConnected p _) C = insert p C"
| "connected_step (MarkDisconnected p) C = C - {p}"

lemma connected_refines:
  "members_ok m \<Longrightarrow> connected (membership_step x m) = connected_step x (connected m)"
  by (cases x) (simp_all add: mark_connected_ok mark_disconnected_ok)

lemma connected_refines_run:
  "members_ok m \<Longrightarrow> connected (fold membership_step xs m) = fold connected_step xs (connected m)"
  by (induction xs arbitrary: m) (simp_all add: connected_refines membership_step_ok)

lemma members_ok_new [simp]: "members_ok membership_new"
  by (auto simp: members_ok_def disconnected_def membership_new_def)

section \<open>Properties\<close>

text \<open>C25. Over every sequence of operations the peers the table reports as reachable are exactly those
  whose last operation connected them, so no amount of eviction ever drops a connected peer; the
  number of disconnected entries never exceeds 4096, and the eviction queue lists exactly those
  entries, each once.\<close>

theorem membership_refines_connected_set:
  "{p. is_reachable p (fold membership_step ops membership_new)} = fold connected_step ops {}
   \<and> card (disconnected (fold membership_step ops membership_new)) \<le> DEFAULT_MEMBERSHIP_DISCONNECTED_CAPACITY
   \<and> distinct (mb_disconnected_order (fold membership_step ops membership_new))
   \<and> set (mb_disconnected_order (fold membership_step ops membership_new))
       = disconnected (fold membership_step ops membership_new)"
proof -
  have "connected membership_new = {}"
    by (simp add: connected_alt membership_new_def)
  then have "connected (fold membership_step ops membership_new) = fold connected_step ops {}"
    by (simp add: connected_refines_run)
  then show ?thesis
    using members.reachable_ok [of ops] members.reachable_bounded [of ops] by (simp add: connected_def)
qed

end
