(* ===== verification/Peer_Directory.thy ===== *)
theory Peer_Directory
  imports Messages
begin

text \<open>
  The peer directory (crates/thoth-mesh/src/peer_directory.rs): every peer with a known address, in
  order of last recording, capped at 4096. The queue is exactly the least-recently-recorded order of
  the history, so the directory is an LRU cache of addresses.
\<close>

section \<open>State and operations\<close>

definition DEFAULT_PEER_DIRECTORY_CAPACITY :: nat where
  "DEFAULT_PEER_DIRECTORY_CAPACITY = 4096"

record peer_directory =
  pd_known :: "(peer_id, rstr) hmap"
  pd_order :: "peer_id list"
  pd_evictions :: u64

definition peer_directory_new :: peer_directory where
  "peer_directory_new = \<lparr>pd_known = [], pd_order = [], pd_evictions = 0\<rparr>"

definition directory_record :: "peer_id \<Rightarrow> rstr \<Rightarrow> peer_directory \<Rightarrow> bool \<times> peer_directory" where
  "directory_record p addr d =
     (let is_new = (map_of (pd_known d) p = None);
          known = AList.update p addr (pd_known d);
          order = (if is_new then pd_order d else retain_ne p (pd_order d))
      in (is_new,
          case push_capped DEFAULT_PEER_DIRECTORY_CAPACITY p order of
            (q, None) \<Rightarrow> d\<lparr>pd_known := known, pd_order := q\<rparr>
          | (q, Some oldest) \<Rightarrow>
              d\<lparr>pd_known := AList.delete oldest known, pd_order := q,
                pd_evictions := pd_evictions d + 1\<rparr>))"

definition snapshot_excluding :: "peer_id \<Rightarrow> peer_directory \<Rightarrow> (peer_id \<times> rstr) list" where
  "snapshot_excluding p d = filter (\<lambda>(q, _). q \<noteq> p) (pd_known d)"

section \<open>The directory as a capped registry\<close>

definition directory_step :: "peer_id \<times> rstr \<Rightarrow> peer_directory \<Rightarrow> peer_directory" where
  "directory_step pa d = snd (directory_record (fst pa) (snd pa) d)"

definition directory_ok :: "peer_directory \<Rightarrow> bool" where
  "directory_ok d \<longleftrightarrow> distinct (pd_order d) \<and> keys (pd_known d) = set (pd_order d)"

text \<open>The queue that a recording appends to has no copy of the peer left.\<close>

lemma directory_record_cases [consumes 1, case_names kept evicted]:
  assumes "directory_ok d"
  obtains (kept) "pd_order (directory_step (p, a) d) = retain_ne p (pd_order d) @ [p]"
      "pd_known (directory_step (p, a) d) = AList.update p a (pd_known d)"
      "length (retain_ne p (pd_order d)) < DEFAULT_PEER_DIRECTORY_CAPACITY"
  | (evicted) x q where "retain_ne p (pd_order d) @ [p] = x # q" "pd_order (directory_step (p, a) d) = q"
      "pd_known (directory_step (p, a) d) = AList.delete x (AList.update p a (pd_known d))"
      "DEFAULT_PEER_DIRECTORY_CAPACITY \<le> length (retain_ne p (pd_order d))"
proof -
  let ?order = "retain_ne p (pd_order d)"
  have new: "map_of (pd_known d) p = None \<Longrightarrow> ?order = pd_order d"
    using assms by (simp add: directory_ok_def map_of_None_keys)
  obtain q o' where push: "push_capped DEFAULT_PEER_DIRECTORY_CAPACITY p ?order = (q, o')" by fastforce
  show thesis
  proof (cases o')
    case None
    with push have "q = ?order @ [p] \<and> length ?order < DEFAULT_PEER_DIRECTORY_CAPACITY"
      by (simp add: push_capped_conv)
    with push None new show thesis
      by (intro kept) (auto simp: directory_step_def directory_record_def Let_def)
  next
    case (Some x)
    with push have "?order @ [p] = x # q \<and> DEFAULT_PEER_DIRECTORY_CAPACITY \<le> length ?order"
      by (simp add: push_capped_conv)
    with push Some new show thesis
      by (intro evicted [of x q]) (auto simp: directory_step_def directory_record_def Let_def)
  qed
qed

lemma directory_step_ok:
  assumes "directory_ok d"
  shows "directory_ok (directory_step (p, a) d)"
proof -
  let ?order = "retain_ne p (pd_order d)"
  have d: "distinct (?order @ [p])" and s: "set (?order @ [p]) = insert p (set (pd_order d))"
    using assms by (auto simp: directory_ok_def)
  from assms show ?thesis
  proof (cases rule: directory_record_cases [where p = p and a = a])
    case kept
    with d s assms show ?thesis by (simp only: directory_ok_def keys_update)
  next
    case (evicted x q)
    have "distinct (x # q)" and "insert x (set q) = insert p (set (pd_order d))"
      using d s evicted(1) by (simp_all only: list.set)
    with evicted assms show ?thesis by (auto simp: directory_ok_def)
  qed
qed

lemma directory_step_order:
  assumes "directory_ok d"
  shows "pd_order (directory_step (p, a) d) =
    fst (push_capped DEFAULT_PEER_DIRECTORY_CAPACITY p
      (retain_ne p (pd_order d)))"
using assms proof (cases rule: directory_record_cases [where p = p and a = a])
  case kept
  then show ?thesis by (metis fst_conv push_capped_None)
next
  case (evicted x q)
  then show ?thesis by (metis fst_conv push_capped_Some)
qed

lemma directory_step_length:
  assumes "directory_ok d" and "length (pd_order d) \<le> DEFAULT_PEER_DIRECTORY_CAPACITY"
  shows "length (pd_order (directory_step (p, a) d)) \<le> DEFAULT_PEER_DIRECTORY_CAPACITY"
using assms(1) proof (cases rule: directory_record_cases [where p = p and a = a])
  case (evicted x q)
  have "length q \<le> length (pd_order d)"
    using arg_cong [OF evicted(1), of length] length_filter_le [of "\<lambda>x. x \<noteq> p" "pd_order d"] by simp
  with evicted assms show ?thesis by simp
qed (auto split: if_splits)

interpretation directory: capped_registry peer_directory_new directory_step "\<lambda>_. True" pd_order
  "\<lambda>d. keys (pd_known d)" DEFAULT_PEER_DIRECTORY_CAPACITY
proof unfold_locales
  fix s :: peer_directory and x :: "peer_id \<times> rstr"
  assume "distinct (pd_order s)" "keys (pd_known s) = set (pd_order s)"
  then have ok: "directory_ok s" by (simp add: directory_ok_def)
  obtain p a where x: "x = (p, a)" by fastforce
  show "distinct (pd_order (directory_step x s))"
    and "keys (pd_known (directory_step x s)) = set (pd_order (directory_step x s))"
    using directory_step_ok [OF ok, of p a] by (simp_all add: directory_ok_def x)
  show "length (pd_order (directory_step x s)) \<le> DEFAULT_PEER_DIRECTORY_CAPACITY"
    if "length (pd_order s) \<le> DEFAULT_PEER_DIRECTORY_CAPACITY"
    using directory_step_length [OF ok that] by (simp add: x)
qed (simp_all add: peer_directory_new_def)

lemma directory_run_ok: "directory_ok (fold directory_step ops peer_directory_new)"
  using directory.reachable_ok [of ops] by (simp add: directory_ok_def)

lemma directory_step_lookup:
  assumes "directory_ok d"
  shows "map_of (pd_known (directory_step (p, a) d)) p = Some a"
using assms proof (cases rule: directory_record_cases [where p = p and a = a])
  case (evicted x q)
  have "x \<noteq> p"
  proof
    assume "x = p"
    with evicted(1,4) have "p \<in> set (retain_ne p (pd_order d))"
      by (cases "retain_ne p (pd_order d)")
        (auto simp: DEFAULT_PEER_DIRECTORY_CAPACITY_def)
    then show False by (auto split: if_splits)
  qed
  with evicted show ?thesis by simp
qed simp

section \<open>Properties\<close>


text \<open>Gossip about a peer is passed on once: recording reports the peer as new exactly when the
  directory did not know it, and a snapshot taken for a peer lists every known peer except that one.\<close>

theorem directory_record_new_iff:
  "(fst (directory_record p a d) \<longleftrightarrow> p \<notin> keys (pd_known d))
   \<and> fst ` set (snapshot_excluding q d) = keys (pd_known d) - {q}"
  by (auto simp: directory_record_def Let_def map_of_None_keys snapshot_excluding_def keys_def)

end
