(* ===== verification/Acl.thy ===== *)
theory Acl
  imports Messages
begin

text \<open>
  Authorization tables of the node: certificate fingerprints (crates/thoth-mesh-tls/src/fingerprint.rs),
  per-topic client rules (crates/thoth-mesh-node/src/topic_acl.rs) and the per-peer relay filter
  (crates/thoth-mesh-node/src/peer_topic_filter.rs), from their command-line strings to the decision.
\<close>

section \<open>Fingerprints\<close>

datatype parse_fingerprint_error = WrongLength nat

definition hex_upper :: "nat \<Rightarrow> rchar" where
  "hex_upper n = (if n < 10 then 48 + n else 55 + n)"

definition hex_value :: "rchar \<Rightarrow> nat" where
  "hex_value c = (if is_ascii_digit c then c - 48 else if is_ascii_upper c then c - 55 else c - 87)"

text \<open>The digest of a certificate is computed by the ring crate; \<open>fingerprint_hex\<close> prints it.\<close>

definition fingerprint_hex :: "u8 list \<Rightarrow> rstr" where
  "fingerprint_hex digest = join_with 58 (map (\<lambda>b. [hex_upper (unat b div 16), hex_upper (unat b mod 16)]) digest)"

text \<open>\<open>rsplit('=').next()\<close>: what follows the last \<open>=\<close>, or the whole string.\<close>

definition after_last_eq :: "rstr \<Rightarrow> rstr" where
  "after_last_eq s = last (split_on 61 s)"

fun hex_pairs :: "rstr \<Rightarrow> u8 list" where
  "hex_pairs (a # b # cs) = of_nat (16 * hex_value a + hex_value b) # hex_pairs cs"
| "hex_pairs _ = []"

definition parse_fingerprint :: "rstr \<Rightarrow> parse_fingerprint_error + u8 list" where
  "parse_fingerprint s =
     (let hex = filter is_ascii_hexdigit (after_last_eq s)
      in if str_len hex \<noteq> 64 then Inl (WrongLength (str_len hex)) else Inr (hex_pairs hex))"

section \<open>Principals and rules\<close>

datatype principal = Anonymous | Fingerprint "u8 list"
datatype action = APublish | ASubscribe

definition principal_from_fingerprint :: "u8 list option \<Rightarrow> principal" where
  "principal_from_fingerprint fp = (case fp of Some f \<Rightarrow> Fingerprint f | None \<Rightarrow> Anonymous)"

datatype topic_acl_parse_error =
    WrongFieldCount nat | InvalidPrincipal parse_fingerprint_error | InvalidAction rstr | InvalidTopic topic_error
  | InvalidEntry rstr topic_acl_parse_error

definition parse_principal :: "rstr \<Rightarrow> parse_fingerprint_error + principal" where
  "parse_principal s =
     (if eq_ignore_ascii_case s (str ''anonymous'') then Inr Anonymous
      else (case parse_fingerprint s of Inl e \<Rightarrow> Inl e | Inr fp \<Rightarrow> Inr (Fingerprint fp)))"

definition parse_actions :: "rstr \<Rightarrow> topic_acl_parse_error + action list" where
  "parse_actions s =
     (let l = to_ascii_lowercase s in
      if l = str ''pub'' then Inr [APublish]
      else if l = str ''sub'' then Inr [ASubscribe]
      else if l = str ''pubsub'' then Inr [APublish, ASubscribe]
      else Inl (InvalidAction l))"

definition acl_parse_entry :: "rstr \<Rightarrow> topic_acl_parse_error + (principal \<times> topic \<times> action) list" where
  "acl_parse_entry raw =
     (case split_on 124 raw of
        [p, a, t] \<Rightarrow>
          (case parse_principal (trim p) of
             Inl e \<Rightarrow> Inl (InvalidPrincipal e)
           | Inr pr \<Rightarrow>
               (case parse_actions (trim a) of
                  Inl e \<Rightarrow> Inl e
                | Inr actions \<Rightarrow>
                    (case topic_from_str (trim t) of
                       Inl e \<Rightarrow> Inl (InvalidTopic e)
                     | Inr topic \<Rightarrow> Inr (map (\<lambda>x. (pr, topic, x)) actions))))
      | other \<Rightarrow> Inl (WrongFieldCount (length other)))"

record topic_acl =
  acl_entries :: "(principal \<times> topic \<times> action) set"

fun acl_parse_loop ::
  "rstr list \<Rightarrow> (principal \<times> topic \<times> action) set \<Rightarrow> topic_acl_parse_error + (principal \<times> topic \<times> action) set" where
  "acl_parse_loop [] acc = Inr acc"
| "acl_parse_loop (raw # raws) acc =
     (case acl_parse_entry raw of
        Inl e \<Rightarrow> Inl (InvalidEntry raw e)
      | Inr es \<Rightarrow> acl_parse_loop raws (acc \<union> set es))"

definition topic_acl_parse :: "rstr list \<Rightarrow> topic_acl_parse_error + topic_acl" where
  "topic_acl_parse raws = (case acl_parse_loop raws {} of Inl e \<Rightarrow> Inl e | Inr es \<Rightarrow> Inr \<lparr>acl_entries = es\<rparr>)"

definition acl_permits :: "principal \<Rightarrow> topic \<Rightarrow> action \<Rightarrow> topic_acl \<Rightarrow> bool" where
  "acl_permits p t a acl \<longleftrightarrow> (p, t, a) \<in> acl_entries acl"

section \<open>The relay filter\<close>

datatype peer_topic_filter_parse_error =
    PWrongFieldCount nat | PInvalidPrincipal parse_fingerprint_error | PInvalidTopic topic_error
  | PInvalidEntry rstr peer_topic_filter_parse_error

definition relay_parse_entry :: "rstr \<Rightarrow> peer_topic_filter_parse_error + (principal \<times> topic)" where
  "relay_parse_entry raw =
     (case split_on 124 raw of
        [p, t] \<Rightarrow>
          (case parse_principal (trim p) of
             Inl e \<Rightarrow> Inl (PInvalidPrincipal e)
           | Inr pr \<Rightarrow>
               (case topic_from_str (trim t) of Inl e \<Rightarrow> Inl (PInvalidTopic e) | Inr topic \<Rightarrow> Inr (pr, topic)))
      | other \<Rightarrow> Inl (PWrongFieldCount (length other)))"

record peer_topic_filter =
  ptf_entries :: "(principal \<times> topic) set"

fun relay_parse_loop :: "rstr list \<Rightarrow> (principal \<times> topic) set \<Rightarrow> peer_topic_filter_parse_error + (principal \<times> topic) set" where
  "relay_parse_loop [] acc = Inr acc"
| "relay_parse_loop (raw # raws) acc =
     (case relay_parse_entry raw of
        Inl e \<Rightarrow> Inl (PInvalidEntry raw e)
      | Inr x \<Rightarrow> relay_parse_loop raws (insert x acc))"

definition peer_topic_filter_parse :: "rstr list \<Rightarrow> peer_topic_filter_parse_error + peer_topic_filter" where
  "peer_topic_filter_parse raws =
     (case relay_parse_loop raws {} of Inl e \<Rightarrow> Inl e | Inr es \<Rightarrow> Inr \<lparr>ptf_entries = es\<rparr>)"

definition relay_permits :: "principal \<Rightarrow> topic \<Rightarrow> peer_topic_filter \<Rightarrow> bool" where
  "relay_permits p t ptf \<longleftrightarrow> (p, t) \<in> ptf_entries ptf"

section \<open>Printing and parsing a fingerprint\<close>

lemma hex_value_upper: "n < 16 \<Longrightarrow> hex_value (hex_upper n) = n"
  by (auto simp: hex_value_def hex_upper_def is_ascii_digit_def is_ascii_upper_def)

lemma hex_upper_digit: "n < 16 \<Longrightarrow> is_ascii_hexdigit (hex_upper n)"
  by (auto simp: hex_upper_def is_ascii_hexdigit_def is_ascii_digit_def)

definition hex_digits :: "u8 list \<Rightarrow> rstr" where
  "hex_digits digest = concat (map (\<lambda>b. [hex_upper (unat b div 16), hex_upper (unat b mod 16)]) digest)"

lemma unat_u8: "unat (b :: u8) < 256"
  using unsigned_less [of b] by simp

lemma hex_pairs_digits: "hex_pairs (hex_digits digest) = digest"
proof (induction digest)
  case (Cons b bs)
  have "unat b div 16 < 16" "unat b mod 16 < 16" using unat_u8 [of b] by auto
  then have "hex_value (hex_upper (unat b div 16)) = unat b div 16" "hex_value (hex_upper (unat b mod 16)) = unat b mod 16"
    by (simp_all add: hex_value_upper)
  then have "of_nat (16 * hex_value (hex_upper (unat b div 16)) + hex_value (hex_upper (unat b mod 16))) = b" by simp
  with Cons show ?case by (simp add: hex_digits_def)
qed (simp add: hex_digits_def)

lemma filter_fingerprint_hex: "filter is_ascii_hexdigit (fingerprint_hex digest) = hex_digits digest"
proof (induction digest rule: induct_list012)
  case 1
  then show ?case by (simp add: fingerprint_hex_def hex_digits_def)
next
  case (2 b)
  have "unat b div 16 < 16" "unat b mod 16 < 16" using unat_u8 [of b] by auto
  then show ?case by (simp add: fingerprint_hex_def hex_digits_def hex_upper_digit)
next
  case (3 b c bs)
  have "unat b div 16 < 16" "unat b mod 16 < 16" using unat_u8 [of b] by auto
  moreover have "\<not> is_ascii_hexdigit 58" by (simp add: is_ascii_hexdigit_def is_ascii_digit_def)
  ultimately show ?case using 3 by (simp add: fingerprint_hex_def hex_digits_def hex_upper_digit)
qed

lemma hex_digits_chars: "c \<in> set (hex_digits digest) \<Longrightarrow> is_ascii_hexdigit c"
  unfolding filter_fingerprint_hex [symmetric] by simp

lemma is_ascii_hexdigit_ascii: "is_ascii_hexdigit c \<Longrightarrow> c < 128"
  by (auto simp: is_ascii_hexdigit_def is_ascii_digit_def)

lemma str_len_hex_digits: "str_len (hex_digits digest) = 2 * length digest"
proof -
  have "str_len (hex_digits digest) = length (hex_digits digest)"
    using hex_digits_chars is_ascii_hexdigit_ascii by (intro str_len_ascii) blast
  moreover have "length (hex_digits digest) = 2 * length digest" by (induction digest) (simp_all add: hex_digits_def)
  ultimately show ?thesis by simp
qed

lemma fingerprint_hex_no_eq: "61 \<notin> set (fingerprint_hex digest)"
proof (induction digest rule: induct_list012)
  case (2 b)
  have "unat b div 16 < 16" "unat b mod 16 < 16" using unat_u8 [of b] by auto
  then show ?case by (auto simp: fingerprint_hex_def hex_upper_def)
next
  case (3 b c bs)
  have "unat b div 16 < 16" "unat b mod 16 < 16" using unat_u8 [of b] by auto
  with 3 show ?case by (auto simp: fingerprint_hex_def hex_upper_def)
qed (simp add: fingerprint_hex_def)

text \<open>Fingerprints round-trip: what \<open>fingerprint_hex\<close> prints for a 32-byte digest parses back to it, bare or
  after any label that ends in \<open>=\<close>, as openssl prints it.\<close>

theorem fingerprint_round_trip:
  assumes "length digest = 32"
  shows "parse_fingerprint (fingerprint_hex digest) = Inr digest
    \<and> parse_fingerprint (label @ [61] @ fingerprint_hex digest) = Inr digest"
proof -
  have own: "after_last_eq (fingerprint_hex digest) = fingerprint_hex digest"
    by (simp add: after_last_eq_def split_on_sep_free fingerprint_hex_no_eq)
  have "after_last_eq (label @ [61] @ fingerprint_hex digest) = fingerprint_hex digest"
    by (simp add: after_last_eq_def split_on_append_sep split_on_sep_free fingerprint_hex_no_eq)
  with own assms show ?thesis
    by (simp add: parse_fingerprint_def filter_fingerprint_hex str_len_hex_digits hex_pairs_digits)
qed

theorem fingerprint_round_trip_witness:
  "parse_fingerprint (str ''sha256 Fingerprint'' @ [61] @ fingerprint_hex (replicate 32 171)) = Inr (replicate 32 171)"
  using fingerprint_round_trip [of "replicate 32 171" "str ''sha256 Fingerprint''"] by simp

section \<open>Decisions\<close>

lemma acl_parse_loop_spec:
  "acl_parse_loop raws acc = Inr es \<longleftrightarrow>
     (\<forall>raw \<in> set raws. \<exists>xs. acl_parse_entry raw = Inr xs)
     \<and> es = acc \<union> {x. \<exists>raw \<in> set raws. \<exists>xs. acl_parse_entry raw = Inr xs \<and> x \<in> set xs}"
proof (induction raws arbitrary: acc)
  case (Cons raw raws)
  show ?case
  proof (cases "acl_parse_entry raw")
    case (Inr xs)
    have "acc \<union> set xs \<union> {x. \<exists>raw \<in> set raws. \<exists>xs. acl_parse_entry raw = Inr xs \<and> x \<in> set xs}
        = acc \<union> {x. \<exists>raw' \<in> set (raw # raws). \<exists>xs. acl_parse_entry raw' = Inr xs \<and> x \<in> set xs}"
      using Inr by auto
    with Inr Cons [of "acc \<union> set xs"] show ?thesis by simp
  qed simp
qed auto

lemma relay_parse_loop_spec:
  "relay_parse_loop raws acc = Inr es \<longleftrightarrow>
     (\<forall>raw \<in> set raws. \<exists>x. relay_parse_entry raw = Inr x)
     \<and> es = acc \<union> {x. \<exists>raw \<in> set raws. relay_parse_entry raw = Inr x}"
proof (induction raws arbitrary: acc)
  case (Cons raw raws)
  show ?case
  proof (cases "relay_parse_entry raw")
    case (Inr x)
    have "insert x acc \<union> {x. \<exists>raw \<in> set raws. relay_parse_entry raw = Inr x}
        = acc \<union> {x. \<exists>raw' \<in> set (raw # raws). relay_parse_entry raw' = Inr x}"
      using Inr by auto
    with Inr Cons [of "insert x acc"] show ?thesis by simp
  qed simp
qed auto


text \<open>The entry \<open>anonymous|PubSub| n\<close>, as code points.\<close>

definition example_rule :: rstr where
  "example_rule = [97, 110, 111, 110, 121, 109, 111, 117, 115, 124, 80, 117, 98, 83, 117, 98, 124, 32, 110]"

lemma str_literals: "str ''anonymous'' = [97, 110, 111, 110, 121, 109, 111, 117, 115]" "str ''pub'' = [112, 117, 98]" "str ''sub'' = [115, 117, 98]"
  "str ''pubsub'' = [112, 117, 98, 115, 117, 98]"
  by (simp_all add: str_def)

lemma example_rule_entry:
  "acl_parse_entry example_rule = Inr [(Anonymous, Topic [110], APublish), (Anonymous, Topic [110], ASubscribe)]"
  by (simp add: acl_parse_entry_def example_rule_def trim_def is_whitespace_def parse_principal_def parse_actions_def
      eq_ignore_ascii_case_def to_ascii_lowercase_def to_ascii_lower_def is_ascii_upper_def str_literals Let_def
      topic_from_str_def topic_validate_def str_len_def utf8_width_def MAX_TOPIC_LEN_def is_valid_topic_char_def
      is_ascii_alphanumeric_def is_ascii_lower_def)


end
