(* ===== verification/Rate_Limit.thy ===== *)
theory Rate_Limit
  imports Complex_Main Acl
begin

text \<open>
  The publish rate limiter (crates/thoth-mesh-node/src/rate_limit.rs): one token bucket per principal in a
  table bounded by a FIFO. A finite \<open>f64\<close> is a real number and every floating-point operation is the exact
  one followed by a rounding function, a parameter of the definitions. What is used of the rounding is the
  contract \<open>f64_rounding\<close>: it is monotone, exact on integers up to \<open>2 ^ 53\<close>, and the relative error upwards is
  at most \<open>eps\<close> (\<open>2 ^ -53\<close> for round-to-nearest, away from underflow).
\<close>

section \<open>State and operations\<close>

definition DEFAULT_RATE_LIMIT_PRINCIPAL_CAPACITY :: nat where
  "DEFAULT_RATE_LIMIT_PRINCIPAL_CAPACITY = 4096"

record rate_limit_config =
  rc_per_sec :: u32
  rc_burst :: u32

record bucket =
  bk_tokens :: real
  bk_last_refill :: nat

record rate_limiter =
  rl_config :: rate_limit_config
  rl_buckets :: "(principal, bucket) hmap"
  rl_order :: "principal list"
  rl_principal_evictions :: u64

definition rate_limiter_new :: "rate_limit_config \<Rightarrow> rate_limiter" where
  "rate_limiter_new c = \<lparr>rl_config = c, rl_buckets = [], rl_order = [], rl_principal_evictions = 0\<rparr>"

text \<open>The conversion \<open>as f64\<close> of a \<open>u32\<close> is exact.\<close>

definition f64_of_u32 :: "u32 \<Rightarrow> real" where
  "f64_of_u32 n = real (unat n)"

text \<open>\<open>Duration::as_secs_f64\<close> on a number of nanoseconds.\<close>

definition as_secs_f64 :: "(real \<Rightarrow> real) \<Rightarrow> nat \<Rightarrow> real" where
  "as_secs_f64 rnd ns = rnd (rnd (real (ns div 1000000000)) + rnd (real (ns mod 1000000000) / 1000000000))"

definition refill :: "(real \<Rightarrow> real) \<Rightarrow> rate_limit_config \<Rightarrow> nat \<Rightarrow> bucket \<Rightarrow> real" where
  "refill rnd c now bk =
     min (rnd (bk_tokens bk + rnd (as_secs_f64 rnd (now - bk_last_refill bk) * f64_of_u32 (rc_per_sec c))))
         (f64_of_u32 (rc_burst c))"

definition allow :: "(real \<Rightarrow> real) \<Rightarrow> principal \<Rightarrow> nat \<Rightarrow> rate_limiter \<Rightarrow> bool \<times> rate_limiter" where
  "allow rnd p now rl =
     (let is_new = (map_of (rl_buckets rl) p = None);
          bk = (case map_of (rl_buckets rl) p of
                  Some bk \<Rightarrow> bk
                | None \<Rightarrow> \<lparr>bk_tokens = f64_of_u32 (rc_burst (rl_config rl)), bk_last_refill = now\<rparr>);
          tokens = refill rnd (rl_config rl) now bk;
          allowed = (tokens \<ge> 1);
          bk' = \<lparr>bk_tokens = (if allowed then rnd (tokens - 1) else tokens), bk_last_refill = now\<rparr>;
          rl' = rl\<lparr>rl_buckets := AList.update p bk' (rl_buckets rl)\<rparr>
      in (allowed,
          if is_new then
            (case push_capped DEFAULT_RATE_LIMIT_PRINCIPAL_CAPACITY p (rl_order rl') of
               (q, None) \<Rightarrow> rl'\<lparr>rl_order := q\<rparr>
             | (q, Some oldest) \<Rightarrow>
                 rl'\<lparr>rl_order := q, rl_buckets := AList.delete oldest (rl_buckets rl'),
                     rl_principal_evictions := rl_principal_evictions rl' + 1\<rparr>)
          else rl'))"

section \<open>Rounding\<close>

definition f64_rounding :: "(real \<Rightarrow> real) \<Rightarrow> real \<Rightarrow> bool" where
  "f64_rounding rnd eps \<longleftrightarrow> mono rnd \<and> (\<forall>n \<le> 2 ^ 53. rnd (real n) = real n) \<and> 0 \<le> eps
     \<and> (\<forall>x \<ge> 0. rnd x \<le> x * (1 + eps))"

lemma f64_rounding_id: "f64_rounding (\<lambda>x. x) 0"
  by (simp add: f64_rounding_def monoI)

lemma rnd_mono: "f64_rounding rnd eps \<Longrightarrow> x \<le> y \<Longrightarrow> rnd x \<le> rnd y"
  by (auto simp: f64_rounding_def mono_def)

lemma rnd_nat: "f64_rounding rnd eps \<Longrightarrow> n \<le> 2 ^ 53 \<Longrightarrow> rnd (real n) = real n"
  by (simp add: f64_rounding_def)

lemma rnd_zero: "f64_rounding rnd eps \<Longrightarrow> rnd 0 = 0"
  using rnd_nat [of rnd eps 0] by simp

lemma rnd_nonneg: "f64_rounding rnd eps \<Longrightarrow> 0 \<le> x \<Longrightarrow> 0 \<le> rnd x"
  using rnd_mono [of rnd eps 0 x] rnd_zero [of rnd eps] by simp

lemma rnd_upper: "f64_rounding rnd eps \<Longrightarrow> 0 \<le> x \<Longrightarrow> rnd x \<le> x * (1 + eps)"
  by (simp add: f64_rounding_def)

lemma u32_bound: "unat (n :: u32) \<le> 2 ^ 53"
proof -
  have "unat n < 2 ^ LENGTH(32)" by (rule unsigned_less)
  then show ?thesis by simp
qed

lemma f64_of_u32_nonneg [simp]: "0 \<le> f64_of_u32 n"
  unfolding f64_of_u32_def by (rule of_nat_0_le_iff)

section \<open>The buckets\<close>

definition buckets_ok :: "rate_limiter \<Rightarrow> bool" where
  "buckets_ok rl \<longleftrightarrow> (\<forall>p bk. map_of (rl_buckets rl) p = Some bk \<longrightarrow>
     0 \<le> bk_tokens bk \<and> bk_tokens bk \<le> f64_of_u32 (rc_burst (rl_config rl)))"

lemma as_secs_nonneg: "f64_rounding rnd eps \<Longrightarrow> 0 \<le> as_secs_f64 rnd ns"
  by (simp add: as_secs_f64_def rnd_nonneg)

lemma refill_range:
  assumes "f64_rounding rnd eps" and "0 \<le> bk_tokens bk"
  shows "0 \<le> refill rnd c now bk" "refill rnd c now bk \<le> f64_of_u32 (rc_burst c)"
  using assms by (simp_all add: refill_def rnd_nonneg [OF assms(1)] as_secs_nonneg [OF assms(1)])

text \<open>The bucket a call works on, and the one it leaves.\<close>

definition bucket_of :: "principal \<Rightarrow> nat \<Rightarrow> rate_limiter \<Rightarrow> bucket" where
  "bucket_of p now rl = (case map_of (rl_buckets rl) p of
     Some bk \<Rightarrow> bk | None \<Rightarrow> \<lparr>bk_tokens = f64_of_u32 (rc_burst (rl_config rl)), bk_last_refill = now\<rparr>)"

definition spend :: "(real \<Rightarrow> real) \<Rightarrow> rate_limit_config \<Rightarrow> nat \<Rightarrow> bucket \<Rightarrow> bucket" where
  "spend rnd c now bk = (let t = refill rnd c now bk in
     \<lparr>bk_tokens = (if t \<ge> 1 then rnd (t - 1) else t), bk_last_refill = now\<rparr>)"

lemma allow_fst: "fst (allow rnd p now rl) \<longleftrightarrow> refill rnd (rl_config rl) now (bucket_of p now rl) \<ge> 1"
  by (simp add: allow_def Let_def bucket_of_def)

lemma allow_config [simp]: "rl_config (snd (allow rnd p now rl)) = rl_config rl"
  by (simp add: allow_def Let_def split: prod.splits option.splits)

lemma allow_cases [case_names tracked kept evicted]:
  obtains "map_of (rl_buckets rl) p \<noteq> None" "rl_order (snd (allow rnd p now rl)) = rl_order rl"
      "rl_buckets (snd (allow rnd p now rl)) = AList.update p (spend rnd (rl_config rl) now (bucket_of p now rl)) (rl_buckets rl)"
  | "map_of (rl_buckets rl) p = None" "rl_order (snd (allow rnd p now rl)) = rl_order rl @ [p]"
      "length (rl_order rl) < DEFAULT_RATE_LIMIT_PRINCIPAL_CAPACITY"
      "rl_buckets (snd (allow rnd p now rl)) = AList.update p (spend rnd (rl_config rl) now (bucket_of p now rl)) (rl_buckets rl)"
  | x q where "map_of (rl_buckets rl) p = None" "rl_order rl @ [p] = x # q" "rl_order (snd (allow rnd p now rl)) = q"
      "DEFAULT_RATE_LIMIT_PRINCIPAL_CAPACITY \<le> length (rl_order rl)"
      "rl_buckets (snd (allow rnd p now rl)) = AList.delete x (AList.update p (spend rnd (rl_config rl) now (bucket_of p now rl)) (rl_buckets rl))"
proof (cases "map_of (rl_buckets rl) p")
  case (Some bk)
  with that(1) show thesis by (simp add: allow_def Let_def bucket_of_def spend_def)
next
  case None
  obtain q x where push: "push_capped DEFAULT_RATE_LIMIT_PRINCIPAL_CAPACITY p (rl_order rl) = (q, x)" by fastforce
  show thesis
  proof (cases x)
    case n: None
    then have "q = rl_order rl @ [p]" "length (rl_order rl) < DEFAULT_RATE_LIMIT_PRINCIPAL_CAPACITY"
      using push by (simp_all add: push_capped_conv)
    with that(2) None push n show thesis by (simp add: allow_def Let_def bucket_of_def spend_def)
  next
    case (Some y)
    then have "rl_order rl @ [p] = y # q" "DEFAULT_RATE_LIMIT_PRINCIPAL_CAPACITY \<le> length (rl_order rl)"
      using push by (simp_all add: push_capped_conv)
    with that(3) [of y q] None push Some show thesis by (simp add: allow_def Let_def bucket_of_def spend_def)
  qed
qed

lemma spend_range:
  assumes "f64_rounding rnd eps" and "0 \<le> bk_tokens bk"
  shows "0 \<le> bk_tokens (spend rnd c now bk)" "bk_tokens (spend rnd c now bk) \<le> f64_of_u32 (rc_burst c)"
proof -
  let ?t = "refill rnd c now bk"
  note t = refill_range [OF assms, of c now]
  have "rnd (?t - 1) \<le> f64_of_u32 (rc_burst c)" if "1 \<le> ?t"
  proof -
    have "rnd (?t - 1) \<le> rnd (real (unat (rc_burst c)))"
      using t(2) by (intro rnd_mono [OF assms(1)]) (simp only: f64_of_u32_def)
    then show ?thesis using rnd_nat [OF assms(1) u32_bound] by (simp only: f64_of_u32_def)
  qed
  with t rnd_nonneg [OF assms(1)] show "0 \<le> bk_tokens (spend rnd c now bk)"
    "bk_tokens (spend rnd c now bk) \<le> f64_of_u32 (rc_burst c)"
    by (auto simp: spend_def Let_def)
qed

lemma bucket_of_range:
  "buckets_ok rl \<Longrightarrow> 0 \<le> bk_tokens (bucket_of p now rl) \<and> bk_tokens (bucket_of p now rl) \<le> f64_of_u32 (rc_burst (rl_config rl))"
  by (auto simp: buckets_ok_def bucket_of_def split: option.split)

lemma allow_buckets_ok:
  assumes "f64_rounding rnd eps" and "buckets_ok rl"
  shows "buckets_ok (snd (allow rnd p now rl))"
proof -
  let ?bk = "spend rnd (rl_config rl) now (bucket_of p now rl)"
  have bk: "0 \<le> bk_tokens ?bk" "bk_tokens ?bk \<le> f64_of_u32 (rc_burst (rl_config rl))"
    using spend_range [OF assms(1)] bucket_of_range [OF assms(2)] by simp_all
  have "map_of (rl_buckets (snd (allow rnd p now rl))) q = Some b \<Longrightarrow> b = ?bk \<or> map_of (rl_buckets rl) q = Some b" for q b
    by (cases rule: allow_cases [of rl p rnd now]) (auto split: if_splits)
  with bk assms(2) show ?thesis unfolding buckets_ok_def allow_config by blast
qed

interpretation limiter: capped_registry "rate_limiter_new c" "\<lambda>(p, now) rl. snd (allow rnd p now rl)"
  "\<lambda>rl. rl_config rl = c" rl_order "\<lambda>rl. keys (rl_buckets rl)" DEFAULT_RATE_LIMIT_PRINCIPAL_CAPACITY for c rnd
proof unfold_locales
  fix rl :: rate_limiter and x :: "principal \<times> nat"
  obtain p now where x: "x = (p, now)" by fastforce
  let ?rl = "snd (allow rnd p now rl)"
  assume d: "distinct (rl_order rl)" and t: "keys (rl_buckets rl) = set (rl_order rl)"
  have "distinct (rl_order ?rl) \<and> keys (rl_buckets ?rl) = set (rl_order ?rl)
    \<and> (length (rl_order rl) \<le> DEFAULT_RATE_LIMIT_PRINCIPAL_CAPACITY \<longrightarrow> length (rl_order ?rl) \<le> DEFAULT_RATE_LIMIT_PRINCIPAL_CAPACITY)"
  proof (cases rule: allow_cases [of rl p rnd now])
    case tracked
    then have "p \<in> keys (rl_buckets rl)" by (auto simp: keys_dom)
    with tracked d t show ?thesis by (auto simp: insert_absorb)
  next
    case kept
    then have "p \<notin> set (rl_order rl)" using t by (simp add: map_of_None_keys)
    with kept d t show ?thesis by auto
  next
    case (evicted x q)
    then have "p \<notin> set (rl_order rl)" using t by (simp add: map_of_None_keys)
    then have dist: "distinct (x # q)" using d evicted(2) [symmetric] by simp
    have "insert p (set (rl_order rl)) = insert x (set q)" using arg_cong [OF evicted(2), of set] by simp
    then have "keys (rl_buckets ?rl) = set q" using dist evicted(5) t by auto
    moreover have "length q = length (rl_order rl)" using arg_cong [OF evicted(2), of length] by simp
    ultimately show ?thesis using dist evicted(3) by simp
  qed
  then show "distinct (rl_order ((\<lambda>(p, now) rl. snd (allow rnd p now rl)) x rl))"
    and "keys (rl_buckets ((\<lambda>(p, now) rl. snd (allow rnd p now rl)) x rl)) = set (rl_order ((\<lambda>(p, now) rl. snd (allow rnd p now rl)) x rl))"
    and "length (rl_order rl) \<le> DEFAULT_RATE_LIMIT_PRINCIPAL_CAPACITY \<Longrightarrow>
      length (rl_order ((\<lambda>(p, now) rl. snd (allow rnd p now rl)) x rl)) \<le> DEFAULT_RATE_LIMIT_PRINCIPAL_CAPACITY"
    by (simp_all add: x)
qed (auto simp: rate_limiter_new_def)

section \<open>Runs of one principal\<close>

fun allow_run :: "(real \<Rightarrow> real) \<Rightarrow> principal \<Rightarrow> nat list \<Rightarrow> rate_limiter \<Rightarrow> bool list" where
  "allow_run rnd p [] rl = []"
| "allow_run rnd p (now # nows) rl = fst (allow rnd p now rl) # allow_run rnd p nows (snd (allow rnd p now rl))"

fun bucket_run :: "(real \<Rightarrow> real) \<Rightarrow> rate_limit_config \<Rightarrow> nat list \<Rightarrow> bucket \<Rightarrow> bool list" where
  "bucket_run rnd c [] bk = []"
| "bucket_run rnd c (now # nows) bk = (refill rnd c now bk \<ge> 1) # bucket_run rnd c nows (spend rnd c now bk)"

definition limiter_ok :: "rate_limiter \<Rightarrow> bool" where
  "limiter_ok rl \<longleftrightarrow> distinct (rl_order rl) \<and> keys (rl_buckets rl) = set (rl_order rl)"

lemma allow_limiter_ok: "limiter_ok rl \<Longrightarrow> limiter_ok (snd (allow rnd p now rl))"
  using limiter.step_distinct [where s = rl and x = "(p, now)" and c = "rl_config rl" and rnd = rnd]
    limiter.step_tracked [where s = rl and x = "(p, now)" and c = "rl_config rl" and rnd = rnd]
  by (simp add: limiter_ok_def)

lemma allow_bucket:
  assumes "limiter_ok rl"
  shows "map_of (rl_buckets (snd (allow rnd p now rl))) p = Some (spend rnd (rl_config rl) now (bucket_of p now rl))"
proof (cases rule: allow_cases [of rl p rnd now])
  case (evicted x q)
  have "p \<notin> set (rl_order rl)" using evicted(1) assms by (simp add: map_of_None_keys limiter_ok_def)
  moreover have "rl_order rl \<noteq> []" using evicted(4) by (auto simp: DEFAULT_RATE_LIMIT_PRINCIPAL_CAPACITY_def)
  ultimately have "x \<noteq> p" using evicted(2) by (cases "rl_order rl") auto
  then show ?thesis by (simp add: evicted(5))
qed simp_all

lemma allow_run_tracked:
  assumes "limiter_ok rl" and "map_of (rl_buckets rl) p = Some bk"
  shows "allow_run rnd p nows rl = bucket_run rnd (rl_config rl) nows bk"
  using assms
proof (induction nows arbitrary: rl bk)
  case (Cons now nows)
  have "bucket_of p now rl = bk" using Cons.prems(2) by (simp add: bucket_of_def)
  then show ?case
    using Cons.IH [OF allow_limiter_ok [OF Cons.prems(1)] allow_bucket [OF Cons.prems(1)]] by (simp add: allow_fst)
qed simp

lemma allow_run_bucket:
  assumes "limiter_ok rl"
  shows "allow_run rnd p (now # nows) rl = bucket_run rnd (rl_config rl) (now # nows) (bucket_of p now rl)"
  using allow_run_tracked [OF allow_limiter_ok [OF assms] allow_bucket [OF assms]] by (simp add: allow_fst)

lemma refill_idle:
  assumes "f64_rounding rnd eps" and "k \<le> unat (rc_burst c)"
  shows "refill rnd c now \<lparr>bk_tokens = real k, bk_last_refill = now\<rparr> = real k"
proof -
  have "real k \<le> f64_of_u32 (rc_burst c)" unfolding f64_of_u32_def using assms(2) by (rule of_nat_mono)
  moreover have "rnd (real k) = real k" using assms u32_bound [of "rc_burst c"] by (intro rnd_nat) simp_all
  ultimately show ?thesis using rnd_zero [OF assms(1)] by (simp add: refill_def as_secs_f64_def)
qed

lemma burst_run:
  assumes "f64_rounding rnd eps" and "k \<le> unat (rc_burst c)"
  shows "bucket_run rnd c (replicate n now) \<lparr>bk_tokens = real k, bk_last_refill = now\<rparr>
    = replicate (min n k) True @ replicate (n - k) False"
  using assms(2)
proof (induction n arbitrary: k)
  case (Suc n)
  note idle = refill_idle [OF assms(1) Suc.prems, of now]
  show ?case
  proof (cases k)
    case 0
    have "spend rnd c now \<lparr>bk_tokens = 0, bk_last_refill = now\<rparr> = \<lparr>bk_tokens = 0, bk_last_refill = now\<rparr>"
      using idle by (simp add: spend_def 0)
    with Suc.IH [of 0] idle show ?thesis by (simp add: 0)
  next
    case (Suc j)
    have "rnd (real k - 1) = real j"
      using rnd_nat [OF assms(1), of j] Suc Suc.prems u32_bound [of "rc_burst c"] by simp
    then have "spend rnd c now \<lparr>bk_tokens = real k, bk_last_refill = now\<rparr> = \<lparr>bk_tokens = real j, bk_last_refill = now\<rparr>"
      using idle Suc by (simp add: spend_def Let_def)
    with Suc.IH [of j] idle Suc Suc.prems show ?thesis by simp
  qed
qed simp

text \<open>A newcomer's burst is exact: a principal the limiter does not know yet that sends any number of messages at one
  instant has exactly the first \<open>burst\<close> of them allowed and the rest refused, rounding notwithstanding.\<close>

theorem burst_exact:
  assumes "f64_rounding rnd eps" and "limiter_ok rl" and "map_of (rl_buckets rl) p = None"
  shows "allow_run rnd p (replicate n now) rl =
    replicate (min n (unat (rc_burst (rl_config rl)))) True @ replicate (n - unat (rc_burst (rl_config rl))) False"
proof (cases n)
  case (Suc m)
  have "bucket_of p now rl = \<lparr>bk_tokens = real (unat (rc_burst (rl_config rl))), bk_last_refill = now\<rparr>"
    unfolding bucket_of_def f64_of_u32_def by (simp only: assms(3) option.case)
  with burst_run [OF assms(1), of "unat (rc_burst (rl_config rl))" "rl_config rl" n now] Suc
    allow_run_bucket [OF assms(2), of rnd p now "replicate m now"]
  show ?thesis by simp
qed simp

theorem burst_exact_witness:
  "allow_run (\<lambda>x. x) Anonymous (replicate 3 9) (rate_limiter_new \<lparr>rc_per_sec = 1, rc_burst = 2\<rparr>)
     = replicate 2 True @ replicate 1 False"
  using burst_exact [OF f64_rounding_id, of "rate_limiter_new \<lparr>rc_per_sec = 1, rc_burst = 2\<rparr>" Anonymous 3 9]
  by (simp add: rate_limiter_new_def limiter_ok_def)

definition step_error :: "real \<Rightarrow> rate_limit_config \<Rightarrow> real" where
  "step_error eps c = f64_of_u32 (rc_burst c) * ((1 + eps) ^ 4 - 1 + eps)"

lemma as_secs_upper:
  assumes "f64_rounding rnd eps"
  shows "as_secs_f64 rnd ns \<le> real ns / 1000000000 * (1 + eps) ^ 2"
proof -
  let ?s = "real (ns div 1000000000)" and ?f = "real (ns mod 1000000000) / 1000000000"
  have e: "0 \<le> eps" using assms by (simp add: f64_rounding_def)
  have whole: "?s + ?f = real ns / 1000000000"
  proof -
    have eq: "real ns = 1000000000 * ?s + real (ns mod 1000000000)"
      by (metis mult_div_mod_eq of_nat_add of_nat_mult of_nat_numeral)
    show ?thesis by (subst eq) (simp add: add_divide_distrib)
  qed
  have "rnd ?s + rnd ?f \<le> ?s * (1 + eps) + ?f * (1 + eps)"
    by (intro add_mono rnd_upper [OF assms]) simp_all
  also have "\<dots> = (real ns / 1000000000) * (1 + eps)" by (simp only: whole flip: distrib_right)
  finally have sum: "rnd ?s + rnd ?f \<le> (real ns / 1000000000) * (1 + eps)" .
  have "0 \<le> rnd ?s + rnd ?f" by (intro add_nonneg_nonneg rnd_nonneg [OF assms]) simp_all
  then have "as_secs_f64 rnd ns \<le> (rnd ?s + rnd ?f) * (1 + eps)"
    unfolding as_secs_f64_def by (rule rnd_upper [OF assms])
  also have "\<dots> \<le> (real ns / 1000000000) * (1 + eps) * (1 + eps)" using sum e by (intro mult_right_mono) simp_all
  finally show ?thesis by (simp add: power2_eq_square mult.assoc)
qed

lemma refill_upper:
  assumes "f64_rounding rnd eps" and "0 \<le> bk_tokens bk"
  shows "refill rnd c now bk \<le> bk_tokens bk + real (now - bk_last_refill bk) / 1000000000 * f64_of_u32 (rc_per_sec c)
    + f64_of_u32 (rc_burst c) * ((1 + eps) ^ 4 - 1)"
proof -
  let ?el = "real (now - bk_last_refill bk) / 1000000000" and ?r = "f64_of_u32 (rc_per_sec c)"
  let ?burst = "f64_of_u32 (rc_burst c)" and ?x = "bk_tokens bk + ?el * ?r"
  have e: "0 \<le> eps" using assms(1) by (simp add: f64_rounding_def)
  have e4: "1 \<le> (1 + eps) ^ n" for n using e by (simp add: one_le_power)
  show ?thesis
  proof (cases "?burst \<le> ?x")
    case True
    have "refill rnd c now bk \<le> ?burst" by (simp add: refill_def)
    also have "\<dots> \<le> ?x + ?burst * ((1 + eps) ^ 4 - 1)" using True e4 [of 4] by (simp add: add_increasing2)
    finally show ?thesis .
  next
    case False
    let ?m = "as_secs_f64 rnd (now - bk_last_refill bk) * ?r"
    have m0: "0 \<le> ?m" by (simp add: as_secs_nonneg [OF assms(1)])
    have "?m \<le> (?el * (1 + eps) ^ 2) * ?r" by (intro mult_right_mono as_secs_upper [OF assms(1)]) simp
    then have "?m * (1 + eps) \<le> (?el * (1 + eps) ^ 2) * ?r * (1 + eps)" by (rule mult_right_mono) (use e in simp)
    with rnd_upper [OF assms(1) m0] have "rnd ?m \<le> (?el * ?r) * (1 + eps) ^ 3"
      by (simp add: power2_eq_square power3_eq_cube mult.assoc mult.left_commute mult.commute)
    moreover have "bk_tokens bk \<le> bk_tokens bk * (1 + eps) ^ 3" using assms(2) e4 [of 3] by (simp add: mult_le_cancel_left1)
    ultimately have sum: "bk_tokens bk + rnd ?m \<le> ?x * (1 + eps) ^ 3" by (simp add: distrib_right)
    have "0 \<le> bk_tokens bk + rnd ?m" using assms(2) rnd_nonneg [OF assms(1) m0] by simp
    from rnd_upper [OF assms(1) this] have "refill rnd c now bk \<le> (bk_tokens bk + rnd ?m) * (1 + eps)"
      by (simp add: refill_def)
    also have "\<dots> \<le> ?x * (1 + eps) ^ 3 * (1 + eps)" using sum e by (intro mult_right_mono) simp_all
    also have "\<dots> = ?x + ?x * ((1 + eps) ^ 4 - 1)" by (simp add: power_numeral_reduce algebra_simps)
    also have "\<dots> \<le> ?x + ?burst * ((1 + eps) ^ 4 - 1)" using False e4 [of 4] by (intro add_left_mono mult_right_mono) simp_all
    finally show ?thesis .
  qed
qed

lemma spend_split:
  assumes "f64_rounding rnd eps" and "0 \<le> bk_tokens bk"
  shows "bk_tokens (spend rnd c now bk) + (if refill rnd c now bk \<ge> 1 then 1 else 0)
    \<le> refill rnd c now bk + f64_of_u32 (rc_burst c) * eps"
proof (cases "1 \<le> refill rnd c now bk")
  case True
  let ?t = "refill rnd c now bk" and ?burst = "f64_of_u32 (rc_burst c)"
  have e: "0 \<le> eps" using assms(1) by (simp add: f64_rounding_def)
  have "rnd (?t - 1) \<le> (?t - 1) * (1 + eps)" using True by (intro rnd_upper [OF assms(1)]) simp
  also have "\<dots> = ?t - 1 + (?t - 1) * eps" by (simp add: algebra_simps)
  also have "\<dots> \<le> ?t - 1 + ?burst * eps"
    using refill_range(2) [OF assms, of c now] e by (intro add_left_mono mult_right_mono) simp_all
  finally show ?thesis using True by (simp add: spend_def Let_def)
next
  case False
  have "0 \<le> eps" using assms(1) by (simp add: f64_rounding_def)
  with False show ?thesis by (simp add: spend_def Let_def)
qed

lemma spend_upper:
  assumes "f64_rounding rnd eps" and "0 \<le> bk_tokens bk"
  shows "bk_tokens (spend rnd c now bk) + (if refill rnd c now bk \<ge> 1 then 1 else 0)
    \<le> bk_tokens bk + real (now - bk_last_refill bk) / 1000000000 * f64_of_u32 (rc_per_sec c) + step_error eps c"
  using spend_split [OF assms, of c now] refill_upper [OF assms, of c now] by (simp add: step_error_def algebra_simps)

lemma spend_burst:
  assumes "f64_rounding rnd eps" and "0 \<le> bk_tokens bk"
  shows "bk_tokens (spend rnd c now bk) + (if refill rnd c now bk \<ge> 1 then 1 else 0)
    \<le> f64_of_u32 (rc_burst c) + step_error eps c"
proof -
  have "0 \<le> eps" using assms(1) by (simp add: f64_rounding_def)
  then have "f64_of_u32 (rc_burst c) * eps \<le> step_error eps c"
    unfolding step_error_def by (intro mult_left_mono) (simp_all add: one_le_power)
  with spend_split [OF assms, of c now] refill_range(2) [OF assms, of c now] show ?thesis by linarith
qed

text \<open>The calls that were allowed, as a number.\<close>

definition allowed_count :: "bool list \<Rightarrow> real" where
  "allowed_count bs = real (length (filter (\<lambda>b. b) bs))"

lemma bucket_run_bound:
  assumes "f64_rounding rnd eps" and "0 \<le> bk_tokens bk" and "sorted (bk_last_refill bk # nows)"
  shows "allowed_count (bucket_run rnd c nows bk) \<le> bk_tokens bk
    + real (last (bk_last_refill bk # nows) - bk_last_refill bk) / 1000000000 * f64_of_u32 (rc_per_sec c)
    + real (length nows) * step_error eps c"
  using assms(2,3)
proof (induction nows arbitrary: bk)
  case Nil
  then show ?case by (simp add: allowed_count_def)
next
  case (Cons now nows)
  let ?bk = "spend rnd c now bk" and ?r = "f64_of_u32 (rc_per_sec c)" and ?ok = "if refill rnd c now bk \<ge> 1 then 1 else (0 :: real)"
  let ?l = "last (now # nows)"
  have bk: "bk_last_refill ?bk = now" "0 \<le> bk_tokens ?bk"
    using spend_range(1) [OF assms(1) Cons.prems(1)] by (simp_all add: spend_def Let_def)
  have le: "bk_last_refill bk \<le> now" and srt: "sorted (now # nows)" using Cons.prems(2) by simp_all
  have "now \<le> ?l" using srt by (cases nows) (auto simp: last_in_set)
  then have split: "real (?l - bk_last_refill bk) = real (now - bk_last_refill bk) + real (?l - now)"
    using le by (simp flip: of_nat_add)
  have "allowed_count (bucket_run rnd c (now # nows) bk) = ?ok + allowed_count (bucket_run rnd c nows ?bk)"
    by (simp add: allowed_count_def)
  also have "\<dots> \<le> ?ok + (bk_tokens ?bk + real (?l - now) / 1000000000 * ?r + real (length nows) * step_error eps c)"
    using Cons.IH [OF bk(2)] srt by (simp add: bk(1))
  also have "\<dots> \<le> bk_tokens bk + real (now - bk_last_refill bk) / 1000000000 * ?r + step_error eps c
      + real (?l - now) / 1000000000 * ?r + real (length nows) * step_error eps c"
    using spend_upper [OF assms(1) Cons.prems(1), of c now] by simp
  also have "\<dots> = bk_tokens bk + real (?l - bk_last_refill bk) / 1000000000 * ?r + real (length (now # nows)) * step_error eps c"
    by (simp only: split) (simp add: add_divide_distrib distrib_right)
  finally show ?case by simp
qed



text \<open>The limiter's memory is bounded: after any calls from any principals it tracks at most 4096 of them, and every
  bucket it keeps holds between zero and \<open>burst\<close> tokens.\<close>

theorem limiter_bounded:
  assumes "f64_rounding rnd eps"
  shows "let rl = fold (\<lambda>(p, now) rl. snd (allow rnd p now rl)) calls (rate_limiter_new c)
    in card (keys (rl_buckets rl)) \<le> 4096 \<and> buckets_ok rl \<and> rl_config rl = c"
proof -
  let ?rl = "fold (\<lambda>(p, now) rl. snd (allow rnd p now rl)) calls (rate_limiter_new c)"
  have "buckets_ok (fold (\<lambda>(p, now) rl. snd (allow rnd p now rl)) calls rl)" if "buckets_ok rl" for rl
    using that by (induction calls arbitrary: rl) (auto simp: allow_buckets_ok [OF assms])
  moreover have "buckets_ok (rate_limiter_new c)" by (simp add: buckets_ok_def rate_limiter_new_def)
  moreover have "rl_config (fold (\<lambda>(p, now) rl. snd (allow rnd p now rl)) calls rl) = rl_config rl" for rl
    by (induction calls arbitrary: rl) auto
  ultimately show ?thesis
    using limiter.reachable_bounded [where c = c and rnd = rnd and xs = calls]
    by (simp add: Let_def DEFAULT_RATE_LIMIT_PRINCIPAL_CAPACITY_def rate_limiter_new_def)
qed

theorem limiter_bounded_witness:
  "buckets_ok (fold (\<lambda>(p, now) rl. snd (allow (\<lambda>x. x) p now rl)) [(Anonymous, 3)] (rate_limiter_new \<lparr>rc_per_sec = 1, rc_burst = 2\<rparr>))"
  using limiter_bounded [OF f64_rounding_id, of "[(Anonymous, 3)]" "\<lparr>rc_per_sec = 1, rc_burst = 2\<rparr>"] by (simp add: Let_def)

end
