(* ===== verification/Metrics.thy ===== *)
theory Metrics
  imports Broker Membership Peer_Directory Rate_Limit
begin

text \<open>
  The node's counters, their summary and its Prometheus text (crates/thoth-mesh-node/src/metrics.rs). Every
  counter is a wrapping 64-bit word, as \<open>fetch_add\<close> on an \<open>AtomicU64\<close> is.
\<close>

section \<open>Counters\<close>

record metrics =
  mt_forwarder_lag :: u64
  mt_topic_acl_rejections :: u64
  mt_metrics_auth_rejections :: u64
  mt_peer_topic_acl_rejections :: u64
  mt_replayed_messages :: u64
  mt_lag_recovered :: u64
  mt_redelivered_messages :: u64
  mt_delivery_ack_timeouts :: u64
  mt_expired_messages :: u64
  mt_dead_lettered_messages :: u64
  mt_publish_rate_limit_rejections :: u64

definition metrics_new :: metrics where
  "metrics_new = \<lparr>mt_forwarder_lag = 0, mt_topic_acl_rejections = 0, mt_metrics_auth_rejections = 0,
     mt_peer_topic_acl_rejections = 0, mt_replayed_messages = 0, mt_lag_recovered = 0,
     mt_redelivered_messages = 0, mt_delivery_ack_timeouts = 0, mt_expired_messages = 0,
     mt_dead_lettered_messages = 0, mt_publish_rate_limit_rejections = 0\<rparr>"

definition record_forwarder_lag :: "u64 \<Rightarrow> metrics \<Rightarrow> metrics" where
  "record_forwarder_lag skipped m = m\<lparr>mt_forwarder_lag := mt_forwarder_lag m + skipped\<rparr>"

definition record_topic_acl_rejection :: "metrics \<Rightarrow> metrics" where
  "record_topic_acl_rejection m = m\<lparr>mt_topic_acl_rejections := mt_topic_acl_rejections m + 1\<rparr>"

definition record_metrics_auth_rejection :: "metrics \<Rightarrow> metrics" where
  "record_metrics_auth_rejection m = m\<lparr>mt_metrics_auth_rejections := mt_metrics_auth_rejections m + 1\<rparr>"

definition record_peer_topic_acl_rejection :: "metrics \<Rightarrow> metrics" where
  "record_peer_topic_acl_rejection m = m\<lparr>mt_peer_topic_acl_rejections := mt_peer_topic_acl_rejections m + 1\<rparr>"

definition record_replayed_messages :: "u64 \<Rightarrow> metrics \<Rightarrow> metrics" where
  "record_replayed_messages count m = m\<lparr>mt_replayed_messages := mt_replayed_messages m + count\<rparr>"

definition record_lag_recovered :: "u64 \<Rightarrow> metrics \<Rightarrow> metrics" where
  "record_lag_recovered count m = m\<lparr>mt_lag_recovered := mt_lag_recovered m + count\<rparr>"

definition record_redelivered_messages :: "u64 \<Rightarrow> metrics \<Rightarrow> metrics" where
  "record_redelivered_messages count m = m\<lparr>mt_redelivered_messages := mt_redelivered_messages m + count\<rparr>"

definition record_delivery_ack_timeouts :: "u64 \<Rightarrow> metrics \<Rightarrow> metrics" where
  "record_delivery_ack_timeouts count m = m\<lparr>mt_delivery_ack_timeouts := mt_delivery_ack_timeouts m + count\<rparr>"

definition record_expired_messages :: "u64 \<Rightarrow> metrics \<Rightarrow> metrics" where
  "record_expired_messages count m = m\<lparr>mt_expired_messages := mt_expired_messages m + count\<rparr>"

definition record_dead_lettered_messages :: "u64 \<Rightarrow> metrics \<Rightarrow> metrics" where
  "record_dead_lettered_messages count m = m\<lparr>mt_dead_lettered_messages := mt_dead_lettered_messages m + count\<rparr>"

definition record_publish_rate_limit_rejection :: "metrics \<Rightarrow> metrics" where
  "record_publish_rate_limit_rejection m = m\<lparr>mt_publish_rate_limit_rejections := mt_publish_rate_limit_rejections m + 1\<rparr>"

section \<open>The summary\<close>

text \<open>The reads of \<open>Broker\<close>, \<open>Membership\<close> and the others are the counters of their states.\<close>

definition summary :: "membership \<Rightarrow> 's broker \<Rightarrow> peer_directory \<Rightarrow> metrics \<Rightarrow> rate_limiter option \<Rightarrow> metrics_summary" where
  "summary mb b d m rl =
     \<lparr>ms_peers_connected = of_nat (connected_count mb),
      ms_messages_published = br_messages_published b,
      ms_forwarder_lag_total = mt_forwarder_lag m,
      ms_topic_acl_rejections_total = mt_topic_acl_rejections m,
      ms_metrics_auth_rejections_total = mt_metrics_auth_rejections m,
      ms_peer_topic_acl_rejections_total = mt_peer_topic_acl_rejections m,
      ms_replayed_messages_total = mt_replayed_messages m,
      ms_lag_recovered_total = mt_lag_recovered m,
      ms_topic_evictions_total = br_topic_evictions b,
      ms_pattern_evictions_total = br_pattern_evictions b,
      ms_membership_evictions_total = mb_disconnected_evictions mb,
      ms_peer_directory_evictions_total = pd_evictions d,
      ms_redelivered_messages_total = mt_redelivered_messages m,
      ms_delivery_ack_timeouts_total = mt_delivery_ack_timeouts m,
      ms_persist_failures_total = br_persist_failures b,
      ms_expired_messages_total = mt_expired_messages m,
      ms_dead_lettered_messages_total = mt_dead_lettered_messages m,
      ms_publish_rate_limit_rejections_total = mt_publish_rate_limit_rejections m,
      ms_rate_limit_principal_evictions_total = (case rl of None \<Rightarrow> 0 | Some l \<Rightarrow> rl_principal_evictions l)\<rparr>"

section \<open>The scrape text\<close>

text \<open>\<open>Display\<close> of an unsigned integer.\<close>

fun decimal :: "nat \<Rightarrow> rstr" where
  "decimal n = (if n < 10 then [48 + n] else decimal (n div 10) @ [48 + n mod 10])"

definition metric_line :: "rstr \<Rightarrow> rstr \<Rightarrow> u64 \<Rightarrow> rstr" where
  "metric_line kind name v =
     str ''# TYPE '' @ name @ [32] @ kind @ [10] @ name @ [32] @ decimal (unat v) @ [10]"

text \<open>The metrics in the order of the format string, each with its type.\<close>

definition metric_table :: "metrics_summary \<Rightarrow> (rstr \<times> rstr \<times> u64) list" where
  "metric_table s =
     [(str ''gauge'', str ''thothmesh_peers_connected'', ms_peers_connected s),
      (str ''counter'', str ''thothmesh_messages_published_total'', ms_messages_published s),
      (str ''counter'', str ''thothmesh_forwarder_lag_total'', ms_forwarder_lag_total s),
      (str ''counter'', str ''thothmesh_topic_acl_rejections_total'', ms_topic_acl_rejections_total s),
      (str ''counter'', str ''thothmesh_metrics_auth_rejections_total'', ms_metrics_auth_rejections_total s),
      (str ''counter'', str ''thothmesh_peer_topic_acl_rejections_total'', ms_peer_topic_acl_rejections_total s),
      (str ''counter'', str ''thothmesh_replayed_messages_total'', ms_replayed_messages_total s),
      (str ''counter'', str ''thothmesh_lag_recovered_total'', ms_lag_recovered_total s),
      (str ''counter'', str ''thothmesh_topic_evictions_total'', ms_topic_evictions_total s),
      (str ''counter'', str ''thothmesh_pattern_evictions_total'', ms_pattern_evictions_total s),
      (str ''counter'', str ''thothmesh_membership_evictions_total'', ms_membership_evictions_total s),
      (str ''counter'', str ''thothmesh_peer_directory_evictions_total'', ms_peer_directory_evictions_total s),
      (str ''counter'', str ''thothmesh_redelivered_messages_total'', ms_redelivered_messages_total s),
      (str ''counter'', str ''thothmesh_delivery_ack_timeouts_total'', ms_delivery_ack_timeouts_total s),
      (str ''counter'', str ''thothmesh_persist_failures_total'', ms_persist_failures_total s),
      (str ''counter'', str ''thothmesh_expired_messages_total'', ms_expired_messages_total s),
      (str ''counter'', str ''thothmesh_dead_lettered_messages_total'', ms_dead_lettered_messages_total s),
      (str ''counter'', str ''thothmesh_publish_rate_limit_rejections_total'', ms_publish_rate_limit_rejections_total s),
      (str ''counter'', str ''thothmesh_rate_limit_principal_evictions_total'', ms_rate_limit_principal_evictions_total s)]"

definition render_summary :: "metrics_summary \<Rightarrow> rstr" where
  "render_summary s = concat (map (\<lambda>(kind, name, v). metric_line kind name v) (metric_table s))"

definition render_prometheus :: "membership \<Rightarrow> 's broker \<Rightarrow> peer_directory \<Rightarrow> metrics \<Rightarrow> rate_limiter option \<Rightarrow> rstr" where
  "render_prometheus mb b d m rl = render_summary (summary mb b d m rl)"

section \<open>What a scraper reads\<close>

fun undecimal :: "nat \<Rightarrow> rstr \<Rightarrow> nat" where
  "undecimal acc [] = acc"
| "undecimal acc (c # cs) = undecimal (10 * acc + (c - 48)) cs"

text \<open>A scraper skips comments and splits the other lines at the space.\<close>

definition scrape_line :: "rstr \<Rightarrow> (rstr \<times> nat) option" where
  "scrape_line l =
     (case split_on 32 l of
        [name, v] \<Rightarrow> if name \<noteq> [] \<and> hd name = 35 then None else Some (name, undecimal 0 v)
      | _ \<Rightarrow> None)"

definition scrape :: "rstr \<Rightarrow> (rstr \<times> nat) list" where
  "scrape text = List.map_filter scrape_line (split_on 10 text)"

lemma undecimal_append: "undecimal acc (xs @ ys) = undecimal (undecimal acc xs) ys"
  by (induction acc xs rule: undecimal.induct) simp_all

declare decimal.simps [simp del]

lemma undecimal_decimal: "undecimal 0 (decimal n) = n"
  by (induction n rule: decimal.induct) (subst decimal.simps, simp add: undecimal_append)

lemma decimal_chars: "c \<in> set (decimal n) \<Longrightarrow> 48 \<le> c \<and> c < 58"
proof (induction n rule: decimal.induct)
  case (1 n)
  show ?case
  proof (cases "n < 10")
    case True
    with 1(2) show ?thesis by (simp add: decimal.simps [of n])
  next
    case False
    with 1(2) have "c \<in> set (decimal (n div 10)) \<or> c = 48 + n mod 10" by (subst (asm) decimal.simps) auto
    with 1(1) [OF False] show ?thesis by auto
  qed
qed

text \<open>Names and types are free of the characters that structure the text.\<close>

definition plain :: "rstr \<Rightarrow> bool" where
  "plain cs \<longleftrightarrow> cs \<noteq> [] \<and> (\<forall>c \<in> set cs. c \<noteq> 10 \<and> c \<noteq> 32 \<and> c \<noteq> 35)"

lemma metric_table_plain: "(kind, name, v) \<in> set (metric_table s) \<Longrightarrow> plain kind \<and> plain name"
  by (auto simp: metric_table_def plain_def str_def)

lemma metric_line_lines:
  assumes "plain kind" and "plain name"
  shows "split_on 10 (metric_line kind name v @ rest) =
    (str ''# TYPE '' @ name @ 32 # kind) # (name @ 32 # decimal (unat v)) # split_on 10 rest"
proof -
  have "10 \<notin> set (str ''# TYPE '' @ name @ 32 # kind)" using assms by (auto simp: plain_def str_def)
  moreover have "10 \<notin> set (name @ 32 # decimal (unat v))" using assms decimal_chars [of 10] by (auto simp: plain_def)
  moreover have "metric_line kind name v @ rest =
      (str ''# TYPE '' @ name @ 32 # kind) @ 10 # (name @ 32 # decimal (unat v)) @ 10 # rest"
    by (simp add: metric_line_def)
  ultimately show ?thesis by (simp only: split_on_append not_False_eq_True)
qed

lemma scrape_type_line:
  assumes "plain kind" and "plain name"
  shows "scrape_line (str ''# TYPE '' @ name @ 32 # kind) = None"
proof -
  have "32 \<notin> set name" "32 \<notin> set kind" using assms by (auto simp: plain_def)
  moreover have "str ''# TYPE '' @ name @ 32 # kind = [35] @ 32 # [84, 89, 80, 69] @ 32 # name @ 32 # kind" by (simp add: str_def)
  ultimately have "split_on 32 (str ''# TYPE '' @ name @ 32 # kind) = [[35], [84, 89, 80, 69], name, kind]"
    by (simp only: split_on_append split_on_sep_free) (simp add: split_on_append split_on_sep_free)
  then show ?thesis by (simp add: scrape_line_def)
qed

lemma scrape_value_line:
  assumes "plain name"
  shows "scrape_line (name @ 32 # decimal n) = Some (name, n)"
proof -
  have "32 \<notin> set name" "32 \<notin> set (decimal n)" "hd name \<noteq> 35" "name \<noteq> []"
    using assms decimal_chars [of 32 n] by (auto simp: plain_def)
  then show ?thesis by (simp add: scrape_line_def split_on_append split_on_sep_free undecimal_decimal)
qed

lemma scrape_lines:
  assumes "\<forall>(kind, name, v) \<in> set ms. plain kind \<and> plain name"
  shows "scrape (concat (map (\<lambda>(kind, name, v). metric_line kind name v) ms)) = map (\<lambda>(_, name, v). (name, unat v)) ms"
  using assms
proof (induction ms)
  case Nil
  then show ?case by (simp add: scrape_def scrape_line_def List.map_filter_def)
next
  case (Cons m ms)
  obtain kind name v where m: "m = (kind, name, v)" by (cases m rule: prod_cases3)
  with Cons.prems have "plain kind" "plain name" by auto
  then show ?case using Cons m
    by (simp add: scrape_def metric_line_lines List.map_filter_simps scrape_type_line scrape_value_line)
qed

text \<open>The text served to a scraper and the summary of a status reply never drift apart: reading the text back
  gives, in order, exactly the metrics of the summary, each under its own name with its full 64-bit value.\<close>

theorem scrape_reads_summary:
  "scrape (render_prometheus mb b d m rl) = map (\<lambda>(_, name, v). (name, unat v)) (metric_table (summary mb b d m rl))
   \<and> distinct (map (fst \<circ> snd) (metric_table (summary mb b d m rl)))"
proof
  show "scrape (render_prometheus mb b d m rl) = map (\<lambda>(_, name, v). (name, unat v)) (metric_table (summary mb b d m rl))"
    unfolding render_prometheus_def render_summary_def by (rule scrape_lines) (auto dest: metric_table_plain)
  show "distinct (map (fst \<circ> snd) (metric_table (summary mb b d m rl)))"
    by (simp add: metric_table_def str_def)
qed

end
