(* ===== verification/Broker_Runs.thy ===== *)
theory Broker_Runs
  imports Broker
begin

text \<open>
  Properties of the broker: an invariant that holds under every interleaving of the critical sections of
  its operations, duplicate suppression, which channels a publish reaches, what subscribers are handed,
  and what a restart recovers.
\<close>

section \<open>Interleavings\<close>

text \<open>
  One step is one critical section, of any task and with any arguments, or a change of the outside world.
  A run of these steps covers every way in which concurrent calls can interleave.
\<close>

inductive broker_step ::
  "('w, 'z) runtime_scheme \<Rightarrow> 's message_store \<Rightarrow> 's broker \<times> 'w \<Rightarrow> 's broker \<times> 'w \<Rightarrow> bool"
  for rt ops where
    step_world: "broker_step rt ops (b, w) (b, w')"
  | step_seen: "broker_step rt ops (b, w) (snd (publish_seen e b), w)"
  | step_persist: "broker_step rt ops (b, w) (publish_persist ops e b, w)"
  | step_exact: "publish_exact rt t e b w = (n, b', w') \<Longrightarrow> broker_step rt ops (b, w) (b', w')"
  | step_patterns: "publish_patterns rt t e b w = (n, b', w') \<Longrightarrow> broker_step rt ops (b, w) (b', w')"
  | step_groups: "publish_groups rt t e b w = (n, b', w') \<Longrightarrow> broker_step rt ops (b, w) (b', w')"
  | step_subscribe_exact: "subscribe_exact rt t b w = (r, b', w') \<Longrightarrow> broker_step rt ops (b, w) (b', w')"
  | step_subscribe_pattern: "subscribe_pattern rt f b w = (r, b', w') \<Longrightarrow> broker_step rt ops (b, w) (b', w')"
  | step_delivered: "broker_step rt ops (b, w) (record_delivered ops p t i b, w)"
  | step_join: "broker_step rt ops (b, w) (broker_join_group f name s ack b, w)"
  | step_leave: "broker_step rt ops (b, w) (broker_leave_group f name s b, w)"
  | step_ack: "broker_step rt ops (b, w) (broker_ack_group_delivery f name i b, w)"
  | step_sweep: "broker_sweep_group_leases rt now timeout mx b w = Returns (es, b', w') \<Longrightarrow> broker_step rt ops (b, w) (b', w')"
  | step_rehydrate_buffer: "rehydrate_buffer rt t es b w = (b', w') \<Longrightarrow> broker_step rt ops (b, w) (b', w')"
  | step_rehydrate_retained: "rehydrate_retained rt t e b w = (b', w') \<Longrightarrow> broker_step rt ops (b, w) (b', w')"

lemma groups_part_ok: "broker_ok b \<Longrightarrow> groups_ok gs \<Longrightarrow> broker_ok (b\<lparr>br_groups := gs\<rparr>)"
  by (simp add: broker_ok_def)

lemma store_part_ok: "broker_ok b \<Longrightarrow> broker_ok (b\<lparr>br_store := s\<rparr>)"
  by (simp add: broker_ok_def)

lemma broker_ok_groups: "broker_ok b \<Longrightarrow> groups_ok (br_groups b)"
  by (simp add: broker_ok_def)

lemma broker_sweep_total:
  assumes "broker_ok b"
  shows "\<exists>es b' w'. broker_sweep_group_leases rt now timeout mx b w = Returns (es, b', w') \<and> broker_ok b'"
  using sweep_group_leases_spec [OF broker_ok_groups [OF assms], of rt now timeout mx w] assms
  by (auto simp: broker_sweep_group_leases_def intro: groups_part_ok)

lemma broker_step_ok:
  assumes "broker_step rt ops (b, w) (b', w')" and "broker_ok b"
  shows "broker_ok b'"
  using assms(1)
proof cases
  case (step_exact t e n)
  with publish_exact_ok [OF assms(2), of rt t e w] show ?thesis by simp
next
  case (step_patterns t e n)
  with publish_patterns_ok [OF assms(2), of rt t e w] show ?thesis by simp
next
  case (step_groups t e n)
  with publish_groups_ok [OF assms(2), of rt t e w] show ?thesis by simp
next
  case (step_subscribe_exact t r)
  with subscribe_exact_ok [OF assms(2), of rt t w] show ?thesis by simp
next
  case (step_subscribe_pattern f r)
  with subscribe_pattern_ok [OF assms(2), of rt f w] show ?thesis by simp
next
  case (step_sweep now timeout mx es)
  with broker_sweep_total [OF assms(2), of rt now timeout mx w] show ?thesis by auto
next
  case (step_rehydrate_buffer t es)
  with rehydrate_buffer_ok [OF assms(2), of rt t es w] show ?thesis by simp
next
  case (step_rehydrate_retained t e)
  with rehydrate_retained_ok [OF assms(2), of rt t e w] show ?thesis by simp
qed (use assms(2) in \<open>auto simp: record_delivered_def broker_join_group_def broker_leave_group_def
       broker_ack_group_delivery_def split: option.splits
       intro: publish_seen_ok publish_persist_ok store_part_ok groups_part_ok groups_ok_join groups_ok_leave
         groups_ok_ack broker_ok_groups\<close>)

interpretation broker_run: invariant_machine "broker_step rt ops" "\<lambda>bw. broker_ok (fst bw)" for rt ops
proof unfold_locales
  fix s s'
  assume "broker_step rt ops s s'" "broker_ok (fst s)"
  then show "broker_ok (fst s')" using broker_step_ok [of rt ops "fst s" "snd s" "fst s'" "snd s'"] by simp
qed




section \<open>Duplicates\<close>

lemma seen_record_mem:
  assumes "seen_ok s" and "0 < si_capacity s"
  shows "i \<in> si_set (snd (seen_record i s))"
proof (cases "i \<in> si_set s")
  case False
  have "i \<in> set (fst (push_capped (si_capacity s) i (si_order s)))"
    using assms(2) by (cases "si_order s") (auto simp: push_capped_def Let_def)
  with False seen_record_ok [OF assms(1), of i] seen_record_new [of i s] show ?thesis by (simp add: seen_ok_def)
qed (simp add: seen_record_def)

lemma publish_duplicate:
  "env_id e \<in> si_set (br_seen b) \<Longrightarrow> broker_publish rt ops t e b w = (0, b, w)"
  by (simp add: broker_publish_def publish_seen_def seen_record_def)

text \<open>What each section leaves alone, and the sections of a publish that is not a duplicate.\<close>

lemma publish_exact_seen: "br_seen (fst (snd (publish_exact rt t e b w))) = br_seen b"
  by (auto simp: publish_exact_def topic_channel_of_def Let_def split: prod.splits)

lemma publish_patterns_frame: "br_seen (fst (snd (publish_patterns rt t e b w))) = br_seen b"
  "br_topics (fst (snd (publish_patterns rt t e b w))) = br_topics b"
  "br_patterns (fst (snd (publish_patterns rt t e b w))) = br_patterns b"
  by (auto simp: publish_patterns_def split: prod.splits)

lemma publish_groups_frame: "br_seen (fst (snd (publish_groups rt t e b w))) = br_seen b"
  "br_topics (fst (snd (publish_groups rt t e b w))) = br_topics b"
  "br_patterns (fst (snd (publish_groups rt t e b w))) = br_patterns b"
  "br_channels (fst (snd (publish_groups rt t e b w))) = br_channels b"
  by (auto simp: publish_groups_def split: prod.splits)

lemma publish_persist_frame: "br_seen (publish_persist ops e b) = br_seen b"
  "br_topics (publish_persist ops e b) = br_topics b" "br_patterns (publish_persist ops e b) = br_patterns b"
  "br_channels (publish_persist ops e b) = br_channels b" "br_groups (publish_persist ops e b) = br_groups b"
  by (auto simp: publish_persist_def Let_def split: option.splits prod.splits)

lemma publish_seen_frame: "br_seen (snd (publish_seen e b)) = snd (seen_record (env_id e) (br_seen b))"
  "br_topics (snd (publish_seen e b)) = br_topics b" "br_patterns (snd (publish_seen e b)) = br_patterns b"
  "br_channels (snd (publish_seen e b)) = br_channels b" "br_groups (snd (publish_seen e b)) = br_groups b"
  "br_store (snd (publish_seen e b)) = br_store b"
  by (simp_all add: publish_seen_def split: prod.splits bool.splits)

lemma broker_publish_sections:
  assumes "env_id e \<notin> si_set (br_seen b)" and "broker_publish rt ops t e b w = (n, b4, w4)"
  obtains b1 n1 b2 w2 n2 b3 w3 n3 where "b1 = publish_persist ops e (snd (publish_seen e b))"
    "publish_exact rt t e b1 w = (n1, b2, w2)" "publish_patterns rt t e b2 w2 = (n2, b3, w3)"
    "publish_groups rt t e b3 w3 = (n3, b4, w4)" "n = n1 + n2 + n3"
proof -
  have "fst (publish_seen e b)"
    using assms(1) by (simp add: publish_seen_def seen_record_def)
  then show thesis using assms(2) that
    by (auto simp: broker_publish_def Let_def split: prod.splits)
qed

lemma broker_publish_seen:
  assumes "broker_publish rt ops t e b w = (n, b4, w4)"
  shows "br_seen b4 = snd (seen_record (env_id e) (br_seen b))"
proof (cases "env_id e \<in> si_set (br_seen b)")
  case True
  with assms publish_duplicate [of e b rt ops t w] show ?thesis by (simp add: seen_record_def)
next
  case False
  from broker_publish_sections [OF False assms] obtain b1 n1 b2 w2 n2 b3 w3 n3 where
    "b1 = publish_persist ops e (snd (publish_seen e b))" "publish_exact rt t e b1 w = (n1, b2, w2)"
    "publish_patterns rt t e b2 w2 = (n2, b3, w3)" "publish_groups rt t e b3 w3 = (n3, b4, w4)" by metis
  then show ?thesis
    using publish_exact_seen [of rt t e b1 w] publish_patterns_frame(1) [of rt t e b2 w2]
      publish_groups_frame(1) [of rt t e b3 w3]
    by (simp add: publish_persist_frame publish_seen_frame)
qed

text \<open>A message is delivered once: publishing an id again, however the copy arrives and on whatever topic it
  claims, delivers to nobody and changes nothing, neither in the broker nor outside it.\<close>

theorem publish_once:
  assumes "broker_ok b" and "0 < si_capacity (br_seen b)"
    and "broker_publish rt ops t e b w = (n, b1, w1)" and "env_id copy = env_id e"
  shows "broker_publish rt ops t' copy b1 w2 = (0, b1, w2)"
proof -
  have "br_seen b1 = snd (seen_record (env_id e) (br_seen b))"
    by (rule broker_publish_seen [OF assms(3)])
  then have "env_id copy \<in> si_set (br_seen b1)"
    using seen_record_mem [of "br_seen b" "env_id e"] assms(1,2,4) by (simp add: broker_ok_def)
  then show ?thesis by (rule publish_duplicate)
qed

theorem publish_once_witness:
  "\<exists>n b1 w1. broker_publish world_rt (sqlite_message_store example_env) (Topic [97]) (example_publish 1) broker_new world0
       = (n, b1, w1)
     \<and> broker_publish world_rt (sqlite_message_store example_env) (Topic [98]) (example_publish 1) b1 w1 = (0, b1, w1)"
proof -
  obtain n b1 w1 where p: "broker_publish world_rt (sqlite_message_store example_env) (Topic [97]) (example_publish 1) broker_new world0
       = (n, b1, w1)" by (metis prod_cases3)
  have "broker_ok (broker_new :: sqlite_store broker)" by (simp add: broker_new_def broker_default_ok)
  moreover have "0 < si_capacity (br_seen (broker_new :: sqlite_store broker))"
    by (simp add: broker_new_def broker_default_def seen_new_def DEFAULT_DEDUP_CAPACITY_def)
  ultimately show ?thesis using publish_once [OF _ _ p refl, of "Topic [98]" w1] p by blast
qed

section \<open>Where a message goes\<close>

lemma patterns_publish_nth:
  assumes "distinct (map snd ps)" and "\<forall>(f, a) \<in> set ps. a < length h"
  shows "fst (snd (patterns_publish rt t e ps h w)) ! i =
    (if \<exists>f. (f, i) \<in> set ps \<and> filter_matches f t then channel_store e False (h ! i) else h ! i)"
  using assms
proof (induction ps arbitrary: h w)
  case (Cons fa ps)
  obtain f a where fa: "fa = (f, a)" by fastforce
  have a: "a < length h" "a \<notin> snd ` set ps" using Cons.prems by (simp_all add: fa)
  show ?case
  proof (cases "filter_matches f t")
    case True
    obtain n ch w' where p: "channel_publish rt e False (h ! a) w = (n, ch, w')" by (metis prod_cases3)
    have ch: "ch = channel_store e False (h ! a)"
      using channel_publish_state [of rt e False "h ! a" w] by (simp add: p)
    have "fst (snd (patterns_publish rt t e (fa # ps) h w)) = fst (snd (patterns_publish rt t e ps (h[a := ch]) w'))"
      using True by (cases "patterns_publish rt t e ps (h[a := ch]) w'" rule: prod_cases3) (simp add: fa p)
    moreover have "fst (snd (patterns_publish rt t e ps (h[a := ch]) w')) ! i =
        (if \<exists>f. (f, i) \<in> set ps \<and> filter_matches f t then channel_store e False (h[a := ch] ! i) else h[a := ch] ! i)"
      using Cons.prems by (intro Cons.IH) auto
    ultimately show ?thesis
      using True a by (cases "i = a") (force simp: fa ch)+
  next
    case False
    then have "fst (snd (patterns_publish rt t e (fa # ps) h w)) = fst (snd (patterns_publish rt t e ps h w))"
      by (simp add: fa)
    moreover have "fst (snd (patterns_publish rt t e ps h w)) ! i =
        (if \<exists>f. (f, i) \<in> set ps \<and> filter_matches f t then channel_store e False (h ! i) else h ! i)"
      using Cons.prems by (intro Cons.IH) auto
    ultimately show ?thesis using False by (auto simp: fa)
  qed
qed simp

lemma own_channels_distinct:
  assumes "own_channels tm" and "distinct (map fst (tm_map tm))"
  shows "distinct (map snd (tm_map tm))"
proof -
  have "inj_on snd (set (tm_map tm))"
    using assms by (simp add: own_channels_def inj_on_def) (metis prod.collapse)
  moreover have "distinct (tm_map tm)" using assms(2) by (simp add: distinct_map)
  ultimately show ?thesis by (simp add: distinct_map)
qed

lemma publish_patterns_channels:
  assumes "broker_ok b"
  shows "br_channels (fst (snd (publish_patterns rt t e b w))) ! i =
    (if \<exists>f. map_of (tm_map (br_patterns b)) f = Some i \<and> filter_matches f t
     then channel_store e False (br_channels b ! i) else br_channels b ! i)"
proof -
  have ok: "own_channels (br_patterns b)" "distinct (map fst (tm_map (br_patterns b)))"
    using assms by (simp_all add: broker_ok_def tm_ok_def)
  have "\<forall>(f, a) \<in> set (tm_map (br_patterns b)). a < length (br_channels b)"
    using assms ok(2) by (force simp: broker_ok_def tm_ok_def)
  from patterns_publish_nth [OF own_channels_distinct [OF ok] this, of rt t e w i] show ?thesis
    using ok(2) by (cases "patterns_publish rt t e (tm_map (br_patterns b)) (br_channels b) w" rule: prod_cases3)
      (simp add: publish_patterns_def)
qed

lemma get_or_insert_present:
  assumes "get_or_insert rt k tm h ev w = (a, tm', h', ev', w')"
    and "k \<in> keys (tm_map tm) \<or> length (tm_map tm) < DEFAULT_TOPIC_MAP_CAPACITY"
  shows "map_of (tm_map tm') = (map_of (tm_map tm))(k \<mapsto> a)"
  using assms(1)
proof (cases rule: get_or_insert_cases)
  case old
  then have "tm_map tm' = tm_map tm" by (simp add: tm_touch_def split: option.splits)
  with old show ?thesis by (auto simp: fun_eq_iff)
next
  case (new ch)
  have k: "k \<notin> keys (tm_map tm)" using new(1) by (simp add: map_of_None_keys)
  then have "tm' = tm\<lparr>tm_map := AList.update k a (tm_map tm), tm_order := tm_order tm @ [k]\<rparr>"
    using new(5) assms(2) by (simp add: evict_over_capacity_def length_update_new [OF k])
  then show ?thesis by simp
qed

text \<open>The exact section: the channel of the topic, fresh or not, gets the message.\<close>

definition channel_at :: "'k \<Rightarrow> 'k topic_map \<Rightarrow> heap \<Rightarrow> topic_channel option" where
  "channel_at k tm h = map_option (\<lambda>a. h ! a) (map_of (tm_map tm) k)"

lemma publish_exact_channels:
  assumes "broker_ok b" and "publish_exact rt t e b w = (n, b', w')"
    and "t \<in> keys (tm_map (br_topics b)) \<or> length (tm_map (br_topics b)) < DEFAULT_TOPIC_MAP_CAPACITY"
  obtains a where "map_of (tm_map (br_topics b')) = (map_of (tm_map (br_topics b)))(t \<mapsto> a)"
    "tc_buffer (br_channels b' ! a) = push_buffer e (case channel_at t (br_topics b) (br_channels b) of None \<Rightarrow> [] | Some ch \<Rightarrow> tc_buffer ch)"
    "tc_retained (br_channels b' ! a) =
       (if publish_retain e then (if is_empty_publish (env_kind e) then None else Some e)
        else (case channel_at t (br_topics b) (br_channels b) of None \<Rightarrow> None | Some ch \<Rightarrow> tc_retained ch))"
    "\<And>i. i < length (br_channels b) \<Longrightarrow> i \<noteq> a \<Longrightarrow> br_channels b' ! i = br_channels b ! i"
    "br_patterns b' = br_patterns b" "a \<notin> addrs (br_patterns b)" "broker_ok b'"
proof -
  obtain a tm h ev w1 where goi: "get_or_insert rt t (br_topics b) (br_channels b) (br_topic_evictions b) w = (a, tm, h, ev, w1)"
    by (metis prod_cases5)
  let ?b1 = "b\<lparr>br_topics := tm, br_channels := h, br_topic_evictions := ev\<rparr>"
  have tc: "topic_channel_of rt t b w = (a, ?b1, w1)" by (simp add: topic_channel_of_def goi)
  have ok: "tm_ok (br_channels b) (br_topics b)" using assms(1) by (simp add: broker_ok_def)
  have a: "a < length h" using tm_ok_get_or_insert(2) [OF ok goi] .
  obtain m ch w2 where p: "channel_publish rt e (publish_retain e) (h ! a) w1 = (m, ch, w2)" by (metis prod_cases3)
  have ch: "ch = channel_store e (publish_retain e) (h ! a)"
    using channel_publish_state [of rt e "publish_retain e" "h ! a" w1] by (simp add: p)
  have b': "b' = ?b1\<lparr>br_channels := h[a := ch]\<rparr>" using assms(2) by (simp add: publish_exact_def tc p)
  have old: "h ! i = br_channels b ! i" if "i < length (br_channels b)" for i
    using get_or_insert_heap [OF goi] that by (auto simp: nth_append)
  have at: "case channel_at t (br_topics b) (br_channels b) of
      None \<Rightarrow> tc_buffer (h ! a) = [] \<and> tc_retained (h ! a) = None | Some c \<Rightarrow> h ! a = c"
    using goi
  proof (cases rule: get_or_insert_cases)
    case old
    then show ?thesis by (simp add: channel_at_def)
  next
    case (new c)
    then have "h ! a = c" "tc_buffer c = []" "tc_retained c = None" by (auto simp: channel_new_def split: prod.splits)
    with new(1) show ?thesis by (simp add: channel_at_def)
  qed
  show thesis
  proof (rule that [of a])
    show "map_of (tm_map (br_topics b')) = (map_of (tm_map (br_topics b)))(t \<mapsto> a)"
      using get_or_insert_present [OF goi assms(3)] by (simp add: b')
    show "tc_buffer (br_channels b' ! a) = push_buffer e (case channel_at t (br_topics b) (br_channels b) of None \<Rightarrow> [] | Some ch \<Rightarrow> tc_buffer ch)"
      using at a by (auto simp: b' ch channel_store_def split: option.splits)
    show "tc_retained (br_channels b' ! a) = (if publish_retain e then (if is_empty_publish (env_kind e) then None else Some e)
        else (case channel_at t (br_topics b) (br_channels b) of None \<Rightarrow> None | Some ch \<Rightarrow> tc_retained ch))"
      using at a by (auto simp: b' ch channel_store_def split: option.splits)
    show "br_channels b' ! i = br_channels b ! i" if "i < length (br_channels b)" "i \<noteq> a" for i
      using that old by (simp add: b')
    show "br_patterns b' = br_patterns b" by (simp add: b')
    show "a \<notin> addrs (br_patterns b)" using topic_channel_of_ok(3,4) [OF assms(1) tc] by simp
    show "broker_ok b'" using publish_exact_ok [OF assms(1), of rt t e w] by (simp add: assms(2))
  qed
qed

lemma publish_channels:
  assumes "broker_ok b" and "env_id e \<notin> si_set (br_seen b)" and "broker_publish rt ops t e b w = (n, b', w')"
    and "t \<in> keys (tm_map (br_topics b)) \<or> length (tm_map (br_topics b)) < DEFAULT_TOPIC_MAP_CAPACITY"
  shows "\<exists>ch. channel_at t (br_topics b') (br_channels b') = Some ch
    \<and> tc_buffer ch = push_buffer e (case channel_at t (br_topics b) (br_channels b) of None \<Rightarrow> [] | Some c \<Rightarrow> tc_buffer c)
    \<and> tc_retained ch = (if publish_retain e then (if is_empty_publish (env_kind e) then None else Some e)
        else (case channel_at t (br_topics b) (br_channels b) of None \<Rightarrow> None | Some c \<Rightarrow> tc_retained c))
    \<and> (\<forall>u. u \<noteq> t \<longrightarrow> channel_at u (br_topics b') (br_channels b') = channel_at u (br_topics b) (br_channels b))
    \<and> (\<forall>f. channel_at f (br_patterns b') (br_channels b') =
            map_option (\<lambda>c. if filter_matches f t then channel_store e False c else c)
              (channel_at f (br_patterns b) (br_channels b)))"
proof -
  from broker_publish_sections [OF assms(2,3)] obtain b1 n1 b2 w2 n2 b3 w3 n3 where
    b1: "b1 = publish_persist ops e (snd (publish_seen e b))"
    and p2: "publish_exact rt t e b1 w = (n1, b2, w2)" and p3: "publish_patterns rt t e b2 w2 = (n2, b3, w3)"
    and p4: "publish_groups rt t e b3 w3 = (n3, b', w')" by metis
  have eq1: "br_topics b1 = br_topics b" "br_patterns b1 = br_patterns b" "br_channels b1 = br_channels b"
    by (simp_all add: b1 publish_persist_frame publish_seen_frame)
  have ok1: "broker_ok b1" unfolding b1 by (intro publish_persist_ok publish_seen_ok assms(1))
  from publish_exact_channels [OF ok1 p2] assms(4) obtain a where
    m2: "map_of (tm_map (br_topics b2)) = (map_of (tm_map (br_topics b)))(t \<mapsto> a)"
    and buf: "tc_buffer (br_channels b2 ! a) = push_buffer e (case channel_at t (br_topics b) (br_channels b) of None \<Rightarrow> [] | Some ch \<Rightarrow> tc_buffer ch)"
    and ret: "tc_retained (br_channels b2 ! a) = (if publish_retain e then (if is_empty_publish (env_kind e) then None else Some e)
        else (case channel_at t (br_topics b) (br_channels b) of None \<Rightarrow> None | Some ch \<Rightarrow> tc_retained ch))"
    and other: "\<And>i. i < length (br_channels b) \<Longrightarrow> i \<noteq> a \<Longrightarrow> br_channels b2 ! i = br_channels b ! i"
    and pat: "br_patterns b2 = br_patterns b" "a \<notin> addrs (br_patterns b)" and ok2: "broker_ok b2"
    unfolding eq1 by blast
  have final: "br_topics b' = br_topics b2" "br_patterns b' = br_patterns b" "br_channels b' = br_channels b3"
    using publish_groups_frame [of rt t e b3 w3] publish_patterns_frame [of rt t e b2 w2] by (simp_all add: p4 p3 pat)
  have ch3: "br_channels b3 ! i = (if \<exists>f. map_of (tm_map (br_patterns b)) f = Some i \<and> filter_matches f t
      then channel_store e False (br_channels b2 ! i) else br_channels b2 ! i)" for i
    using publish_patterns_channels [OF ok2, of rt t e w2 i] by (simp add: p3 pat)
  have sep: "addrs (br_topics b) \<inter> addrs (br_patterns b) = {}" "own_channels (br_patterns b)" "own_channels (br_topics b2)"
    "addrs (br_topics b2) \<inter> addrs (br_patterns b) = {}"
    using assms(1) ok2 pat(1) by (simp_all add: broker_ok_def)
  have topic: "br_channels b3 ! x = br_channels b2 ! x" if "x \<in> addrs (br_topics b2)" for x
    using ch3 [of x] sep(4) that by (auto simp: ran_def)
  have rest: "channel_at u (br_topics b') (br_channels b') = channel_at u (br_topics b) (br_channels b)" if "u \<noteq> t" for u
  proof (cases "map_of (tm_map (br_topics b)) u")
    case (Some x)
    then have x: "map_of (tm_map (br_topics b2)) u = Some x" using m2 that by simp
    have "x \<noteq> a" using sep(3) x m2 that unfolding own_channels_def by (metis fun_upd_same)
    moreover have "x < length (br_channels b)" using assms(1) Some by (auto simp: broker_ok_def tm_ok_def)
    ultimately show ?thesis using other [of x] topic [of x] x Some by (auto simp: channel_at_def final ran_def)
  qed (use m2 that in \<open>simp add: channel_at_def final\<close>)
  have pats: "channel_at f (br_patterns b') (br_channels b') = map_option (\<lambda>c. if filter_matches f t then channel_store e False c else c)
      (channel_at f (br_patterns b) (br_channels b))" for f
  proof (cases "map_of (tm_map (br_patterns b)) f")
    case (Some x)
    then have "x \<noteq> a" "x < length (br_channels b)"
      using pat(2) assms(1) by (auto simp: ran_def broker_ok_def tm_ok_def)
    moreover have "(\<exists>g. map_of (tm_map (br_patterns b)) g = Some x \<and> filter_matches g t) \<longleftrightarrow> filter_matches f t"
      using sep(2) Some unfolding own_channels_def by metis
    ultimately show ?thesis using ch3 [of x] other [of x] Some by (simp add: channel_at_def final)
  qed (simp add: channel_at_def final)
  have "a \<in> addrs (br_topics b2)" using m2 by (auto simp: ran_def)
  with topic [of a] m2 buf ret rest pats show ?thesis by (simp add: channel_at_def final)
qed

text \<open>C4. A new message reaches exactly the channels it should: it is appended to the replay buffer of its topic (and
  becomes its retained message when asked, or clears it with an empty payload) and to the buffer of every
  registered pattern that matches the topic, and every other channel is unchanged. The registry must hold the
  topic already or have room for it.\<close>

theorem publish_reaches_exactly:
  assumes "broker_ok b" and "env_id e \<notin> si_set (br_seen b)" and "broker_publish rt ops t e b w = (n, b', w')"
    and "t \<in> keys (tm_map (br_topics b)) \<or> length (tm_map (br_topics b)) < DEFAULT_TOPIC_MAP_CAPACITY"
  shows "\<exists>ch. channel_at t (br_topics b') (br_channels b') = Some ch
    \<and> tc_buffer ch = push_buffer e (case channel_at t (br_topics b) (br_channels b) of None \<Rightarrow> [] | Some c \<Rightarrow> tc_buffer c)
    \<and> tc_retained ch = (if publish_retain e then (if is_empty_publish (env_kind e) then None else Some e)
        else (case channel_at t (br_topics b) (br_channels b) of None \<Rightarrow> None | Some c \<Rightarrow> tc_retained c))
    \<and> (\<forall>u. u \<noteq> t \<longrightarrow> channel_at u (br_topics b') (br_channels b') = channel_at u (br_topics b) (br_channels b))
    \<and> (\<forall>f. channel_at f (br_patterns b') (br_channels b') =
            map_option (\<lambda>c. if filter_matches f t then channel_store e False c else c)
              (channel_at f (br_patterns b) (br_channels b)))"
  using assms by (rule publish_channels)

theorem publish_reaches_exactly_witness:
  "\<exists>n b' w' ch. broker_publish world_rt (sqlite_message_store example_env) (Topic [97]) (example_publish 1) broker_new world0
       = (n, b', w')
     \<and> channel_at (Topic [97]) (br_topics b') (br_channels b') = Some ch \<and> tc_buffer ch = [example_publish 1]"
proof -
  obtain n b' w' where p: "broker_publish world_rt (sqlite_message_store example_env) (Topic [97]) (example_publish 1) broker_new world0
       = (n, b', w')" by (metis prod_cases3)
  have "broker_ok (broker_new :: sqlite_store broker)" by (simp add: broker_new_def broker_default_ok)
  moreover have "env_id (example_publish 1) \<notin> si_set (br_seen (broker_new :: sqlite_store broker))"
    by (simp add: broker_new_def broker_default_def seen_new_def)
  moreover have "length (tm_map (br_topics (broker_new :: sqlite_store broker))) < DEFAULT_TOPIC_MAP_CAPACITY"
    by (simp add: broker_new_def broker_default_def topic_map_empty_def DEFAULT_TOPIC_MAP_CAPACITY_def)
  moreover have "channel_at (Topic [97]) (br_topics (broker_new :: sqlite_store broker)) (br_channels (broker_new :: sqlite_store broker)) = None"
    by (simp add: broker_new_def broker_default_def topic_map_empty_def channel_at_def)
  moreover have "push_buffer (example_publish 1) [] = [example_publish 1]"
    by (simp add: push_buffer_def DEFAULT_REPLAY_BUFFER_CAPACITY_def)
  ultimately show ?thesis using publish_reaches_exactly [OF _ _ p] p by auto
qed

section \<open>What a subscriber is handed\<close>

lemma distinct_sort_key_map: "distinct (map f (sort_key f xs)) = distinct (map f xs)"
  using map_sort_key [of f "\<lambda>x. x" xs] by simp

lemma gather_loop_spec:
  "\<exists>rs. gather_loop f h ts backlog = backlog @ rs
     \<and> set rs \<subseteq> {r. \<exists>t a. (t, a) \<in> set ts \<and> filter_matches f t \<and> tc_retained (h ! a) = Some r}
     \<and> (distinct (map env_id backlog) \<longrightarrow> distinct (map env_id (gather_loop f h ts backlog)))
     \<and> (\<forall>t a r. (t, a) \<in> set ts \<and> filter_matches f t \<and> tc_retained (h ! a) = Some r
          \<longrightarrow> env_id r \<in> env_id ` set (gather_loop f h ts backlog))"
proof (induction ts arbitrary: backlog)
  case (Cons ta ts)
  obtain t a where ta: "ta = (t, a)" by fastforce
  show ?case
  proof (cases "filter_matches f t \<and> tc_retained (h ! a) \<noteq> None")
    case False
    then have step: "gather_loop f h (ta # ts) backlog = gather_loop f h ts backlog"
      by (auto simp: ta retained_snapshot_def)
    from Cons [of backlog] obtain rs where rs: "gather_loop f h ts backlog = backlog @ rs"
      "set rs \<subseteq> {r. \<exists>t a. (t, a) \<in> set ts \<and> filter_matches f t \<and> tc_retained (h ! a) = Some r}"
      "distinct (map env_id backlog) \<longrightarrow> distinct (map env_id (gather_loop f h ts backlog))"
      "\<forall>t a r. (t, a) \<in> set ts \<and> filter_matches f t \<and> tc_retained (h ! a) = Some r
         \<longrightarrow> env_id r \<in> env_id ` set (gather_loop f h ts backlog)" by blast
    have "set rs \<subseteq> {r. \<exists>t a. (t, a) \<in> set (ta # ts) \<and> filter_matches f t \<and> tc_retained (h ! a) = Some r}"
      using rs(2) by (simp only: list.set(2) insert_iff) blast
    moreover have "\<forall>t a r. (t, a) \<in> set (ta # ts) \<and> filter_matches f t \<and> tc_retained (h ! a) = Some r
         \<longrightarrow> env_id r \<in> env_id ` set (gather_loop f h ts backlog)"
      using rs(4) False by (auto simp: ta simp del: image_iff)
    ultimately show ?thesis unfolding step using rs(1,3) by blast
  next
    case True
    then obtain r where r: "filter_matches f t" "tc_retained (h ! a) = Some r" by auto
    let ?bl = "if env_id r \<in> env_id ` set backlog then backlog else backlog @ [r]"
    have step: "gather_loop f h (ta # ts) backlog = gather_loop f h ts ?bl"
      using r by (simp add: ta retained_snapshot_def list_ex_image)
    from Cons [of ?bl] obtain rs where rs: "gather_loop f h ts ?bl = ?bl @ rs"
      "set rs \<subseteq> {r. \<exists>t a. (t, a) \<in> set ts \<and> filter_matches f t \<and> tc_retained (h ! a) = Some r}"
      "distinct (map env_id ?bl) \<longrightarrow> distinct (map env_id (gather_loop f h ts ?bl))"
      "\<forall>t a r. (t, a) \<in> set ts \<and> filter_matches f t \<and> tc_retained (h ! a) = Some r
         \<longrightarrow> env_id r \<in> env_id ` set (gather_loop f h ts ?bl)" by blast
    obtain pre where pre: "?bl = backlog @ pre" "set pre \<subseteq> {r}" by (cases "env_id r \<in> env_id ` set backlog") auto
    have "env_id r \<in> env_id ` set (gather_loop f h ts ?bl)" using rs(1) by auto
    moreover have "gather_loop f h ts ?bl = backlog @ (pre @ rs)" using rs(1) pre(1) by simp
    moreover have "set (pre @ rs) \<subseteq> {r. \<exists>t a. (t, a) \<in> set (ta # ts) \<and> filter_matches f t \<and> tc_retained (h ! a) = Some r}"
      using rs(2) pre(2) r unfolding ta set_append list.set(2) insert_iff by blast
    moreover have "distinct (map env_id backlog) \<longrightarrow> distinct (map env_id ?bl)" by auto
    ultimately show ?thesis unfolding step using rs(3,4) r by (auto simp: ta)
  qed
qed simp



definition all_filter :: topic_filter where
  "all_filter = TopicFilter [35]"

lemma all_filter_wildcard: "as_topic all_filter = None"
  by (simp add: all_filter_def as_topic_def is_literal_def wildcard_defs)


text \<open>Merging the in-memory backlog into the catch-up.\<close>

lemma merge_buffered_spec:
  "\<exists>es'. merge_buffered last_id es backlog = backlog @ es'
     \<and> set es' \<subseteq> {e \<in> set es. \<forall>l. last_id = Some l \<longrightarrow> l < env_id e}
     \<and> (distinct (map env_id backlog) \<longrightarrow> distinct (map env_id (merge_buffered last_id es backlog)))
     \<and> (\<forall>e \<in> set es. (\<forall>l. last_id = Some l \<longrightarrow> l < env_id e) \<longrightarrow> env_id e \<in> env_id ` set (merge_buffered last_id es backlog))"
proof (induction es arbitrary: backlog)
  case (Cons e es)
  show ?case
  proof (cases "\<forall>l. last_id = Some l \<longrightarrow> l < env_id e")
    case False
    then have step: "merge_buffered last_id (e # es) backlog = merge_buffered last_id es backlog"
      by (auto simp: not_less split: option.splits)
    from Cons [of backlog] False show ?thesis unfolding step by (simp add: subset_iff) blast
  next
    case True
    let ?bl = "if env_id e \<in> env_id ` set backlog then backlog else backlog @ [e]"
    have step: "merge_buffered last_id (e # es) backlog = merge_buffered last_id es ?bl"
      using True by (auto simp: list_ex_image split: option.splits)
    from Cons [of ?bl] obtain es' where es': "merge_buffered last_id es ?bl = ?bl @ es'"
      "set es' \<subseteq> {e \<in> set es. \<forall>l. last_id = Some l \<longrightarrow> l < env_id e}"
      "distinct (map env_id ?bl) \<longrightarrow> distinct (map env_id (merge_buffered last_id es ?bl))"
      "\<forall>e \<in> set es. (\<forall>l. last_id = Some l \<longrightarrow> l < env_id e) \<longrightarrow> env_id e \<in> env_id ` set (merge_buffered last_id es ?bl)" by blast
    obtain pre where pre: "?bl = backlog @ pre" "set pre \<subseteq> {e}" by (cases "env_id e \<in> env_id ` set backlog") auto
    have "merge_buffered last_id es ?bl = backlog @ (pre @ es')" using es'(1) pre(1) by simp
    moreover have "set (pre @ es') \<subseteq> {x \<in> set (e # es). \<forall>l. last_id = Some l \<longrightarrow> l < env_id x}"
      using es'(2) pre(2) True unfolding set_append list.set(2) by blast
    moreover have "distinct (map env_id backlog) \<longrightarrow> distinct (map env_id ?bl)" by auto
    moreover have "env_id e \<in> env_id ` set (merge_buffered last_id es ?bl)" using es'(1) by auto
    ultimately show ?thesis unfolding step using es'(3,4) by (metis (no_types, lifting) set_ConsD)
  qed
qed simp


text \<open>A durable subscriber resumes where it stopped: with a recorded position, its backlog is in the order of the
  ids and holds exactly the ids after that position that are persisted for the topic or still buffered; without one, it
  is the ordinary backlog. A message whose id is not after the recorded position is never handed out, even when it
  was published later. (Assumes that the SQL statements succeed and that the decoder undoes the encoder.)\<close>

theorem durable_backlog:
  assumes "healthy env" and "sqlite_ok (se_codec env) s" and "br_store b = Some s" and "as_topic f = Some t"
    and "broker_subscribe rt f b w = ((buffered, r), b', w')"
  shows "\<exists>backlog. subscribe_durable rt (sqlite_message_store env) f p b w = (Inr (backlog, r), b', w')
    \<and> sorted (map env_id backlog)
    \<and> env_id ` set backlog =
        (case sqlite_offs s (p, t) of
           None \<Rightarrow> env_id ` set buffered
         | Some last_id \<Rightarrow> {i \<in> env_id ` (set (sqlite_log (se_codec env) s t) \<union> set buffered). last_id < i})"
proof -
  let ?ops = "sqlite_message_store env" and ?log = "sqlite_log (se_codec env) s t"
  let ?last = "sqlite_offs s (p, t)"
  let ?catchup = "case ?last of None \<Rightarrow> [] | Some l \<Rightarrow> sort_key env_id (filter (\<lambda>e. l < env_id e) ?log)"
  let ?m = "merge_buffered ?last buffered ?catchup"
  have ok: "healthy env \<and> sqlite_ok (se_codec env) s" using assms(1,2) by simp
  have catchup: "durable_catchup ?ops p t s = Returns (Inr (?last, ?catchup))"
    using sqlite.load_offset_law [OF ok, of p t] sqlite.since_law [OF ok, of t]
    by (simp add: durable_catchup_def split: option.split)
  from merge_buffered_spec [of ?last buffered ?catchup] obtain es where m: "?m = ?catchup @ es"
    "set es \<subseteq> {e \<in> set buffered. \<forall>l. ?last = Some l \<longrightarrow> l < env_id e}"
    "\<forall>e \<in> set buffered. (\<forall>l. ?last = Some l \<longrightarrow> l < env_id e) \<longrightarrow> env_id e \<in> env_id ` set ?m" by blast
  have "env_id ` set ?m = (case ?last of None \<Rightarrow> env_id ` set buffered
      | Some l \<Rightarrow> {i \<in> env_id ` (set ?log \<union> set buffered). l < i})"
  proof (cases ?last)
    case None
    with m show ?thesis by auto
  next
    case (Some l)
    have "set ?m = {e \<in> set ?log. l < env_id e} \<union> set es" using m(1) Some by auto
    with m(2,3) Some show ?thesis by auto
  qed
  then show ?thesis
    by (simp add: subscribe_durable_def assms(3,4,5) catchup)
qed

theorem durable_backlog_witness:
  "\<exists>backlog r b' w'. subscribe_durable world_rt (sqlite_message_store example_env) (filter_of_topic (Topic [97])) (PeerId [])
       (with_store sqlite_empty) world0 = (Inr (backlog, r), b', w') \<and> sorted (map env_id backlog)"
proof -
  let ?f = "filter_of_topic (Topic [97])"
  have f: "as_topic ?f = Some (Topic [97])"
    by (simp add: as_topic_def is_literal_def filter_of_topic_def wildcard_defs)
  obtain x b' w' where "broker_subscribe world_rt ?f (with_store sqlite_empty) world0 = (x, b', w')"
    by (metis prod_cases3)
  moreover obtain buffered r where "x = (buffered, r)" by fastforce
  ultimately have sub: "broker_subscribe world_rt ?f (with_store sqlite_empty) world0 = ((buffered, r), b', w')" by simp
  have st: "br_store (with_store sqlite_empty) = Some sqlite_empty" by (simp add: with_store_def)
  from durable_backlog [OF example_env_healthy sqlite_empty_ok(1) st f sub, of "PeerId []"] show ?thesis
    by (elim exE conjE) (intro exI conjI)
qed

section \<open>A race of wildcard subscriptions\<close>

text \<open>A wildcard subscription can hand out a message twice. \<open>subscribe\<close> registers the pattern's receiver under one
  lock and reads the retained messages of the topics under another; when a retained publish runs in between, the
  receiver gets the message, and the backlog holds it as well.\<close>

theorem wildcard_subscribe_duplicates:
  assumes "subscribe_pattern rt f b w = ((backlog, r), b1, w1)" and "broker_ok b" and "as_topic f = None"
    and "env_id e \<notin> si_set (br_seen b1)" and "filter_matches f t"
    and "publish_retain e" and "\<not> is_empty_publish (env_kind e)"
    and "t \<in> keys (tm_map (br_topics b1)) \<or> length (tm_map (br_topics b1)) < DEFAULT_TOPIC_MAP_CAPACITY"
    and "broker_publish rt ops t e b1 w1 = (n, b2, w2)"
    and "channel_at f (br_patterns b1) (br_channels b1) = Some ch"
  shows "env_id e \<in> env_id ` set (gather_retained f backlog b2)
    \<and> channel_at f (br_patterns b2) (br_channels b2) = Some (channel_store e False ch)"
proof -
  have ok1: "broker_ok b1" using subscribe_pattern_ok [OF assms(2), of rt f w] by (simp add: assms(1))
  from publish_channels [OF ok1 assms(4,9,8)] assms(5-7,10) obtain c where
    c: "channel_at t (br_topics b2) (br_channels b2) = Some c" "tc_retained c = Some e"
    and p: "channel_at f (br_patterns b2) (br_channels b2) = Some (channel_store e False ch)" by auto
  from c obtain a where "(t, a) \<in> set (tm_map (br_topics b2))" "tc_retained (br_channels b2 ! a) = Some e"
    by (auto simp: channel_at_def dest: map_of_SomeD)
  with gather_loop_spec [of f "br_channels b2" "tm_map (br_topics b2)" backlog] assms(5)
  have "env_id e \<in> env_id ` set (gather_loop f (br_channels b2) (tm_map (br_topics b2)) backlog)" by blast
  with p show ?thesis by (simp add: gather_retained_def)
qed


definition example_retained :: envelope where
  "example_retained = (example_publish 1)\<lparr>env_kind := Publish (Topic [97]) [1] True None None None\<rparr>"

lemma all_filter_matches: "filter_matches all_filter t"
  by (simp add: filter_matches_def all_filter_def wildcard_defs matches_loop.simps)

text \<open>In the example the receiver of the subscription is the one that the publish counts as served.\<close>

theorem wildcard_subscribe_duplicates_witness:
  "\<exists>backlog r b1 w1 n b2 w2.
     subscribe_pattern world_rt all_filter (broker_new :: sqlite_store broker) world0 = ((backlog, r), b1, w1)
     \<and> broker_publish world_rt (sqlite_message_store example_env) (Topic [97]) example_retained b1 w1 = (n, b2, w2)
     \<and> n = 1 \<and> wd_log w2 = [(0, example_retained)]
     \<and> env_id example_retained \<in> env_id ` set (gather_retained all_filter backlog b2)"
proof -
  let ?b = "broker_new :: sqlite_store broker" and ?ops = "sqlite_message_store example_env"
  let ?ch = "\<lparr>tc_sender = 0, tc_buffer = [], tc_retained = None\<rparr>"
  let ?b1 = "?b\<lparr>br_patterns := \<lparr>tm_map = [(all_filter, 0)], tm_order = [all_filter]\<rparr>, br_channels := [?ch]\<rparr>"
  let ?w1 = "world0\<lparr>wd_handles := 2, wd_receivers := (wd_receivers world0)(0 := 1)\<rparr>"
  have sub: "subscribe_pattern world_rt all_filter ?b world0 = (([], 1), ?b1, ?w1)"
    by (simp add: subscribe_pattern_def pattern_channel_of_def get_or_insert_def broker_new_def broker_default_def
        topic_map_empty_def channel_new_def channel_subscribe_def channel_backlog_def evict_over_capacity_def
        DEFAULT_TOPIC_MAP_CAPACITY_def world_defs numeral_2_eq_2)
  obtain n b2 w2 where pub: "broker_publish world_rt ?ops (Topic [97]) example_retained ?b1 ?w1 = (n, b2, w2)"
    by (metis prod_cases3)
  have served: "n = 1 \<and> wd_log w2 = [(0, example_retained)]"
    using pub by (simp add: broker_publish_def publish_seen_def seen_record_def seen_new_def broker_new_def broker_default_def
        push_capped_def publish_persist_def publish_exact_def topic_channel_of_def get_or_insert_def topic_map_empty_def channel_new_def
        evict_over_capacity_def DEFAULT_TOPIC_MAP_CAPACITY_def DEFAULT_DEDUP_CAPACITY_def channel_publish_def channel_store_def
        publish_patterns_def publish_groups_def world_defs all_filter_matches)
      (auto simp: channel_store_def)
  have "broker_ok ?b" by (simp add: broker_new_def broker_default_ok)
  moreover have "env_id example_retained \<notin> si_set (br_seen ?b1)"
    by (simp add: broker_new_def broker_default_def seen_new_def)
  moreover have "publish_retain example_retained" "\<not> is_empty_publish (env_kind example_retained)"
    by (simp_all add: publish_retain_def example_retained_def)
  moreover have "length (tm_map (br_topics ?b1)) < DEFAULT_TOPIC_MAP_CAPACITY"
    by (simp add: broker_new_def broker_default_def topic_map_empty_def DEFAULT_TOPIC_MAP_CAPACITY_def)
  moreover have "channel_at all_filter (br_patterns ?b1) (br_channels ?b1) = Some ?ch" by (simp add: channel_at_def)
  ultimately have "env_id example_retained \<in> env_id ` set (gather_retained all_filter [] b2)"
    using wildcard_subscribe_duplicates [OF sub _ all_filter_wildcard _ all_filter_matches _ _ _ pub] by blast
  with sub pub served show ?thesis by blast
qed

end
