(* ===== verification/Redelivery.thy ===== *)
theory Redelivery
  imports Messages
begin

text \<open>
  Pending acknowledgements of an ack-tracked subscription (crates/thoth-mesh-node/src/redelivery.rs): what
  was delivered and not yet acknowledged, and the sweep that resends it or gives it up.
\<close>

section \<open>State and operations\<close>

definition DEFAULT_ACK_TIMEOUT :: nat where
  "DEFAULT_ACK_TIMEOUT = 5 * 1000000000"

definition DEFAULT_MAX_REDELIVERY_ATTEMPTS :: u32 where
  "DEFAULT_MAX_REDELIVERY_ATTEMPTS = 5"

record pending_entry =
  pe_envelope :: envelope
  pe_sent_at :: nat
  pe_attempts :: u32

record pending_acks =
  pk_timeout :: nat
  pk_max_attempts :: u32
  pk_entries :: "(message_id, pending_entry) hmap"

definition pending_new :: "nat \<Rightarrow> u32 \<Rightarrow> pending_acks" where
  "pending_new timeout max_attempts = \<lparr>pk_timeout = timeout, pk_max_attempts = max_attempts, pk_entries = []\<rparr>"

definition pending_record :: "envelope \<Rightarrow> nat \<Rightarrow> pending_acks \<Rightarrow> pending_acks" where
  "pending_record e now pk =
     pk\<lparr>pk_entries := AList.update (env_id e) \<lparr>pe_envelope = e, pe_sent_at = now, pe_attempts = 0\<rparr> (pk_entries pk)\<rparr>"

definition pending_ack :: "message_id \<Rightarrow> pending_acks \<Rightarrow> pending_acks" where
  "pending_ack i pk = pk\<lparr>pk_entries := AList.delete i (pk_entries pk)\<rparr>"

text \<open>The loop of the sweep over the ids collected before it; the \<open>expect\<close> is the panic.\<close>

fun sweep_entries ::
  "nat \<Rightarrow> message_id list \<Rightarrow> pending_acks \<Rightarrow> (envelope list \<times> envelope list \<times> pending_acks) outcome" where
  "sweep_entries now [] pk = Returns ([], [], pk)"
| "sweep_entries now (i # ids) pk =
     (case map_of (pk_entries pk) i of
        None \<Rightarrow> Panics
      | Some en \<Rightarrow>
          if pe_attempts en \<ge> pk_max_attempts pk then
            (case sweep_entries now ids (pk\<lparr>pk_entries := AList.delete i (pk_entries pk)\<rparr>) of
               Panics \<Rightarrow> Panics
             | Returns (resend, gone, pk') \<Rightarrow> Returns (resend, pe_envelope en # gone, pk'))
          else
            (case sweep_entries now ids
                    (pk\<lparr>pk_entries := AList.update i (en\<lparr>pe_attempts := pe_attempts en + 1, pe_sent_at := now\<rparr>) (pk_entries pk)\<rparr>) of
               Panics \<Rightarrow> Panics
             | Returns (resend, gone, pk') \<Rightarrow> Returns (pe_envelope en # resend, gone, pk')))"

definition pending_sweep :: "nat \<Rightarrow> pending_acks \<Rightarrow> (envelope list \<times> envelope list \<times> pending_acks) outcome" where
  "pending_sweep now pk =
     sweep_entries now (map fst (filter (\<lambda>(_, en). now - pe_sent_at en \<ge> pk_timeout pk) (pk_entries pk))) pk"

text \<open>\<open>(timeout / 4).max(10ms)\<close>, in nanoseconds.\<close>

definition sweep_interval :: "nat \<Rightarrow> nat" where
  "sweep_interval timeout = max (timeout div 4) 10000000"

section \<open>The sweep\<close>

definition entry_expired :: "nat \<Rightarrow> pending_acks \<Rightarrow> pending_entry \<Rightarrow> bool" where
  "entry_expired now pk en \<longleftrightarrow> now - pe_sent_at en \<ge> pk_timeout pk"

definition swept_entry :: "nat \<Rightarrow> u32 \<Rightarrow> pending_entry \<Rightarrow> pending_entry option" where
  "swept_entry now mx en = (if pe_attempts en \<ge> mx then None else Some (en\<lparr>pe_attempts := pe_attempts en + 1, pe_sent_at := now\<rparr>))"

lemma sweep_entries_spec:
  assumes "distinct (map fst (pk_entries pk))" and "distinct ids" and "set ids \<subseteq> keys (pk_entries pk)"
  shows "\<exists>pk'. sweep_entries now ids pk =
      Returns (map pe_envelope (filter (\<lambda>en. \<not> pe_attempts en \<ge> pk_max_attempts pk) (map (\<lambda>i. the (map_of (pk_entries pk) i)) ids)),
               map pe_envelope (filter (\<lambda>en. pe_attempts en \<ge> pk_max_attempts pk) (map (\<lambda>i. the (map_of (pk_entries pk) i)) ids)), pk')
    \<and> distinct (map fst (pk_entries pk')) \<and> pk_max_attempts pk' = pk_max_attempts pk \<and> pk_timeout pk' = pk_timeout pk
    \<and> (\<forall>j. map_of (pk_entries pk') j =
          (if j \<in> set ids then swept_entry now (pk_max_attempts pk) (the (map_of (pk_entries pk) j)) else map_of (pk_entries pk) j))"
  using assms
proof (induction ids arbitrary: pk)
  case (Cons i ids)
  then obtain en where en: "map_of (pk_entries pk) i = Some en" by (auto simp: keys_dom)
  define m where "m = (if pe_attempts en \<ge> pk_max_attempts pk then AList.delete i (pk_entries pk)
    else AList.update i (en\<lparr>pe_attempts := pe_attempts en + 1, pe_sent_at := now\<rparr>) (pk_entries pk))"
  let ?pk = "pk\<lparr>pk_entries := m\<rparr>"
  have i: "i \<notin> set ids" "distinct ids" using Cons.prems(2) by simp_all
  have at: "map_of m i = swept_entry now (pk_max_attempts pk) en" by (simp add: m_def swept_entry_def)
  have other: "map_of m j = map_of (pk_entries pk) j" if "j \<noteq> i" for j using that by (simp add: m_def)
  have "distinct (map fst m)" using Cons.prems(1) by (simp add: m_def distinct_delete distinct_update)
  moreover have "set ids \<subseteq> keys m"
  proof
    fix j assume "j \<in> set ids"
    with i Cons.prems(3) have "j \<noteq> i" "j \<in> keys (pk_entries pk)" by auto
    then show "j \<in> keys m" using other [of j] by (auto simp: keys_dom)
  qed
  ultimately obtain pk' where run: "sweep_entries now ids ?pk =
      Returns (map pe_envelope (filter (\<lambda>en. \<not> pe_attempts en \<ge> pk_max_attempts pk) (map (\<lambda>i. the (map_of m i)) ids)),
               map pe_envelope (filter (\<lambda>en. pe_attempts en \<ge> pk_max_attempts pk) (map (\<lambda>i. the (map_of m i)) ids)), pk')"
    and pk': "distinct (map fst (pk_entries pk'))" "pk_max_attempts pk' = pk_max_attempts pk" "pk_timeout pk' = pk_timeout pk"
    and res: "\<And>j. map_of (pk_entries pk') j = (if j \<in> set ids then swept_entry now (pk_max_attempts pk) (the (map_of m j)) else map_of m j)"
    using Cons.IH [of ?pk] i(2) by auto
  have same: "map (\<lambda>i. the (map_of m i)) ids = map (\<lambda>i. the (map_of (pk_entries pk) i)) ids"
  proof (intro map_cong refl)
    fix j assume "j \<in> set ids"
    with i(1) have "j \<noteq> i" by auto
    then show "the (map_of m j) = the (map_of (pk_entries pk) j)" by (simp add: other)
  qed
  have "map_of (pk_entries pk') j = (if j \<in> set (i # ids) then swept_entry now (pk_max_attempts pk) (the (map_of (pk_entries pk) j))
      else map_of (pk_entries pk) j)" for j
    using res [of j] at other [of j] i(1) en by (cases "j = i") simp_all
  moreover have "sweep_entries now (i # ids) pk = (case sweep_entries now ids ?pk of Panics \<Rightarrow> Panics
      | Returns (resend, gone, q) \<Rightarrow> if pe_attempts en \<ge> pk_max_attempts pk then Returns (resend, pe_envelope en # gone, q)
          else Returns (pe_envelope en # resend, gone, q))"
    using en by (simp add: m_def split: outcome.split prod.split)
  ultimately show ?case using pk' by (simp add: run same en)
qed simp

text \<open>C24. Redelivery is at-least-once and bounded: the sweep never panics; it resends exactly the expired deliveries that
  have attempts left, counting the attempt and restarting the clock, gives up exactly the expired ones that have none,
  and leaves the others and everything acknowledged alone.\<close>

theorem pending_sweep_exact:
  assumes "distinct (map fst (pk_entries pk))"
  shows "\<exists>pk'. pending_sweep now pk =
      Returns (map (pe_envelope \<circ> snd) (filter (\<lambda>(_, en). entry_expired now pk en \<and> \<not> pe_attempts en \<ge> pk_max_attempts pk) (pk_entries pk)),
               map (pe_envelope \<circ> snd) (filter (\<lambda>(_, en). entry_expired now pk en \<and> pe_attempts en \<ge> pk_max_attempts pk) (pk_entries pk)), pk')
    \<and> distinct (map fst (pk_entries pk'))
    \<and> (\<forall>i. map_of (pk_entries pk') i =
          (case map_of (pk_entries pk) i of
             None \<Rightarrow> None
           | Some en \<Rightarrow> if entry_expired now pk en then swept_entry now (pk_max_attempts pk) en else Some en))"
proof -
  let ?exp = "filter (\<lambda>(_, en). now - pe_sent_at en \<ge> pk_timeout pk) (pk_entries pk)"
  let ?ids = "map fst ?exp"
  have ids: "distinct ?ids" using assms by (rule distinct_map_filter)
  have sub: "set ?ids \<subseteq> keys (pk_entries pk)" by (auto simp: keys_def)
  have mem: "i \<in> set ?ids \<longleftrightarrow> entry_expired now pk en" if "map_of (pk_entries pk) i = Some en" for i en
  proof -
    have "(i, en') \<in> set (pk_entries pk) \<longleftrightarrow> en' = en" for en' using that assms by (metis map_of_eq_Some_iff option.inject)
    then show ?thesis by (force simp: entry_expired_def)
  qed
  have vals: "map (\<lambda>i. the (map_of (pk_entries pk) i)) ?ids = map snd ?exp"
    using assms by (auto simp: map_eq_conv)
  have parts: "filter P (map snd ?exp) = map snd (filter (\<lambda>(_, en). entry_expired now pk en \<and> P en) (pk_entries pk))" for P
    unfolding filter_map by (rule arg_cong [where f = "map snd"]) (auto simp: entry_expired_def intro!: filter_cong)
  from sweep_entries_spec [OF assms ids sub, of now] obtain pk' where
    run: "pending_sweep now pk = Returns (map pe_envelope (filter (\<lambda>en. \<not> pe_attempts en \<ge> pk_max_attempts pk) (map snd ?exp)),
               map pe_envelope (filter (\<lambda>en. pe_attempts en \<ge> pk_max_attempts pk) (map snd ?exp)), pk')"
    and d: "distinct (map fst (pk_entries pk'))"
    and res: "\<And>j. map_of (pk_entries pk') j = (if j \<in> set ?ids then swept_entry now (pk_max_attempts pk) (the (map_of (pk_entries pk) j))
        else map_of (pk_entries pk) j)"
    unfolding vals pending_sweep_def by blast
  have "map_of (pk_entries pk') i = (case map_of (pk_entries pk) i of None \<Rightarrow> None
      | Some en \<Rightarrow> if entry_expired now pk en then swept_entry now (pk_max_attempts pk) en else Some en)" for i
  proof (cases "map_of (pk_entries pk) i")
    case None
    then have "i \<notin> set ?ids" using sub by (auto simp: map_of_None_keys)
    with None res [of i] show ?thesis by simp
  next
    case (Some en)
    with mem [OF Some] res [of i] show ?thesis by (simp del: set_map map_of_eq_Some_iff)
  qed
  with run d show ?thesis unfolding parts by (simp add: comp_def)
qed

theorem pending_sweep_exact_witness:
  "\<exists>e pk'. pending_sweep 10 (pending_record e 0 (pending_new 5 3)) = Returns ([e], [], pk') \<and> distinct (map fst (pk_entries pk'))"
proof -
  fix e :: envelope
  have "distinct (map fst (pk_entries (pending_record e 0 (pending_new 5 3))))" by (simp add: pending_record_def pending_new_def)
  from pending_sweep_exact [OF this, of 10] show ?thesis
    by (auto simp: pending_record_def pending_new_def entry_expired_def)
qed

end
