(* ===== verification/Dead_Letter.thy ===== *)
theory Dead_Letter
  imports Metrics Broker_Runs Redelivery
begin

text \<open>
  Dead-lettering (crates/thoth-mesh-node/src/dead_letter.rs) and the two background sweeps that feed it: the
  expiry of stored messages (ttl.rs) and the leases of work-queue groups (work_queue.rs). The spawned loops
  call one sweep per tick of a timer; the sweep is modelled, with the time as an argument.
\<close>

section \<open>Republishing\<close>

record dead_letter_config =
  dl_node_id :: peer_id
  dl_topic :: "topic option"

text \<open>\<open>format!("{dead_letter_topic}.{topic}")\<close>.\<close>

definition dead_letter_destination :: "topic \<Rightarrow> topic \<Rightarrow> rstr" where
  "dead_letter_destination d t = topic_str d @ [46] @ topic_str t"

definition dead_letter ::
  "('w, 'z) runtime_scheme \<Rightarrow> 's message_store \<Rightarrow> dead_letter_config \<Rightarrow> envelope \<Rightarrow> 's broker \<Rightarrow> 'w \<Rightarrow> bool \<times> 's broker \<times> 'w" where
  "dead_letter rt ops cfg original b w =
     (case dl_topic cfg of
        None \<Rightarrow> (False, b, w)
      | Some d \<Rightarrow>
          (case env_kind original of
             Publish t payload _ content_type _ _ \<Rightarrow>
               (case topic_from_str (dead_letter_destination d t) of
                  Inl _ \<Rightarrow> (False, b, w)
                | Inr destination \<Rightarrow>
                    (let (e, w') = envelope_new rt (dl_node_id cfg) (Publish destination payload False content_type None None) w;
                         (_, b', w'') = broker_publish rt ops destination e b w'
                     in (True, b', w'')))
           | _ \<Rightarrow> (False, b, w)))"

text \<open>The loop of both sweeps: how many were republished.\<close>

fun dead_letter_all ::
  "('w, 'z) runtime_scheme \<Rightarrow> 's message_store \<Rightarrow> dead_letter_config \<Rightarrow> envelope list \<Rightarrow> u64 \<Rightarrow> 's broker \<Rightarrow> 'w
     \<Rightarrow> u64 \<times> 's broker \<times> 'w" where
  "dead_letter_all rt ops cfg [] n b w = (n, b, w)"
| "dead_letter_all rt ops cfg (e # es) n b w =
     (let (republished, b', w') = dead_letter rt ops cfg e b w
      in dead_letter_all rt ops cfg es (if republished then n + 1 else n) b' w')"

section \<open>The sweep of stored messages\<close>

definition SWEEP_INTERVAL :: nat where
  "SWEEP_INTERVAL = 60 * 1000000000"

text \<open>
  Times are nanoseconds since the Unix epoch. \<open>checked_sub\<close> fails when the seconds leave the range of the
  system time, a signed 64-bit count; \<open>duration_since(UNIX_EPOCH).unwrap_or_default()\<close> is zero before the
  epoch; \<open>as i64\<close> keeps the low 64 bits.
\<close>

definition system_time_checked_sub :: "int \<Rightarrow> nat \<Rightarrow> int option" where
  "system_time_checked_sub now ttl =
     (if (now - int ttl) div 1000000000 < - (2 ^ 63) then None else Some (now - int ttl))"

definition ttl_cutoff :: "int \<Rightarrow> int" where
  "ttl_cutoff t = sint (word_of_int (max 0 t div 1000000) :: 64 word)"

definition ttl_sweep_once ::
  "('w, 'z) runtime_scheme \<Rightarrow> 's message_store \<Rightarrow> int \<Rightarrow> nat \<Rightarrow> dead_letter_config \<Rightarrow> 's broker \<Rightarrow> metrics \<Rightarrow> 'w
     \<Rightarrow> 's broker \<times> metrics \<times> 'w" where
  "ttl_sweep_once rt ops now ttl cfg b m w =
     (case system_time_checked_sub now ttl of
        None \<Rightarrow> (b, m, w)
      | Some cutoff \<Rightarrow>
          (case br_store b of
             None \<Rightarrow> (b, m, w)
           | Some s \<Rightarrow>
               (let (r, s') = st_expire_before ops (ttl_cutoff cutoff) s; b0 = b\<lparr>br_store := Some s'\<rparr>
                in (case r of
                      Returns (Inr expired) \<Rightarrow>
                        if expired = [] then (b0, m, w)
                        else
                          (let m1 = record_expired_messages (of_nat (length expired)) m;
                               (n, b1, w1) = dead_letter_all rt ops cfg expired 0 b0 w
                           in (b1, if n > 0 then record_dead_lettered_messages n m1 else m1, w1))
                    | _ \<Rightarrow> (b0, m, w)))))"

section \<open>The sweep of work-queue leases\<close>

definition work_queue_sweep_once ::
  "('w, 'z) runtime_scheme \<Rightarrow> 's message_store \<Rightarrow> dead_letter_config \<Rightarrow> nat \<Rightarrow> u32 \<Rightarrow> 's broker \<Rightarrow> metrics \<Rightarrow> 'w
     \<Rightarrow> ('s broker \<times> metrics \<times> 'w) outcome" where
  "work_queue_sweep_once rt ops cfg ack_timeout max_attempts b m w =
     (case broker_sweep_group_leases rt (rt_instant_now rt w) ack_timeout max_attempts b w of
        Panics \<Rightarrow> Panics
      | Returns (given_up_on, b0, w0) \<Rightarrow>
          if given_up_on = [] then Returns (b0, m, w0)
          else
            (let m1 = record_delivery_ack_timeouts (of_nat (length given_up_on)) m;
                 (n, b1, w1) = dead_letter_all rt ops cfg given_up_on 0 b0 w0
             in Returns (b1, if n > 0 then record_dead_lettered_messages n m1 else m1, w1)))"

section \<open>What is republished\<close>

text \<open>The composed destination is a topic unless it is too long.\<close>

lemma destination_parses:
  assumes "wf_topic d" and "wf_topic t"
  shows "topic_from_str (dead_letter_destination d t) =
    (let n = str_len (topic_str d) + 1 + str_len (topic_str t)
     in if n > MAX_TOPIC_LEN then Inl (TTooLong n MAX_TOPIC_LEN) else Inr (Topic (dead_letter_destination d t)))"
proof -
  have "find (\<lambda>c. \<not> is_valid_topic_char c) (dead_letter_destination d t) = None"
    using assms by (auto simp: find_None_iff wf_topic_def topic_validate_def dead_letter_destination_def is_valid_topic_char_def
        split: if_splits option.splits)
  moreover have "str_len (dead_letter_destination d t) = str_len (topic_str d) + 1 + str_len (topic_str t)"
    by (simp add: dead_letter_destination_def str_len_def utf8_width_def)
  moreover have "dead_letter_destination d t \<noteq> []" by (simp add: dead_letter_destination_def)
  ultimately show ?thesis by (simp add: topic_from_str_def topic_validate_def Let_def)
qed

lemma last_push_buffer: "push_buffer e buf \<noteq> [] \<and> last (push_buffer e buf) = e"
  by (cases buf) (simp_all add: push_buffer_def Let_def DEFAULT_REPLAY_BUFFER_CAPACITY_def)

lemma dead_letter_republishes:
  assumes "broker_ok b" and "wf_topic d" and "wf_topic t" and "dl_topic cfg = Some d"
    and "env_kind original = Publish t payload ret content_type rep inrep"
    and "str_len (topic_str d) + 1 + str_len (topic_str t) \<le> MAX_TOPIC_LEN"
    and "MessageId (fst (rt_now_v7 rt w)) \<notin> si_set (br_seen b)"
    and "length (tm_map (br_topics b)) < DEFAULT_TOPIC_MAP_CAPACITY"
  shows "\<exists>b' w' ch. dead_letter rt ops cfg original b w = (True, b', w')
    \<and> channel_at (Topic (dead_letter_destination d t)) (br_topics b') (br_channels b') = Some ch
    \<and> tc_buffer ch \<noteq> [] \<and> last (tc_buffer ch) =
        \<lparr>env_version = PROTOCOL_VERSION, env_id = MessageId (fst (rt_now_v7 rt w)), env_sender = dl_node_id cfg,
         env_kind = Publish (Topic (dead_letter_destination d t)) payload False content_type None None\<rparr>
    \<and> (\<forall>u. u \<noteq> Topic (dead_letter_destination d t) \<longrightarrow>
          channel_at u (br_topics b') (br_channels b') = channel_at u (br_topics b) (br_channels b))"
proof -
  let ?d = "Topic (dead_letter_destination d t)"
  let ?e = "\<lparr>env_version = PROTOCOL_VERSION, env_id = MessageId (fst (rt_now_v7 rt w)), env_sender = dl_node_id cfg,
         env_kind = Publish ?d payload False content_type None None\<rparr>"
  have new: "envelope_new rt (dl_node_id cfg) (Publish ?d payload False content_type None None) w = (?e, snd (rt_now_v7 rt w))"
    by (simp add: envelope_new_def message_id_new_def split: prod.split)
  obtain n b' w' where p: "broker_publish rt ops ?d ?e b (snd (rt_now_v7 rt w)) = (n, b', w')" by (metis prod_cases3)
  have "dead_letter rt ops cfg original b w = (True, b', w')"
    using assms(4,5,6) destination_parses [OF assms(2,3)] by (simp add: dead_letter_def new p)
  moreover have "env_id ?e \<notin> si_set (br_seen b)" using assms(7) by simp
  ultimately show ?thesis using publish_channels [OF assms(1) _ p] assms(8) last_push_buffer [of ?e] by force
qed

text \<open>C39. A message nobody consumed is not lost silently: when a dead-letter topic is configured, dead-lettering republishes
  the payload and content type unchanged on exactly the topic \<open>dead-letter.original\<close>, under a fresh id, as this node, not retained;
  it changes nothing and reports so exactly when that name is too long for a topic.\<close>

theorem dead_letter_exact:
  assumes "broker_ok b" and "wf_topic d" and "wf_topic t" and "dl_topic cfg = Some d"
    and "env_kind original = Publish t payload ret content_type rep inrep"
    and "MessageId (fst (rt_now_v7 rt w)) \<notin> si_set (br_seen b)"
    and "length (tm_map (br_topics b)) < DEFAULT_TOPIC_MAP_CAPACITY"
  shows "if str_len (topic_str d) + 1 + str_len (topic_str t) \<le> MAX_TOPIC_LEN
    then (\<exists>b' w' ch. dead_letter rt ops cfg original b w = (True, b', w')
      \<and> channel_at (Topic (dead_letter_destination d t)) (br_topics b') (br_channels b') = Some ch
      \<and> tc_buffer ch \<noteq> [] \<and> last (tc_buffer ch) =
          \<lparr>env_version = PROTOCOL_VERSION, env_id = MessageId (fst (rt_now_v7 rt w)), env_sender = dl_node_id cfg,
           env_kind = Publish (Topic (dead_letter_destination d t)) payload False content_type None None\<rparr>
      \<and> (\<forall>u. u \<noteq> Topic (dead_letter_destination d t) \<longrightarrow>
            channel_at u (br_topics b') (br_channels b') = channel_at u (br_topics b) (br_channels b)))
    else dead_letter rt ops cfg original b w = (False, b, w)"
proof (cases "str_len (topic_str d) + 1 + str_len (topic_str t) \<le> MAX_TOPIC_LEN")
  case True
  with dead_letter_republishes [OF assms(1-5) True assms(6,7)] show ?thesis by simp
next
  case False
  then show ?thesis using assms(4,5) destination_parses [OF assms(2,3)] by (simp add: dead_letter_def)
qed

theorem dead_letter_exact_witness:
  "\<exists>b' w' ch. dead_letter world_rt (sqlite_message_store example_env) \<lparr>dl_node_id = PeerId [], dl_topic = Some (Topic [100])\<rparr>
       (example_publish 1) broker_new world0 = (True, b', w')
     \<and> channel_at (Topic [100, 46, 97]) (br_topics b') (br_channels b') = Some ch \<and> tc_buffer ch \<noteq> []"
proof -
  have wf: "wf_topic (Topic [100])" "wf_topic (Topic [97])"
    by (simp_all add: wf_topic_def topic_validate_def is_valid_topic_char_def is_ascii_alphanumeric_def is_ascii_lower_def
        str_len_def utf8_width_def MAX_TOPIC_LEN_def)
  have b: "broker_ok (broker_new :: sqlite_store broker)" by (simp add: broker_new_def broker_default_ok)
  have seen: "MessageId (fst (rt_now_v7 world_rt world0)) \<notin> si_set (br_seen (broker_new :: sqlite_store broker))"
    and room: "length (tm_map (br_topics (broker_new :: sqlite_store broker))) < DEFAULT_TOPIC_MAP_CAPACITY"
    by (simp_all add: broker_new_def broker_default_def seen_new_def topic_map_empty_def DEFAULT_TOPIC_MAP_CAPACITY_def)
  have "env_kind (example_publish 1) = Publish (Topic [97]) [1] False None None None" by (simp add: example_publish_def)
  from dead_letter_exact [OF b wf _ this seen room, of "\<lparr>dl_node_id = PeerId [], dl_topic = Some (Topic [100])\<rparr>"
      "sqlite_message_store example_env"]
  have "\<exists>b' w' ch. dead_letter world_rt (sqlite_message_store example_env) \<lparr>dl_node_id = PeerId [], dl_topic = Some (Topic [100])\<rparr>
       (example_publish 1) broker_new world0 = (True, b', w')
     \<and> channel_at (Topic (dead_letter_destination (Topic [100]) (Topic [97]))) (br_topics b') (br_channels b') = Some ch \<and> tc_buffer ch \<noteq> []"
    by (simp add: str_len_def utf8_width_def MAX_TOPIC_LEN_def) blast
  then show ?thesis by (simp add: dead_letter_destination_def)
qed

text \<open>
  A dead letter is an ordinary publish, so one that goes unconsumed in turn is dead-lettered again, one level deeper.
\<close>

lemma dead_letters_nest:
  assumes "wf_topic d" and "wf_topic t" and "dl_topic cfg = Some d"
    and "2 * (str_len (topic_str d) + 1) + str_len (topic_str t) \<le> MAX_TOPIC_LEN"
    and "env_kind letter = Publish (Topic (dead_letter_destination d t)) payload ret content_type rep inrep"
  shows "\<exists>b' w' e n. dead_letter rt ops cfg letter b w = (True, b', w')
    \<and> broker_publish rt ops (Topic (dead_letter_destination d (Topic (dead_letter_destination d t)))) e b (snd (rt_now_v7 rt w)) = (n, b', w')"
proof -
  have "wf_topic (Topic (dead_letter_destination d t))"
    using destination_parses [OF assms(1,2)] assms(4)
    by (auto simp: wf_topic_def topic_from_str_def Let_def split: if_splits sum.splits)
  from destination_parses [OF assms(1) this] show ?thesis
    using assms(3-5) by (auto simp: dead_letter_def envelope_new_def message_id_new_def dead_letter_destination_def
        str_len_def utf8_width_def Let_def split: prod.splits)
qed

end
