(* ===== verification/Forwarders.thy ===== *)
theory Forwarders
  imports Dead_Letter
begin

text \<open>
  The tasks that forward a subscription's messages to its connection (\<open>spawn_forwarder\<close>,
  \<open>spawn_durable_forwarder\<close> and \<open>spawn_ack_forwarder\<close> in crates/thoth-mesh-node/src/connection.rs). A task is
  its start, up to the first wait, and one function per event it waits for; what the broadcast receiver
  yields and when the timer fires come from the outside. The main result: lag recovery on a topic resumes
  exactly where delivery stopped, without repeating a message.
\<close>

section \<open>Lag recovery\<close>

datatype recv_result = RecvOk envelope | RecvLagged u64 | RecvClosed

definition lag_recovered :: "message_id option \<Rightarrow> envelope list \<Rightarrow> envelope list" where
  "lag_recovered last_delivered fresh =
     (case last_delivered of
        None \<Rightarrow> fresh
      | Some last_id \<Rightarrow>
          (case position (\<lambda>e. env_id e = last_id) fresh of
             Some idx \<Rightarrow> drop (idx + 1) fresh
           | None \<Rightarrow> []))"

definition count_backlog :: "envelope list \<Rightarrow> metrics \<Rightarrow> metrics" where
  "count_backlog backlog m = (if backlog = [] then m else record_replayed_messages (of_nat (length backlog)) m)"

definition count_recovered :: "envelope list \<Rightarrow> metrics \<Rightarrow> metrics" where
  "count_recovered es m = (if es = [] then m else record_lag_recovered (of_nat (length es)) m)"

section \<open>The ordinary forwarder\<close>

text \<open>The state of a running task is its receiver and the last id it sent; \<open>None\<close> is a task that has ended.\<close>

type_synonym forwarder_state = "receiver \<times> message_id option"

fun forward_all ::
  "('w, 'z) runtime_scheme \<Rightarrow> sender \<Rightarrow> envelope list \<Rightarrow> message_id option \<Rightarrow> 'w \<Rightarrow> bool \<times> message_id option \<times> 'w" where
  "forward_all rt tx [] ld w = (True, ld, w)"
| "forward_all rt tx (e # es) ld w =
     (case rt_mpsc_send rt tx e w of
        (False, w') \<Rightarrow> (False, ld, w')
      | (True, w') \<Rightarrow> forward_all rt tx es (Some (env_id e)) w')"

definition forwarder_start ::
  "('w, 'z) runtime_scheme \<Rightarrow> topic_filter \<Rightarrow> sender \<Rightarrow> 's broker \<Rightarrow> metrics \<Rightarrow> 'w
     \<Rightarrow> forwarder_state option \<times> 's broker \<times> metrics \<times> 'w" where
  "forwarder_start rt f tx b m w =
     (let ((backlog, rx), b', w') = broker_subscribe rt f b w;
          (ok, ld, w'') = forward_all rt tx backlog None w'
      in (if ok then Some (rx, ld) else None, b', count_backlog backlog m, w''))"

fun forwarder_recv ::
  "('w, 'z) runtime_scheme \<Rightarrow> topic_filter \<Rightarrow> sender \<Rightarrow> recv_result \<Rightarrow> forwarder_state \<Rightarrow> 's broker \<Rightarrow> metrics \<Rightarrow> 'w
     \<Rightarrow> forwarder_state option \<times> 's broker \<times> metrics \<times> 'w" where
  "forwarder_recv rt f tx (RecvOk e) (rx, ld) b m w =
     (let (ok, w') = rt_mpsc_send rt tx e w in (if ok then Some (rx, Some (env_id e)) else None, b, m, w'))"
| "forwarder_recv rt f tx (RecvLagged skipped) (rx, ld) b m w =
     (let ((fresh, rx'), b', w') = broker_subscribe rt f b w;
          recovered = lag_recovered ld fresh;
          (ok, ld', w'') = forward_all rt tx recovered ld w'
      in (if ok then Some (rx', ld') else None, b', count_recovered recovered (record_forwarder_lag skipped m), w''))"
| "forwarder_recv rt f tx RecvClosed st b m w = (None, b, m, w)"

section \<open>The durable forwarder\<close>

fun forward_all_durable ::
  "('w, 'z) runtime_scheme \<Rightarrow> 's message_store \<Rightarrow> peer_id \<Rightarrow> topic \<Rightarrow> sender \<Rightarrow> envelope list \<Rightarrow> message_id option
     \<Rightarrow> 's broker \<Rightarrow> 'w \<Rightarrow> bool \<times> message_id option \<times> 's broker \<times> 'w" where
  "forward_all_durable rt ops p t tx [] ld b w = (True, ld, b, w)"
| "forward_all_durable rt ops p t tx (e # es) ld b w =
     (case rt_mpsc_send rt tx e w of
        (False, w') \<Rightarrow> (False, ld, b, w')
      | (True, w') \<Rightarrow>
          forward_all_durable rt ops p t tx es (Some (env_id e)) (record_delivered ops p t (env_id e) b) w')"

definition durable_forwarder_start ::
  "('w, 'z) runtime_scheme \<Rightarrow> 's message_store \<Rightarrow> topic_filter \<Rightarrow> topic \<Rightarrow> peer_id \<Rightarrow> sender \<Rightarrow> 's broker \<Rightarrow> metrics \<Rightarrow> 'w
     \<Rightarrow> forwarder_state option \<times> 's broker \<times> metrics \<times> 'w" where
  "durable_forwarder_start rt ops f t p tx b m w =
     (case subscribe_durable rt ops f p b w of
        (Inl _, b', w') \<Rightarrow> (None, b', m, w')
      | (Inr (backlog, rx), b', w') \<Rightarrow>
          (let (ok, ld, b'', w'') = forward_all_durable rt ops p t tx backlog None b' w'
           in (if ok then Some (rx, ld) else None, b'', count_backlog backlog m, w'')))"

fun durable_forwarder_recv ::
  "('w, 'z) runtime_scheme \<Rightarrow> 's message_store \<Rightarrow> topic_filter \<Rightarrow> topic \<Rightarrow> peer_id \<Rightarrow> sender \<Rightarrow> recv_result \<Rightarrow> forwarder_state
     \<Rightarrow> 's broker \<Rightarrow> metrics \<Rightarrow> 'w \<Rightarrow> forwarder_state option \<times> 's broker \<times> metrics \<times> 'w" where
  "durable_forwarder_recv rt ops f t p tx (RecvOk e) (rx, ld) b m w =
     (case rt_mpsc_send rt tx e w of
        (False, w') \<Rightarrow> (None, b, m, w')
      | (True, w') \<Rightarrow> (Some (rx, Some (env_id e)), record_delivered ops p t (env_id e) b, m, w'))"
| "durable_forwarder_recv rt ops f t p tx (RecvLagged skipped) (rx, ld) b m w =
     (let ((fresh, rx'), b', w') = broker_subscribe rt f b w;
          recovered = lag_recovered ld fresh;
          (ok, ld', b'', w'') = forward_all_durable rt ops p t tx recovered ld b' w'
      in (if ok then Some (rx', ld') else None, b'', count_recovered recovered (record_forwarder_lag skipped m), w''))"
| "durable_forwarder_recv rt ops f t p tx RecvClosed st b m w = (None, b, m, w)"

section \<open>The acknowledged forwarder\<close>

fun forward_all_acked ::
  "('w, 'z) runtime_scheme \<Rightarrow> sender \<Rightarrow> envelope list \<Rightarrow> message_id option \<Rightarrow> pending_acks \<Rightarrow> 'w
     \<Rightarrow> bool \<times> message_id option \<times> pending_acks \<times> 'w" where
  "forward_all_acked rt tx [] ld pk w = (True, ld, pk, w)"
| "forward_all_acked rt tx (e # es) ld pk w =
     (case rt_mpsc_send rt tx e w of
        (False, w') \<Rightarrow> (False, ld, pk, w')
      | (True, w') \<Rightarrow> forward_all_acked rt tx es (Some (env_id e)) (pending_record e (rt_instant_now rt w') pk) w')"

type_synonym ack_forwarder_state = "forwarder_state \<times> pending_acks"

definition ack_forwarder_start ::
  "('w, 'z) runtime_scheme \<Rightarrow> topic_filter \<Rightarrow> sender \<Rightarrow> nat \<Rightarrow> u32 \<Rightarrow> 's broker \<Rightarrow> metrics \<Rightarrow> 'w
     \<Rightarrow> ack_forwarder_state option \<times> 's broker \<times> metrics \<times> 'w" where
  "ack_forwarder_start rt f tx ack_timeout max_attempts b m w =
     (let ((backlog, rx), b', w') = broker_subscribe rt f b w;
          (ok, ld, pk, w'') = forward_all_acked rt tx backlog None (pending_new ack_timeout max_attempts) w'
      in (if ok then Some ((rx, ld), pk) else None, b', count_backlog backlog m, w''))"

text \<open>\<open>None\<close> is the closed acknowledgement channel.\<close>

fun ack_forwarder_acked :: "message_id option \<Rightarrow> ack_forwarder_state \<Rightarrow> ack_forwarder_state" where
  "ack_forwarder_acked None st = st"
| "ack_forwarder_acked (Some i) (fw, pk) = (fw, pending_ack i pk)"

fun resend_all :: "('w, 'z) runtime_scheme \<Rightarrow> sender \<Rightarrow> envelope list \<Rightarrow> 'w \<Rightarrow> bool \<times> 'w" where
  "resend_all rt tx [] w = (True, w)"
| "resend_all rt tx (e # es) w =
     (case rt_mpsc_send rt tx e w of (False, w') \<Rightarrow> (False, w') | (True, w') \<Rightarrow> resend_all rt tx es w')"

definition ack_forwarder_give_up ::
  "('w, 'z) runtime_scheme \<Rightarrow> 's message_store \<Rightarrow> dead_letter_config \<Rightarrow> envelope list \<Rightarrow> 's broker \<Rightarrow> metrics \<Rightarrow> 'w
     \<Rightarrow> 's broker \<times> metrics \<times> 'w" where
  "ack_forwarder_give_up rt ops cfg given_up_on b m w =
     (if given_up_on = [] then (b, m, w)
      else
        (let m1 = record_delivery_ack_timeouts (of_nat (length given_up_on)) m;
             (n, b1, w1) = dead_letter_all rt ops cfg given_up_on 0 b w
         in (b1, if n > 0 then record_dead_lettered_messages n m1 else m1, w1)))"

fun ack_forwarder_sweep ::
  "('w, 'z) runtime_scheme \<Rightarrow> 's message_store \<Rightarrow> dead_letter_config \<Rightarrow> sender \<Rightarrow> ack_forwarder_state \<Rightarrow> 's broker \<Rightarrow> metrics \<Rightarrow> 'w
     \<Rightarrow> (ack_forwarder_state option \<times> 's broker \<times> metrics \<times> 'w) outcome" where
  "ack_forwarder_sweep rt ops cfg tx (fw, pk) b m w =
     (case pending_sweep (rt_instant_now rt w) pk of
        Panics \<Rightarrow> Panics
      | Returns (to_resend, given_up_on, pk') \<Rightarrow>
          (let (b1, m1, w1) = ack_forwarder_give_up rt ops cfg given_up_on b m w;
               m2 = (if to_resend = [] then m1 else record_redelivered_messages (of_nat (length to_resend)) m1);
               (ok, w2) = resend_all rt tx to_resend w1
           in Returns (if ok then Some (fw, pk') else None, b1, m2, w2)))"

fun ack_forwarder_recv ::
  "('w, 'z) runtime_scheme \<Rightarrow> topic_filter \<Rightarrow> sender \<Rightarrow> recv_result \<Rightarrow> ack_forwarder_state \<Rightarrow> 's broker \<Rightarrow> metrics \<Rightarrow> 'w
     \<Rightarrow> ack_forwarder_state option \<times> 's broker \<times> metrics \<times> 'w" where
  "ack_forwarder_recv rt f tx (RecvOk e) ((rx, ld), pk) b m w =
     (case rt_mpsc_send rt tx e w of
        (False, w') \<Rightarrow> (None, b, m, w')
      | (True, w') \<Rightarrow> (Some ((rx, Some (env_id e)), pending_record e (rt_instant_now rt w') pk), b, m, w'))"
| "ack_forwarder_recv rt f tx (RecvLagged skipped) ((rx, ld), pk) b m w =
     (let ((fresh, rx'), b', w') = broker_subscribe rt f b w;
          recovered = lag_recovered ld fresh;
          (ok, ld', pk', w'') = forward_all_acked rt tx recovered ld pk w'
      in (if ok then Some ((rx', ld'), pk') else None, b', count_recovered recovered (record_forwarder_lag skipped m), w''))"
| "ack_forwarder_recv rt f tx RecvClosed st b m w = (None, b, m, w)"

section \<open>What recovery sends\<close>

lemma drop_after_position:
  assumes "distinct (map env_id es)" and "i < length es"
  shows "lag_recovered (Some (env_id (es ! i))) es = drop (Suc i) es"
proof -
  have "position (\<lambda>e. env_id e = env_id (es ! i)) es = Some i"
  proof (cases "position (\<lambda>e. env_id e = env_id (es ! i)) es")
    case None
    with assms(2) show ?thesis by (auto simp: position_None)
  next
    case (Some j)
    from position_Some [OF this] have "j < length es" "map env_id es ! j = map env_id es ! i" using assms(2) by simp_all
    with assms Some show ?thesis by (auto simp: distinct_conv_nth)
  qed
  then show ?thesis by (simp add: lag_recovered_def)
qed

lemma lag_recovered_absent: "i \<notin> env_id ` set es \<Longrightarrow> lag_recovered (Some i) es = []"
  by (auto simp: lag_recovered_def position_None split: option.splits dest!: position_Some)

lemma retained_spec_mem: "retained_spec ps = Some r \<Longrightarrow> r \<in> set (map fst ps)"
  by (auto simp: retained_spec_def Let_def split: if_splits dest!: last_in_set [where as = "filter snd ps", simplified])

text \<open>The messages to send after a lag, when the first \<open>k\<close> of the messages \<open>ps\<close> of a topic were delivered.\<close>

definition missed :: "nat \<Rightarrow> (envelope \<times> bool) list \<Rightarrow> envelope list" where
  "missed k ps =
     (if length ps - k < DEFAULT_REPLAY_BUFFER_CAPACITY then drop k (map fst ps)
      else if retained_spec ps = Some (fst (ps ! (k - 1))) then last_n DEFAULT_REPLAY_BUFFER_CAPACITY (map fst ps)
      else [])"

lemma lag_recovered_missed:
  assumes "distinct (map (env_id \<circ> fst) ps)" and "0 < k" and "k \<le> length ps"
  shows "lag_recovered (Some (env_id (fst (ps ! (k - 1))))) (channel_backlog (channel_history ps (fst (channel_new rt w)))) = missed k ps"
proof -
  define ch where "ch = channel_history ps (fst (channel_new rt w))"
  let ?C = DEFAULT_REPLAY_BUFFER_CAPACITY and ?ms = "map fst ps" and ?l = "fst (ps ! (k - 1))"
  have st: "tc_buffer ch = last_n ?C ?ms" "tc_retained ch = retained_spec ps"
    using channel_history_state [of "fst (channel_new rt w)" ps] by (simp_all add: ch_def channel_new_def split: prod.splits)
  have d: "distinct (map env_id ?ms)" using assms(1) by (simp add: comp_def)
  have dw: "distinct (map env_id (last_n ?C ?ms))" using d by (simp add: last_n_def drop_map [symmetric] distinct_drop)
  have db: "distinct (map env_id (channel_backlog ch))" using channel_backlog_distinct [of ch] dw by (simp add: st)
  obtain pre where pre: "channel_backlog ch = pre @ last_n ?C ?ms" "length pre \<le> 1"
    using channel_backlog_suffix [of ch] by (auto simp: st)
  show ?thesis
  proof (cases "length ps - k < ?C")
    case True
    let ?i = "length pre + (k - 1 - (length ps - ?C))"
    have "channel_backlog ch ! ?i = ?ms ! (k - 1)"
      using True assms(2,3) by (simp add: pre(1) last_n_def nth_append)
    moreover have "?i < length (channel_backlog ch)" using True assms(2,3) by (simp add: pre(1) last_n_def)
    ultimately have "lag_recovered (Some (env_id ?l)) (channel_backlog ch) = drop (Suc ?i) (channel_backlog ch)"
      using drop_after_position [OF db] assms(2,3) by fastforce
    also have "\<dots> = drop k ?ms" using True assms(2,3) by (simp add: pre(1) last_n_def)
    finally show ?thesis using True by (simp add: missed_def ch_def)
  next
    case False
    have "(ps ! (k - 1)) \<in> set ps" using assms(2,3) by simp
    have out: "env_id ?l \<notin> env_id ` set (last_n ?C ?ms)"
    proof
      assume "env_id ?l \<in> env_id ` set (last_n ?C ?ms)"
      then obtain j where "j < length (last_n ?C ?ms)" "env_id ?l = env_id (last_n ?C ?ms ! j)" by (auto simp: in_set_conv_nth)
      then have "length ps - ?C + j < length ps" "map env_id ?ms ! (k - 1) = map env_id ?ms ! (length ps - ?C + j)"
        using assms(2,3) by (auto simp: last_n_def)
      with d assms(2,3) False show False by (auto simp: distinct_conv_nth)
    qed
    show ?thesis
    proof (cases "retained_spec ps = Some ?l")
      case True
      with out have "channel_backlog ch = ?l # last_n ?C ?ms" by (simp add: channel_backlog_def st list_ex_image True)
      with True False show ?thesis by (simp add: lag_recovered_def missed_def ch_def)
    next
      case False2: False
      have "env_id ?l \<notin> env_id ` set (channel_backlog ch)"
      proof (cases "retained_spec ps")
        case (Some r)
        have inj: "inj_on env_id (set ?ms)" using d by (simp only: distinct_map)
        have "?l \<in> set ?ms" using assms(2,3) by simp
        then have "env_id r \<noteq> env_id ?l" using inj retained_spec_mem [OF Some] False2 Some by (metis inj_onD)
        with out Some show ?thesis by (auto simp: channel_backlog_def st split: if_splits)
      qed (use out in \<open>auto simp: channel_backlog_def st\<close>)
      then show ?thesis using False False2 by (simp add: lag_recovered_absent missed_def ch_def)
    qed
  qed
qed

text \<open>C17. Lag recovery resumes exactly where delivery stopped. When a forwarder that delivered the first \<open>k\<close> messages of a topic
  lags, what it then sends is a tail of the messages it has not delivered, in order and without repeating one; when fewer
  than 1024 messages were missed, it is all of them.\<close>

theorem lag_recovery_exact:
  assumes "distinct (map (env_id \<circ> fst) ps)" and "0 < k" and "k \<le> length ps"
    and "broker_subscribe rt f b w = ((channel_backlog (channel_history ps (fst (channel_new rt w0))), rx'), b', w')"
  shows "\<exists>j \<ge> k. forwarder_recv rt f tx (RecvLagged n) (rx, Some (env_id (fst (ps ! (k - 1))))) b m w =
      (let es = drop j (map fst ps); (ok, ld, w'') = forward_all rt tx es (Some (env_id (fst (ps ! (k - 1))))) w'
       in (if ok then Some (rx', ld) else None, b', count_recovered es (record_forwarder_lag n m), w''))
    \<and> (length ps - k < DEFAULT_REPLAY_BUFFER_CAPACITY \<longrightarrow> j = k)"
proof -
  have run: "forwarder_recv rt f tx (RecvLagged n) (rx, Some (env_id (fst (ps ! (k - 1))))) b m w =
      (let es = missed k ps; (ok, ld, w'') = forward_all rt tx es (Some (env_id (fst (ps ! (k - 1))))) w'
       in (if ok then Some (rx', ld) else None, b', count_recovered es (record_forwarder_lag n m), w''))"
    using assms(4) lag_recovered_missed [OF assms(1-3), of rt w0] by (simp add: Let_def)
  have "\<exists>j \<ge> k. missed k ps = drop j (map fst ps) \<and> (length ps - k < DEFAULT_REPLAY_BUFFER_CAPACITY \<longrightarrow> j = k)"
  proof (cases "length ps - k < DEFAULT_REPLAY_BUFFER_CAPACITY")
    case True
    then show ?thesis by (auto simp: missed_def)
  next
    case False
    then have "k \<le> length ps - DEFAULT_REPLAY_BUFFER_CAPACITY" using assms(3) by arith
    then show ?thesis
      using False assms(3) by (intro exI [of _ "if retained_spec ps = Some (fst (ps ! (k - 1)))
          then length ps - DEFAULT_REPLAY_BUFFER_CAPACITY else length ps"]) (simp add: missed_def last_n_def)
  qed
  with run show ?thesis by auto
qed

theorem lag_recovery_exact_witness:
  "\<exists>b r b' w'. forwarder_recv world_rt (TopicFilter [97]) 3 (RecvLagged 1) (0, Some (env_id (example_publish 1))) (b :: sqlite_store broker)
       metrics_new world0 =
     (let (ok, ld, w'') = forward_all world_rt 3 [example_publish 2] (Some (env_id (example_publish 1))) w'
      in (if ok then Some (r, ld) else None, b', count_recovered [example_publish 2] (record_forwarder_lag 1 metrics_new), w''))"
proof -
  let ?ps = "[(example_publish 1, False), (example_publish 2, False)]"
  let ?ch = "channel_history ?ps (fst (channel_new world_rt world0))"
  let ?b = "(broker_new :: sqlite_store broker)\<lparr>br_topics := \<lparr>tm_map = [(Topic [97], 0)], tm_order = [Topic [97]]\<rparr>, br_channels := [?ch]\<rparr>"
  have d: "distinct (map (env_id \<circ> fst) ?ps)" by (simp add: example_publish_def)
  obtain r w' where r: "rt_bcast_subscribe world_rt (tc_sender ?ch) world0 = (r, w')" by fastforce
  have "\<exists>b'. broker_subscribe world_rt (TopicFilter [97]) ?b world0 = ((channel_backlog ?ch, r), b', w')"
    by (simp add: broker_subscribe_def as_topic_def is_literal_def wildcard_defs subscribe_exact_def topic_channel_of_def
        get_or_insert_def channel_subscribe_def Let_def r)
  then obtain b' where sub: "broker_subscribe world_rt (TopicFilter [97]) ?b world0 = ((channel_backlog ?ch, r), b', w')" by blast
  from lag_recovery_exact [OF d _ _ sub, of 1 3 1 0 metrics_new] show ?thesis
    by (intro exI [of _ ?b] exI [of _ r] exI [of _ b'] exI [of _ w']) (simp add: DEFAULT_REPLAY_BUFFER_CAPACITY_def)
qed

end
