(* ===== verification/Interest.thy ===== *)
theory Interest
  imports Topics
begin

text \<open>
  The node-wide interest registry (crates/thoth-mesh/src/interest.rs): how many connections want
  each filter, and which operations report a first or last interested connection. The
  count of a filter is the number of connections that hold it.
\<close>

section \<open>State and operations\<close>

record interest =
  in_counts :: "(topic_filter, nat) hmap"

definition interest_new :: interest where
  "interest_new = \<lparr>in_counts = []\<rparr>"

definition interest_subscribe :: "topic_filter \<Rightarrow> interest \<Rightarrow> bool \<times> interest" where
  "interest_subscribe f i =
     (let count = (case map_of (in_counts i) f of None \<Rightarrow> 0 | Some n \<Rightarrow> n) + 1
      in (count = 1, i\<lparr>in_counts := AList.update f count (in_counts i)\<rparr>))"

definition interest_unsubscribe :: "topic_filter \<Rightarrow> interest \<Rightarrow> bool \<times> interest" where
  "interest_unsubscribe f i =
     (case map_of (in_counts i) f of
        None \<Rightarrow> (False, i)
      | Some n \<Rightarrow>
          if n = 0 then (False, i)
          else if n - 1 = 0 then (True, i\<lparr>in_counts := AList.delete f (in_counts i)\<rparr>)
          else (False, i\<lparr>in_counts := AList.update f (n - 1) (in_counts i)\<rparr>))"

definition interest_snapshot :: "interest \<Rightarrow> topic_filter list" where
  "interest_snapshot i = map fst (in_counts i)"

definition is_interested :: "topic_filter \<Rightarrow> interest \<Rightarrow> bool" where
  "is_interested f i \<longleftrightarrow> map_of (in_counts i) f \<noteq> None"

section \<open>Counting\<close>

definition interest_inv :: "interest \<Rightarrow> bool" where
  "interest_inv i \<longleftrightarrow> distinct (map fst (in_counts i)) \<and> (\<forall>f n. map_of (in_counts i) f = Some n \<longrightarrow> 0 < n)"

definition interest_count :: "interest \<Rightarrow> topic_filter \<Rightarrow> nat" where
  "interest_count i f = (case map_of (in_counts i) f of None \<Rightarrow> 0 | Some n \<Rightarrow> n)"

lemma interest_inv_new [inv_intros]: "interest_inv interest_new"
  by (simp add: interest_inv_def interest_new_def)

lemma interest_subscribe_inv [inv_intros]: "interest_inv i \<Longrightarrow> interest_inv (snd (interest_subscribe f i))"
  by (auto simp: interest_inv_def interest_subscribe_def Let_def distinct_update
      simp del: map_of_eq_Some_iff split: if_splits)

lemma interest_unsubscribe_inv [inv_intros]: "interest_inv i \<Longrightarrow> interest_inv (snd (interest_unsubscribe f i))"
  by (auto simp: interest_inv_def interest_unsubscribe_def distinct_update distinct_delete
      simp del: map_of_eq_Some_iff split: option.splits if_splits)

lemma interest_subscribe_count:
  "interest_count (snd (interest_subscribe f i)) = (interest_count i)(f := interest_count i f + 1)"
  "fst (interest_subscribe f i) \<longleftrightarrow> interest_count i f = 0"
  by (auto simp: fun_eq_iff interest_count_def interest_subscribe_def Let_def split: option.splits)

lemma interest_unsubscribe_count:
  "interest_count (snd (interest_unsubscribe f i)) = (interest_count i)(f := interest_count i f - 1)"
  "interest_inv i \<Longrightarrow> fst (interest_unsubscribe f i) \<longleftrightarrow> interest_count i f = 1"
  by (auto simp: fun_eq_iff interest_count_def interest_unsubscribe_def interest_inv_def split: option.splits)

lemma is_interested_count: "interest_inv i \<Longrightarrow> is_interested f i \<longleftrightarrow> 0 < interest_count i f"
  by (auto simp: is_interested_def interest_count_def interest_inv_def split: option.splits)

lemma interest_snapshot_iff: "f \<in> set (interest_snapshot i) \<longleftrightarrow> is_interested f i"
  by (auto simp: interest_snapshot_def is_interested_def map_of_eq_None_iff)

text \<open>A run of subscribe (\<open>Inl\<close>) and unsubscribe (\<open>Inr\<close>) calls, with the announcements it makes.\<close>

fun interest_run :: "(topic_filter + topic_filter) list \<Rightarrow> interest \<Rightarrow> (topic_filter \<times> bool) list \<times> interest" where
  "interest_run [] i = ([], i)"
| "interest_run (Inl f # xs) i =
     (let (first, i') = interest_subscribe f i; (ann, i'') = interest_run xs i'
      in ((if first then (f, True) # ann else ann), i''))"
| "interest_run (Inr f # xs) i =
     (let (last', i') = interest_unsubscribe f i; (ann, i'') = interest_run xs i'
      in ((if last' then (f, False) # ann else ann), i''))"

text \<open>What a peer that hears the announcements believes about one filter.\<close>

fun peer_view :: "topic_filter \<Rightarrow> bool \<Rightarrow> (topic_filter \<times> bool) list \<Rightarrow> bool" where
  "peer_view f b [] = b"
| "peer_view f b ((g, on) # ann) = peer_view f (if f = g then on else b) ann"

fun alternates :: "bool \<Rightarrow> bool list \<Rightarrow> bool" where
  "alternates b [] = True"
| "alternates b (x # xs) = (x \<noteq> b \<and> alternates x xs)"

lemma interest_run_Cons:
  "interest_run (Inl g # xs) i =
     ((if fst (interest_subscribe g i) then [(g, True)] else [])
        @ fst (interest_run xs (snd (interest_subscribe g i))),
      snd (interest_run xs (snd (interest_subscribe g i))))"
  "interest_run (Inr g # xs) i =
     ((if fst (interest_unsubscribe g i) then [(g, False)] else [])
        @ fst (interest_run xs (snd (interest_unsubscribe g i))),
      snd (interest_run xs (snd (interest_unsubscribe g i))))"
  by (simp_all add: split_def Let_def)

lemma interest_subscribe_view:
  assumes "interest_inv i"
  shows "is_interested f (snd (interest_subscribe g i)) \<longleftrightarrow> is_interested f i \<or> f = g"
    and "fst (interest_subscribe g i) \<longleftrightarrow> \<not> is_interested g i"
  using assms interest_subscribe_inv [OF assms, of g]
  by (auto simp: is_interested_count interest_subscribe_count)

lemma interest_unsubscribe_view:
  assumes "interest_inv i"
  shows "is_interested f (snd (interest_unsubscribe g i)) \<longleftrightarrow>
      is_interested f i \<and> \<not> (f = g \<and> fst (interest_unsubscribe g i))"
    and "fst (interest_unsubscribe g i) \<Longrightarrow> is_interested g i"
  using assms interest_unsubscribe_inv [OF assms, of g]
  by (auto simp: is_interested_count interest_unsubscribe_count)

lemma interest_run_view:
  "interest_inv i \<Longrightarrow>
   peer_view f (is_interested f i) (fst (interest_run xs i)) = is_interested f (snd (interest_run xs i))
     \<and> alternates (is_interested f i) (map snd (filter (\<lambda>(g, _). g = f) (fst (interest_run xs i))))"
proof (induction xs arbitrary: i)
  case (Cons x xs)
  show ?case
  proof (cases x)
    case (Inl g)
    show ?thesis
      using Cons.IH [OF interest_subscribe_inv [OF Cons.prems, of g]]
        interest_subscribe_view(1) [OF Cons.prems, of f g] interest_subscribe_view(2) [OF Cons.prems, of g]
      unfolding Inl interest_run_Cons by (cases "f = g") auto
  next
    case (Inr g)
    show ?thesis
      using Cons.IH [OF interest_unsubscribe_inv [OF Cons.prems, of g]]
        interest_unsubscribe_view(1) [OF Cons.prems, of f g] interest_unsubscribe_view(2) [OF Cons.prems, of g]
      unfolding Inr interest_run_Cons by (cases "f = g") auto
  qed
qed simp

section \<open>Properties\<close>

text \<open>Announcements are exact: over every sequence of subscribe and unsubscribe calls from the empty
  registry, a peer that hears each reported transition believes a filter wanted exactly when the
  registry still counts a connection for it, and the announcements for one filter strictly alternate
  between wanted and unwanted, starting with wanted.\<close>

theorem interest_announcements_exact:
  assumes "interest_run xs interest_new = (ann, i)"
  shows "peer_view f False ann = is_interested f i
    \<and> alternates False (map snd (filter (\<lambda>(g, _). g = f) ann))"
proof -
  have "\<not> is_interested f interest_new" by (simp add: is_interested_def interest_new_def)
  then show ?thesis using interest_run_view [OF interest_inv_new, of f xs] assms by simp
qed

theorem interest_announcements_exact_witness:
  "interest_run [Inl (TopicFilter [97]), Inl (TopicFilter [97]), Inr (TopicFilter [97])] interest_new
     = ([(TopicFilter [97], True)], \<lparr>in_counts = [(TopicFilter [97], 1)]\<rparr>)
   \<and> peer_view (TopicFilter [97]) False [(TopicFilter [97], True)]
       = is_interested (TopicFilter [97]) \<lparr>in_counts = [(TopicFilter [97], 1)]\<rparr>"
proof -
  have r: "interest_run [Inl (TopicFilter [97]), Inl (TopicFilter [97]), Inr (TopicFilter [97])] interest_new
     = ([(TopicFilter [97], True)], \<lparr>in_counts = [(TopicFilter [97], 1)]\<rparr>)"
    by (simp add: interest_subscribe_def interest_unsubscribe_def interest_new_def)
  show ?thesis using r interest_announcements_exact [OF r, of "TopicFilter [97]"] by blast
qed

end
