(* ===== verification/Peer_Links.thy ===== *)
theory Peer_Links
  imports Interest Acl
begin

text \<open>
  The registry of live peer links (crates/thoth-mesh-node/src/peer_links.rs): registration and removal of
  the connections of a peer, the broadcast of gossip and of topic interest, and what a reload of the relay
  filter announces and withdraws. A link's disconnect signal is a handle; \<open>disconnect_unless\<close> returns the
  handles it notifies.
\<close>

section \<open>State and operations\<close>

record link =
  ln_sender :: sender
  ln_principal :: principal
  ln_disconnect :: nat

type_synonym peer_links = "(peer_id, link list) hmap"

definition announce_subscribe :: "topic_filter \<Rightarrow> message_kind" where
  "announce_subscribe f = Subscribe f False None False"

definition links_register :: "peer_id \<Rightarrow> sender \<Rightarrow> principal \<Rightarrow> nat \<Rightarrow> peer_links \<Rightarrow> peer_links" where
  "links_register p s pr d ls =
     AList.update p ((case map_of ls p of None \<Rightarrow> [] | Some es \<Rightarrow> es)
       @ [\<lparr>ln_sender = s, ln_principal = pr, ln_disconnect = d\<rparr>]) ls"

definition links_unregister :: "peer_id \<Rightarrow> sender \<Rightarrow> peer_links \<Rightarrow> peer_links" where
  "links_unregister p s ls =
     (case map_of ls p of
        None \<Rightarrow> ls
      | Some entries \<Rightarrow>
          (let entries' = (case position (\<lambda>l. ln_sender l = s) entries of
                             Some i \<Rightarrow> remove_at i entries
                           | None \<Rightarrow> entries)
           in if entries' = [] then AList.delete p ls else AList.update p entries' ls))"

definition all_links :: "peer_links \<Rightarrow> link list" where
  "all_links ls = concat (map snd ls)"

fun try_send_all :: "('w, 'z) runtime_scheme \<Rightarrow> sender list \<Rightarrow> envelope \<Rightarrow> 'w \<Rightarrow> 'w" where
  "try_send_all rt [] e w = w"
| "try_send_all rt (s # ss) e w = try_send_all rt ss e (snd (rt_mpsc_try_send rt s e w))"

definition links_broadcast :: "('w, 'z) runtime_scheme \<Rightarrow> envelope \<Rightarrow> peer_links \<Rightarrow> 'w \<Rightarrow> 'w" where
  "links_broadcast rt e ls w = try_send_all rt (map ln_sender (all_links ls)) e w"

text \<open>The links a relay filter lets an interest announcement reach.\<close>

definition relay_targets :: "topic_filter \<Rightarrow> peer_topic_filter option \<Rightarrow> peer_links \<Rightarrow> link list" where
  "relay_targets f ptf ls =
     (case ptf of
        None \<Rightarrow> all_links ls
      | Some pf \<Rightarrow>
          filter (\<lambda>l. case as_topic f of None \<Rightarrow> False | Some t \<Rightarrow> relay_permits (ln_principal l) t pf) (all_links ls))"

definition broadcast_interest ::
  "('w, 'z) runtime_scheme \<Rightarrow> envelope \<Rightarrow> topic_filter \<Rightarrow> peer_topic_filter option \<Rightarrow> peer_links \<Rightarrow> 'w \<Rightarrow> 'w" where
  "broadcast_interest rt e f ptf ls w =
     (case ptf of
        None \<Rightarrow> links_broadcast rt e ls w
      | Some pf \<Rightarrow> try_send_all rt (map ln_sender (relay_targets f (Some pf) ls)) e w)"

definition disconnect_unless :: "(principal \<Rightarrow> bool) \<Rightarrow> peer_links \<Rightarrow> nat list" where
  "disconnect_unless still_allowed ls =
     map ln_disconnect (filter (\<lambda>l. \<not> still_allowed (ln_principal l)) (all_links ls))"

text \<open>What the reconciliation sends to a link about one filter.\<close>

definition reconcile_kind :: "peer_topic_filter option \<Rightarrow> principal \<Rightarrow> topic_filter \<Rightarrow> message_kind option" where
  "reconcile_kind ptf pr f =
     (case ptf of
        None \<Rightarrow> Some (announce_subscribe f)
      | Some pf \<Rightarrow>
          (case as_topic f of
             None \<Rightarrow> None
           | Some t \<Rightarrow> Some (if relay_permits pr t pf then announce_subscribe f else Unsubscribe f)))"

fun reconcile_kinds :: "interest \<Rightarrow> peer_topic_filter option \<Rightarrow> principal \<Rightarrow> topic_filter list \<Rightarrow> message_kind list" where
  "reconcile_kinds i ptf pr [] = []"
| "reconcile_kinds i ptf pr (f # fs) =
     (if \<not> is_interested f i then reconcile_kinds i ptf pr fs
      else (case reconcile_kind ptf pr f of
              None \<Rightarrow> reconcile_kinds i ptf pr fs
            | Some k \<Rightarrow> k # reconcile_kinds i ptf pr fs))"

fun send_kinds :: "('w, 'z) runtime_scheme \<Rightarrow> peer_id \<Rightarrow> sender \<Rightarrow> message_kind list \<Rightarrow> 'w \<Rightarrow> 'w" where
  "send_kinds rt node s [] w = w"
| "send_kinds rt node s (k # ks) w =
     (let (e, w') = envelope_new rt node k w in send_kinds rt node s ks (snd (rt_mpsc_try_send rt s e w')))"

fun reconcile_links ::
  "('w, 'z) runtime_scheme \<Rightarrow> interest \<Rightarrow> peer_id \<Rightarrow> peer_topic_filter option \<Rightarrow> link list \<Rightarrow> 'w \<Rightarrow> 'w" where
  "reconcile_links rt i node ptf [] w = w"
| "reconcile_links rt i node ptf (l # ls) w =
     reconcile_links rt i node ptf ls
       (send_kinds rt node (ln_sender l) (reconcile_kinds i ptf (ln_principal l) (interest_snapshot i)) w)"

definition reconcile_interest ::
  "('w, 'z) runtime_scheme \<Rightarrow> interest \<Rightarrow> peer_id \<Rightarrow> peer_topic_filter option \<Rightarrow> peer_links \<Rightarrow> 'w \<Rightarrow> 'w" where
  "reconcile_interest rt i node ptf ls w = reconcile_links rt i node ptf (all_links ls) w"

section \<open>Registration counts\<close>

definition link_count :: "peer_id \<Rightarrow> sender \<Rightarrow> peer_links \<Rightarrow> nat" where
  "link_count p s ls = (case map_of ls p of None \<Rightarrow> 0 | Some es \<Rightarrow> length (filter (\<lambda>l. ln_sender l = s) es))"

definition links_ok :: "peer_links \<Rightarrow> bool" where
  "links_ok ls \<longleftrightarrow> distinct (map fst ls) \<and> (\<forall>p es. map_of ls p = Some es \<longrightarrow> es \<noteq> [])"

lemma filter_remove_at:
  assumes "position P xs = Some i"
  shows "length (filter P (remove_at i xs)) = length (filter P xs) - 1"
    "\<And>Q. (\<And>x. Q x \<Longrightarrow> \<not> P x) \<Longrightarrow> filter Q (remove_at i xs) = filter Q xs"
proof -
  from position_Some [OF assms] have i: "i < length xs" "P (xs ! i)" by auto
  obtain us vs where s: "xs = us @ xs ! i # vs" "remove_at i xs = us @ vs" using remove_at_split [OF i(1)] by metis
  have "length (filter P xs) = Suc (length (filter P (us @ vs)))"
    using i(2) by (subst s(1)) simp
  then show "length (filter P (remove_at i xs)) = length (filter P xs) - 1" by (simp add: s(2))
  show "filter Q (remove_at i xs) = filter Q xs" if "\<And>x. Q x \<Longrightarrow> \<not> P x" for Q
  proof -
    have "\<not> Q (xs ! i)" using that i(2) by blast
    then have "filter Q (us @ xs ! i # vs) = filter Q (us @ vs)" by simp
    then show ?thesis by (simp only: s(2) flip: s(1))
  qed
qed

lemma link_count_register:
  "link_count q x (links_register p s pr d ls) = link_count q x ls + (if q = p \<and> x = s then 1 else 0)"
  by (auto simp: link_count_def links_register_def split: option.splits)

lemma link_count_unregister:
  "link_count q x (links_unregister p s ls) = link_count q x ls - (if q = p \<and> x = s then 1 else 0)"
proof (cases "map_of ls p")
  case (Some es)
  show ?thesis
  proof (cases "position (\<lambda>l. ln_sender l = s) es")
    case None
    then have "filter (\<lambda>l. ln_sender l = s) es = []" by (simp add: position_None filter_empty_conv)
    with None Some show ?thesis by (auto simp: link_count_def links_unregister_def split: option.splits)
  next
    case pos: (Some i)
    note f = filter_remove_at [OF pos]
    have len: "length (filter (\<lambda>l. ln_sender l = x) (remove_at i es))
        = length (filter (\<lambda>l. ln_sender l = x) es) - (if x = s then 1 else 0)" for x
      using f(1) f(2) [of "\<lambda>l. ln_sender l = x"] by auto
    have gone: "length (filter (\<lambda>l. ln_sender l = x) es) - (if x = s then 1 else 0) = 0" if "remove_at i es = []"
      using that len [of x] by simp
    show ?thesis
    proof (cases "q = p")
      case True
      with len [of x] gone pos Some show ?thesis
        by (cases "remove_at i es = []") (simp_all add: link_count_def links_unregister_def)
    qed (use pos Some in \<open>simp add: link_count_def links_unregister_def Let_def\<close>)
  qed
qed (simp add: link_count_def links_unregister_def)

lemma links_ok_register: "links_ok ls \<Longrightarrow> links_ok (links_register p s pr d ls)"
  by (auto simp: links_ok_def links_register_def distinct_update simp del: map_of_eq_Some_iff split: if_splits)

lemma links_ok_unregister: "links_ok ls \<Longrightarrow> links_ok (links_unregister p s ls)"
  by (auto simp: links_ok_def links_unregister_def Let_def distinct_update distinct_delete
      simp del: map_of_eq_Some_iff split: option.splits if_splits)

datatype links_op = Register peer_id sender principal nat | Unregister peer_id sender

fun links_step :: "links_op \<Rightarrow> peer_links \<Rightarrow> peer_links" where
  "links_step (Register p s pr d) ls = links_register p s pr d ls"
| "links_step (Unregister p s) ls = links_unregister p s ls"

fun count_step :: "links_op \<Rightarrow> (peer_id \<times> sender \<Rightarrow> nat) \<Rightarrow> peer_id \<times> sender \<Rightarrow> nat" where
  "count_step (Register p s _ _) c = c((p, s) := c (p, s) + 1)"
| "count_step (Unregister p s) c = c((p, s) := c (p, s) - 1)"

lemma links_step_count:
  "(\<lambda>(q, x). link_count q x (links_step op ls)) = count_step op (\<lambda>(q, x). link_count q x ls)"
  by (cases op) (auto simp: fun_eq_iff link_count_register link_count_unregister)

text \<open>The registry counts connections, not identities: over every sequence of registrations and removals, the number of
  entries of a connection under a peer is the number of its registrations less its removals (never below
  zero), independently of every other connection and peer, and a peer with no connection left has no entry.\<close>

theorem peer_links_refine_counts:
  "(\<lambda>(q, x). link_count q x (fold links_step ops [])) = fold count_step ops (\<lambda>_. 0)
   \<and> (\<forall>p es. (p, es) \<in> set (fold links_step ops []) \<longrightarrow> es \<noteq> [])"
proof -
  have "links_ok (fold links_step ops []) \<and> (\<lambda>(q, x). link_count q x (fold links_step ops [])) = fold count_step ops (\<lambda>_. 0)"
  proof (induction ops rule: rev_induct)
    case Nil
    show ?case by (auto simp: links_ok_def link_count_def)
  next
    case (snoc op ops)
    then show ?case
      using links_step_count [of op "fold links_step ops []"]
      by (cases op) (auto simp: links_ok_register links_ok_unregister)
  qed
  moreover from this have "distinct (map fst (fold links_step ops []))" by (simp add: links_ok_def)
  ultimately show ?thesis by (auto simp: links_ok_def)
qed

theorem peer_links_refine_counts_witness:
  "link_count (PeerId [1]) 7 (fold links_step [Register (PeerId [1]) 7 Anonymous 0, Register (PeerId [1]) 7 Anonymous 0,
      Unregister (PeerId [1]) 7] []) = 1"
  using fun_cong [OF conjunct1 [OF peer_links_refine_counts [of "[Register (PeerId [1]) 7 Anonymous 0,
      Register (PeerId [1]) 7 Anonymous 0, Unregister (PeerId [1]) 7]"]], of "(PeerId [1], 7)"]
  by simp

section \<open>Reconciliation\<close>

declare as_topic_None [simp del] as_topic_Some [simp del]

text \<open>What a peer believes after hearing a sequence of announcements.\<close>

fun hear :: "message_kind list \<Rightarrow> topic_filter set \<Rightarrow> topic_filter set" where
  "hear [] v = v"
| "hear (k # ks) v =
     hear ks (case k of Subscribe f _ _ _ \<Rightarrow> insert f v | Unsubscribe f \<Rightarrow> v - {f} | _ \<Rightarrow> v)"

lemma hear_reconcile:
  "g \<in> hear (reconcile_kinds i ptf pr fs) v \<longleftrightarrow>
     (if g \<in> set fs \<and> is_interested g i then
        (case ptf of
           None \<Rightarrow> True
         | Some pf \<Rightarrow> (case as_topic g of None \<Rightarrow> g \<in> v | Some t \<Rightarrow> relay_permits pr t pf))
      else g \<in> v)"
proof (induction fs arbitrary: v)
  case (Cons f fs)
  show ?case
  proof (cases "is_interested f i")
    case False
    then have "reconcile_kinds i ptf pr (f # fs) = reconcile_kinds i ptf pr fs" by simp
    with False Cons [of v] show ?thesis by (cases "g = f") simp_all
  next
    case True
    consider (all) "ptf = None" | (wild) pf where "ptf = Some pf" "as_topic f = None"
      | (literal) pf t where "ptf = Some pf" "as_topic f = Some t" by (cases ptf; cases "as_topic f") auto
    then show ?thesis
    proof cases
      case all
      with True have "reconcile_kinds i ptf pr (f # fs) = announce_subscribe f # reconcile_kinds i ptf pr fs"
        by (simp add: reconcile_kind_def)
      with Cons [of "insert f v"] all True show ?thesis
        by (cases "g = f") (simp_all add: announce_subscribe_def)
    next
      case wild
      with True have "reconcile_kinds i ptf pr (f # fs) = reconcile_kinds i ptf pr fs" by (simp add: reconcile_kind_def)
      with Cons [of v] wild True show ?thesis by (cases "g = f") simp_all
    next
      case (literal pf t)
      let ?k = "if relay_permits pr t pf then announce_subscribe f else Unsubscribe f"
      from literal True have "reconcile_kinds i ptf pr (f # fs) = ?k # reconcile_kinds i ptf pr fs"
        by (simp add: reconcile_kind_def)
      with Cons [of "insert f v"] Cons [of "v - {f}"] literal True show ?thesis
        by (cases "g = f"; cases "relay_permits pr t pf"; cases "as_topic g") (simp_all add: announce_subscribe_def)
    qed
  qed
qed simp



text \<open>A wildcard interest outlives the filter that should hide it: it is announced to every link while no relay filter
  is configured, and after a reload that configures one, however restrictive, nothing withdraws it.\<close>

theorem wildcard_interest_not_withdrawn:
  "as_topic f = None \<Longrightarrow>
     set (relay_targets f None ls) = set (all_links ls)
     \<and> f \<in> hear (reconcile_kinds i (Some pf) pr (interest_snapshot i)) (hear [announce_subscribe f] {})"
  by (auto simp: relay_targets_def hear_reconcile announce_subscribe_def split: option.splits)

theorem wildcard_interest_not_withdrawn_witness:
  "TopicFilter [35] \<in> hear (reconcile_kinds \<lparr>in_counts = [(TopicFilter [35], 1)]\<rparr> (Some \<lparr>ptf_entries = {}\<rparr>) Anonymous
       (interest_snapshot \<lparr>in_counts = [(TopicFilter [35], 1)]\<rparr>)) (hear [announce_subscribe (TopicFilter [35])] {})"
proof -
  have "as_topic (TopicFilter [35]) = None" by (simp add: as_topic_def is_literal_def wildcard_defs)
  from wildcard_interest_not_withdrawn [OF this] show ?thesis by blast
qed

end
