(* ===== verification/Framing.thy ===== *)
theory Framing
  imports Messages
begin

unbundle bit_operations_syntax

text \<open>
  Length-prefixed frames (crates/thoth-mesh-core/src/framing.rs and its async twin
  async_framing.rs) and the dialling half of the peer handshake
  (crates/thoth-mesh/src/handshake.rs). The reader and the writer are parameters
  (\<open>read_exact\<close> and \<open>write_all\<close> of the stream), so that the definitions cover every stream;
  the round trips are stated on byte buffers.
\<close>

section \<open>Frames\<close>

datatype framing_error = FramingIo io_error | FrameTooLarge u32 u32

definition MAX_FRAME_LEN :: u32 where
  "MAX_FRAME_LEN = 16 * 1024 * 1024"

type_synonym 'r read_exact = "nat \<Rightarrow> 'r \<Rightarrow> io_error + (u8 list \<times> 'r)"
type_synonym 'w write_all = "u8 list \<Rightarrow> 'w \<Rightarrow> io_error + 'w"

definition u32_to_be_bytes :: "u32 \<Rightarrow> u8 list" where
  "u32_to_be_bytes n = [ucast (drop_bit 24 n), ucast (drop_bit 16 n), ucast (drop_bit 8 n), ucast n]"

definition u32_from_be_bytes :: "u8 list \<Rightarrow> u32" where
  "u32_from_be_bytes bs = foldl (\<lambda>acc b. push_bit 8 acc OR ucast b) 0 bs"

text \<open>\<open>u32::try_from(usize)\<close>.\<close>

definition u32_try_from :: "nat \<Rightarrow> u32 option" where
  "u32_try_from n = (if n < 2 ^ 32 then Some (of_nat n) else None)"

definition write_frame :: "'w write_all \<Rightarrow> u8 list \<Rightarrow> 'w \<Rightarrow> framing_error + 'w" where
  "write_frame wr payload w =
     (case u32_try_from (length payload) of
        None \<Rightarrow> Inl (FrameTooLarge (- 1) MAX_FRAME_LEN)
      | Some len \<Rightarrow>
          if len > MAX_FRAME_LEN then Inl (FrameTooLarge len MAX_FRAME_LEN)
          else (case wr (u32_to_be_bytes len) w of
                  Inl e \<Rightarrow> Inl (FramingIo e)
                | Inr w' \<Rightarrow> (case wr payload w' of Inl e \<Rightarrow> Inl (FramingIo e) | Inr w'' \<Rightarrow> Inr w'')))"

definition read_frame :: "'r read_exact \<Rightarrow> 'r \<Rightarrow> framing_error + (u8 list \<times> 'r)" where
  "read_frame rd r =
     (case rd 4 r of
        Inl e \<Rightarrow> Inl (FramingIo e)
      | Inr (len_bytes, r') \<Rightarrow>
          (let len = u32_from_be_bytes len_bytes in
           if len > MAX_FRAME_LEN then Inl (FrameTooLarge len MAX_FRAME_LEN)
           else (case rd (unat len) r' of
                   Inl e \<Rightarrow> Inl (FramingIo e)
                 | Inr (payload, r'') \<Rightarrow> Inr (payload, r''))))"

text \<open>The async functions are the same statements with \<open>.await\<close> on each stream operation.\<close>

definition async_write_frame :: "'w write_all \<Rightarrow> u8 list \<Rightarrow> 'w \<Rightarrow> framing_error + 'w" where
  "async_write_frame wr payload w =
     (case u32_try_from (length payload) of
        None \<Rightarrow> Inl (FrameTooLarge (- 1) MAX_FRAME_LEN)
      | Some len \<Rightarrow>
          if len > MAX_FRAME_LEN then Inl (FrameTooLarge len MAX_FRAME_LEN)
          else (case wr (u32_to_be_bytes len) w of
                  Inl e \<Rightarrow> Inl (FramingIo e)
                | Inr w' \<Rightarrow> (case wr payload w' of Inl e \<Rightarrow> Inl (FramingIo e) | Inr w'' \<Rightarrow> Inr w'')))"

definition async_read_frame :: "'r read_exact \<Rightarrow> 'r \<Rightarrow> framing_error + (u8 list \<times> 'r)" where
  "async_read_frame rd r =
     (case rd 4 r of
        Inl e \<Rightarrow> Inl (FramingIo e)
      | Inr (len_bytes, r') \<Rightarrow>
          (let len = u32_from_be_bytes len_bytes in
           if len > MAX_FRAME_LEN then Inl (FrameTooLarge len MAX_FRAME_LEN)
           else (case rd (unat len) r' of
                   Inl e \<Rightarrow> Inl (FramingIo e)
                 | Inr (payload, r'') \<Rightarrow> Inr (payload, r''))))"

text \<open>The two standard-library streams the tests use: \<open>&[u8]\<close> as a reader, \<open>Vec<u8>\<close> as a writer.\<close>

definition slice_read :: "u8 list read_exact" where
  "slice_read n bs = (if n \<le> length bs then Inr (take n bs, drop n bs) else Inl UnexpectedEof)"

definition vec_write :: "u8 list write_all" where
  "vec_write bs buf = Inr (buf @ bs)"

fun write_frames :: "u8 list list \<Rightarrow> u8 list \<Rightarrow> framing_error + u8 list" where
  "write_frames [] buf = Inr buf"
| "write_frames (p # ps) buf =
     (case write_frame vec_write p buf of Inl e \<Rightarrow> Inl e | Inr buf' \<Rightarrow> write_frames ps buf')"

fun read_frames :: "nat \<Rightarrow> u8 list \<Rightarrow> framing_error + (u8 list list \<times> u8 list)" where
  "read_frames 0 buf = Inr ([], buf)"
| "read_frames (Suc n) buf =
     (case read_frame slice_read buf of
        Inl e \<Rightarrow> Inl e
      | Inr (p, buf') \<Rightarrow> (case read_frames n buf' of Inl e \<Rightarrow> Inl e | Inr (ps, b) \<Rightarrow> Inr (p # ps, b)))"

lemma be_bytes_length [simp]: "length (u32_to_be_bytes n) = 4"
  by (simp add: u32_to_be_bytes_def)

lemma be_bytes_round_trip [simp]: "u32_from_be_bytes (u32_to_be_bytes n) = n"
proof (rule bit_word_eqI)
  fix i :: nat
  assume "i < LENGTH(32)"
  then have i: "i < 32" by simp
  then consider "i < 8" | "8 \<le> i" "i < 16" | "16 \<le> i" "i < 24" | "24 \<le> i" "i < 32" by linarith
  then show "bit (u32_from_be_bytes (u32_to_be_bytes n)) i = bit n i"
    by cases (auto simp: u32_from_be_bytes_def u32_to_be_bytes_def bit_simps)
qed

lemma unat_of_nat_u32: "n < 2 ^ 32 \<Longrightarrow> unat (of_nat n :: u32) = n"
  by (simp add: unat_of_nat)

lemma u32_le_MAX: "n < 2 ^ 32 \<Longrightarrow> (of_nat n :: u32) > MAX_FRAME_LEN \<longleftrightarrow> 16777216 < n"
  by (simp add: word_less_nat_alt unat_of_nat MAX_FRAME_LEN_def)

lemma write_frame_small:
  assumes "length payload \<le> 16777216"
  shows "write_frame vec_write payload buf =
           Inr (buf @ u32_to_be_bytes (of_nat (length payload)) @ payload)"
  using assms by (simp add: write_frame_def u32_try_from_def u32_le_MAX vec_write_def)

lemma read_frame_written:
  assumes "length payload \<le> 16777216"
  shows "read_frame slice_read (u32_to_be_bytes (of_nat (length payload)) @ payload @ rest) = Inr (payload, rest)"
  using assms by (simp add: read_frame_def slice_read_def u32_le_MAX unat_of_nat_u32 Let_def)

lemma write_frame_large:
  "length payload > 16777216 \<Longrightarrow> \<exists>len. write_frame wr payload w = Inl (FrameTooLarge len MAX_FRAME_LEN)"
  by (auto simp: write_frame_def u32_try_from_def u32_le_MAX)

lemma write_frames_app:
  "\<forall>p \<in> set ps. length p \<le> 16777216 \<Longrightarrow>
   write_frames ps buf = Inr (buf @ concat (map (\<lambda>p. u32_to_be_bytes (of_nat (length p)) @ p) ps))"
  by (induction ps arbitrary: buf) (auto simp: write_frame_small)

lemma read_frames_written:
  "\<forall>p \<in> set ps. length p \<le> 16777216 \<Longrightarrow>
   read_frames (length ps) (concat (map (\<lambda>p. u32_to_be_bytes (of_nat (length p)) @ p) ps) @ rest) = Inr (ps, rest)"
  by (induction ps) (auto simp: read_frame_written)

lemma async_same: "async_write_frame = write_frame" "async_read_frame = read_frame"
  by (simp_all add: fun_eq_iff async_write_frame_def write_frame_def async_read_frame_def read_frame_def)

section \<open>The dialling handshake\<close>

record peer_info =
  pi_peer_id :: peer_id
  pi_listen_addr :: "rstr option"
  pi_hello_id :: message_id

datatype handshake_error =
    HsFraming framing_error | HsDecode decode_error | HsEncode encode_error
  | HsUnexpectedMessage message_kind

definition hello ::
  "('w, 'z) runtime_scheme \<Rightarrow> peer_id \<Rightarrow> rstr option \<Rightarrow> 'w \<Rightarrow> envelope \<times> 'w" where
  "hello rt sender listen_addr w = envelope_new rt sender (Hello listen_addr) w"

definition hs_send :: "codec \<Rightarrow> 's write_all \<Rightarrow> envelope \<Rightarrow> 's \<Rightarrow> handshake_error + 's" where
  "hs_send c wr e s =
     (case to_bytes c e of
        Inl err \<Rightarrow> Inl (HsEncode err)
      | Inr bs \<Rightarrow> (case async_write_frame wr bs s of Inl err \<Rightarrow> Inl (HsFraming err) | Inr s' \<Rightarrow> Inr s'))"

definition recv_hello :: "codec \<Rightarrow> 's read_exact \<Rightarrow> 's \<Rightarrow> handshake_error + (peer_info \<times> 's)" where
  "recv_hello c rd s =
     (case async_read_frame rd s of
        Inl err \<Rightarrow> Inl (HsFraming err)
      | Inr (bs, s') \<Rightarrow>
          (case from_bytes c bs of
             Inl err \<Rightarrow> Inl (HsDecode err)
           | Inr e \<Rightarrow>
               (case env_kind e of
                  Hello addr \<Rightarrow>
                    Inr (\<lparr>pi_peer_id = env_sender e, pi_listen_addr = addr, pi_hello_id = env_id e\<rparr>, s')
                | other \<Rightarrow> Inl (HsUnexpectedMessage other))))"

definition dial_handshake ::
  "('w, 'z) runtime_scheme \<Rightarrow> codec \<Rightarrow> 's read_exact \<Rightarrow> 's write_all \<Rightarrow> peer_id \<Rightarrow> rstr option
     \<Rightarrow> 's \<Rightarrow> 'w \<Rightarrow> (handshake_error + (peer_info \<times> 's)) \<times> 'w" where
  "dial_handshake rt c rd wr my_id my_addr s w =
     (let (e, w') = hello rt my_id my_addr w in
      (case hs_send c wr e s of
         Inl err \<Rightarrow> (Inl err, w')
       | Inr s' \<Rightarrow> (recv_hello c rd s', w')))"

text \<open>An in-memory duplex stream: what the far end sent, and what was written to it.\<close>

type_synonym duplex = "u8 list \<times> u8 list"

definition duplex_read :: "duplex read_exact" where
  "duplex_read n s = (case slice_read n (fst s) of Inl e \<Rightarrow> Inl e | Inr (bs, r) \<Rightarrow> Inr (bs, (r, snd s)))"

definition duplex_write :: "duplex write_all" where
  "duplex_write bs s = Inr (fst s, snd s @ bs)"

lemma read_frame_duplex:
  "read_frame duplex_read (r, o') =
     (case read_frame slice_read r of Inl e \<Rightarrow> Inl e | Inr (p, r') \<Rightarrow> Inr (p, (r', o')))"
  by (simp add: read_frame_def duplex_read_def Let_def split: sum.split prod.split)

lemma write_frame_duplex:
  "length p \<le> 16777216 \<Longrightarrow>
   write_frame duplex_write p (r, o') = Inr (r, o' @ u32_to_be_bytes (of_nat (length p)) @ p)"
  by (simp add: write_frame_def u32_try_from_def u32_le_MAX duplex_write_def)

section \<open>Properties\<close>

text \<open>Frames round-trip in sequence: if every payload fits the 16 MiB limit, writing the payloads
  one after the other succeeds, and reading that many frames back from the bytes written, whatever
  follows them, returns exactly those payloads in order and leaves exactly what followed.\<close>

theorem frames_round_trip:
  assumes "\<forall>p \<in> set ps. length p \<le> unat MAX_FRAME_LEN"
  shows "\<exists>buf. write_frames ps [] = Inr buf \<and> read_frames (length ps) (buf @ rest) = Inr (ps, rest)"
proof -
  have "\<forall>p \<in> set ps. length p \<le> 16777216" using assms by (simp add: MAX_FRAME_LEN_def)
  then show ?thesis by (simp add: write_frames_app read_frames_written)
qed

theorem frames_round_trip_witness:
  "\<exists>buf. write_frames [[1, 2], []] [] = Inr buf
     \<and> read_frames (length [[1, 2], [] :: u8 list]) (buf @ [9]) = Inr ([[1, 2], []], [9])"
  by (rule frames_round_trip) (simp add: MAX_FRAME_LEN_def)

text \<open>Framing never exceeds its limit: a frame that is read has at most \<open>MAX_FRAME_LEN\<close> bytes
  whatever the stream claims, provided the stream returns as many bytes as asked; and a payload over
  the limit is refused before anything is written.\<close>

theorem frame_length_bounded:
  assumes "\<And>n r bs r'. rd n r = Inr (bs, r') \<Longrightarrow> length bs = n"
  shows "(read_frame rd r = Inr (payload, r') \<longrightarrow> length payload \<le> unat MAX_FRAME_LEN)
    \<and> (length big > unat MAX_FRAME_LEN \<longrightarrow>
         (\<exists>len. write_frame wr big w = Inl (FrameTooLarge len MAX_FRAME_LEN)))"
proof (intro conjI impI)
  assume r: "read_frame rd r = Inr (payload, r')"
  then obtain lb r1 where "rd (unat (u32_from_be_bytes lb)) r1 = Inr (payload, r')"
    and "u32_from_be_bytes lb \<le> MAX_FRAME_LEN"
    by (auto simp: read_frame_def Let_def not_less split: sum.splits if_splits)
  with assms show "length payload \<le> unat MAX_FRAME_LEN" by (metis word_le_nat_alt)
next
  assume "length big > unat MAX_FRAME_LEN"
  then show "\<exists>len. write_frame wr big w = Inl (FrameTooLarge len MAX_FRAME_LEN)"
    by (intro write_frame_large) (simp add: MAX_FRAME_LEN_def)
qed

theorem frame_length_bounded_witness:
  "read_frame slice_read [0, 0, 0, 1, 7] = Inr ([7], []) \<and> length [7 :: u8] \<le> unat MAX_FRAME_LEN
   \<and> (\<exists>len. write_frame vec_write (replicate 16777217 0) [] = Inl (FrameTooLarge len MAX_FRAME_LEN))"
proof -
  have rd: "slice_read n r = Inr (bs, r') \<Longrightarrow> length bs = n" for n r bs r'
    by (auto simp: slice_read_def split: if_splits)
  have one: "read_frame slice_read [0, 0, 0, 1, 7] = Inr ([7], [])"
    by (simp add: read_frame_def slice_read_def u32_from_be_bytes_def MAX_FRAME_LEN_def)
  have big: "length (replicate 16777217 (0 :: u8)) > unat MAX_FRAME_LEN"
    by (simp add: MAX_FRAME_LEN_def)
  have "(read_frame slice_read [0, 0, 0, 1, 7] = Inr ([7], []) \<longrightarrow> length [7 :: u8] \<le> unat MAX_FRAME_LEN)
    \<and> (length (replicate 16777217 (0 :: u8)) > unat MAX_FRAME_LEN \<longrightarrow>
         (\<exists>len. write_frame vec_write (replicate 16777217 0) [] = Inl (FrameTooLarge len MAX_FRAME_LEN)))"
    by (rule frame_length_bounded) (rule rd)
  with one big show ?thesis by blast
qed

text \<open>The async framing used on sockets is the sync framing: on every stream and payload the two
  writers and the two readers return the same result.\<close>

theorem async_framing_equivalent:
  "async_write_frame wr payload w = write_frame wr payload w \<and> async_read_frame rd r = read_frame rd r"
  by (simp add: async_same)

text \<open>The dialling handshake succeeds against a peer that sends its \<open>Hello\<close> first: it writes our own
  \<open>Hello\<close> as one frame and returns the peer's identity, address and \<open>Hello\<close> id, leaving the bytes after
  the peer's frame unread. The hypotheses are that the codec round-trips and that both messages encode
  into a frame.\<close>

theorem dial_handshake_succeeds:
  assumes "codec_round_trip c"
    and "hello rt my_id my_addr w = (mine, w')" and "to_bytes c mine = Inr bs"
    and "length bs \<le> unat MAX_FRAME_LEN"
    and "env_kind theirs = Hello their_addr" and "to_bytes c theirs = Inr bs'"
    and "length bs' \<le> unat MAX_FRAME_LEN"
    and "write_frame vec_write bs' [] = Inr wire"
  shows "\<exists>sent. dial_handshake rt c duplex_read duplex_write my_id my_addr (wire @ rest, []) w =
      (Inr (\<lparr>pi_peer_id = env_sender theirs, pi_listen_addr = their_addr, pi_hello_id = env_id theirs\<rparr>,
            (rest, sent)), w')
    \<and> read_frame slice_read sent = Inr (bs, []) \<and> from_bytes c bs = Inr mine
    \<and> env_sender mine = my_id \<and> env_kind mine = Hello my_addr"
proof -
  let ?sent = "u32_to_be_bytes (of_nat (length bs)) @ bs"
  have len: "length bs \<le> 16777216" "length bs' \<le> 16777216"
    using assms(4,7) by (simp_all add: MAX_FRAME_LEN_def)
  have wire: "wire = u32_to_be_bytes (of_nat (length bs')) @ bs'"
    using assms(8) len by (simp add: write_frame_small)
  have dec: "from_bytes c bs' = Inr theirs" "from_bytes c bs = Inr mine"
    using assms from_bytes_to_bytes by blast+
  have "hs_send c duplex_write mine (wire @ rest, []) = Inr (wire @ rest, ?sent)"
    using assms(3) len by (simp add: hs_send_def async_same write_frame_duplex)
  moreover have "recv_hello c duplex_read (wire @ rest, ?sent) =
      Inr (\<lparr>pi_peer_id = env_sender theirs, pi_listen_addr = their_addr, pi_hello_id = env_id theirs\<rparr>,
           (rest, ?sent))"
    using assms(5) len dec by (simp add: recv_hello_def async_same read_frame_duplex wire read_frame_written)
  moreover have "read_frame slice_read ?sent = Inr (bs, [])"
    using read_frame_written [of bs "[]"] len by simp
  moreover have "env_sender mine = my_id" "env_kind mine = Hello my_addr"
    using assms(2) envelope_new_fields by (auto simp: hello_def)
  ultimately show ?thesis using assms(2) dec by (intro exI [of _ ?sent]) (simp add: dial_handshake_def)
qed

theorem dial_handshake_succeeds_witness:
  "let theirs = \<lparr>env_version = 1, env_id = MessageId [9], env_sender = PeerId [9], env_kind = Hello None\<rparr>;
       mine = fst (hello world_rt (PeerId [1]) None world0)
   in \<exists>sent. dial_handshake world_rt (pair_codec mine theirs) duplex_read duplex_write (PeerId [1]) None
          ([0, 0, 0, 1, 1] @ [7], []) world0 =
        (Inr (\<lparr>pi_peer_id = PeerId [9], pi_listen_addr = None, pi_hello_id = MessageId [9]\<rparr>, ([7], sent)),
         snd (hello world_rt (PeerId [1]) None world0))"
proof -
  define theirs where "theirs = \<lparr>env_version = 1, env_id = MessageId [9], env_sender = PeerId [9],
    env_kind = Hello None\<rparr>"
  define mine where "mine = fst (hello world_rt (PeerId [1]) None world0)"
  have ne: "mine \<noteq> theirs"
    by (simp add: mine_def theirs_def hello_def envelope_new_def message_id_new_def world_defs)
  have b: "to_bytes (pair_codec mine theirs) mine = Inr [0]" "to_bytes (pair_codec mine theirs) theirs = Inr [1]"
    using ne by (simp_all add: to_bytes_def pair_codec_def)
  have w: "write_frame vec_write [1] [] = Inr [0, 0, 0, 1, 1]"
    by (subst write_frame_small) (simp_all add: u32_to_be_bytes_def)
  show ?thesis
    using dial_handshake_succeeds [where rt = world_rt and my_id = "PeerId [1]" and my_addr = None
        and w = world0 and mine = mine and w' = "snd (hello world_rt (PeerId [1]) None world0)"
        and c = "pair_codec mine theirs" and theirs = theirs and their_addr = None and rest = "[7]",
        OF pair_codec_round_trip _ b(1) _ _ b(2) _ w]
    by (simp add: mine_def [symmetric] theirs_def [symmetric] MAX_FRAME_LEN_def)
       (auto simp: mine_def theirs_def)
qed

end
