(* ===== verification/Tls.thy ===== *)
theory Tls
  imports Framing Acl
begin

text \<open>
  Transport security (crates/thoth-mesh-tls/src/lib.rs, stream.rs and \<open>fingerprint\<close> of fingerprint.rs;
  crates/thoth-mesh-node/src/tls_config.rs): loading certificates and keys, the two configurations that are built from
  them, and the stream that is a plain socket or a TLS session. The crates rustls, rustls-pki-types and ring are the
  parameter \<open>tls_lib\<close>. A configuration is the record of what was given to its builder. Installing the process-wide
  cryptography provider changes no result and is left out.
\<close>

section \<open>The library\<close>

type_synonym cert = "u8 list"
type_synonym private_key = "u8 list"

datatype pem_error = NoItemsFound | PemFailed rstr

datatype rustls_error = RustlsGeneral rstr | RustlsOther rstr

text \<open>What the accepting side was configured with: \<open>sv_client_cert_required\<close> is the absence of \<open>allow_unauthenticated\<close>.\<close>

record server_tls =
  sv_roots :: "cert list"
  sv_client_cert_required :: bool
  sv_identity :: "cert list \<times> private_key"

record client_tls =
  cl_roots :: "cert list"
  cl_identity :: "(cert list \<times> private_key) option"

text \<open>
  \<open>tl_pem_certs\<close> is \<open>pem_file_iter\<close> with the results of its iteration, \<open>tl_verifier\<close> and \<open>tl_check_identity\<close> are the checks in which
  building a verifier and installing a certificate with its key may fail. The digest of \<open>tl_sha256\<close> has 32 bytes, a fixed-size array in the source.
\<close>

record ('tcp, 'srv, 'cli, 'name) tls_lib =
  tl_pem_certs :: "path \<Rightarrow> pem_error + (pem_error + cert) list"
  tl_pem_key :: "path \<Rightarrow> pem_error + private_key"
  tl_pem_text :: "pem_error \<Rightarrow> rstr"
  tl_trust_anchor :: "cert \<Rightarrow> bool"
  tl_verifier :: "cert list \<Rightarrow> rstr option"
  tl_check_identity :: "cert list \<Rightarrow> private_key \<Rightarrow> rustls_error option"
  tl_sha256 :: "u8 list \<Rightarrow> u8 list"
  tl_server_name :: "rstr \<Rightarrow> 'name option"
  tl_accept :: "server_tls \<Rightarrow> 'tcp \<Rightarrow> io_error + 'srv"
  tl_connect :: "client_tls \<Rightarrow> 'name \<Rightarrow> 'tcp \<Rightarrow> io_error + 'cli"
  tl_server_peer_certs :: "'srv \<Rightarrow> cert list option"
  tl_client_peer_certs :: "'cli \<Rightarrow> cert list option"

section \<open>Certificates and keys\<close>

datatype tls_error = TlsIo path io_error | NoCertificates path | NoPrivateKey path | TlsRustls rustls_error

definition fingerprint :: "('tcp, 'srv, 'cli, 'name) tls_lib \<Rightarrow> cert \<Rightarrow> u8 list" where
  "fingerprint lib cert = tl_sha256 lib cert"

definition pem_error_to_io :: "('tcp, 'srv, 'cli, 'name) tls_lib \<Rightarrow> pem_error \<Rightarrow> io_error" where
  "pem_error_to_io lib err = OtherIo (tl_pem_text lib err)"

text \<open>\<open>collect::<Result<Vec<_>, _>>()\<close>: the first error ends it.\<close>

fun collect_results :: "('e + 'a) list \<Rightarrow> 'e + 'a list" where
  "collect_results [] = Inr []"
| "collect_results (r # rs) = and_then r (\<lambda>x. and_then (collect_results rs) (\<lambda>xs. Inr (x # xs)))"

definition load_certs :: "('tcp, 'srv, 'cli, 'name) tls_lib \<Rightarrow> path \<Rightarrow> tls_error + cert list" where
  "load_certs lib p =
     (case tl_pem_certs lib p of
        Inl err \<Rightarrow> Inl (TlsIo p (pem_error_to_io lib err))
      | Inr items \<Rightarrow>
          (case collect_results items of
             Inl err \<Rightarrow> Inl (TlsIo p (pem_error_to_io lib err))
           | Inr certs \<Rightarrow> if certs = [] then Inl (NoCertificates p) else Inr certs))"

definition load_private_key :: "('tcp, 'srv, 'cli, 'name) tls_lib \<Rightarrow> path \<Rightarrow> tls_error + private_key" where
  "load_private_key lib p =
     (case tl_pem_key lib p of
        Inr k \<Rightarrow> Inr k
      | Inl NoItemsFound \<Rightarrow> Inl (NoPrivateKey p)
      | Inl err \<Rightarrow> Inl (TlsIo p (pem_error_to_io lib err)))"

section \<open>The configurations\<close>

fun root_store_add :: "('tcp, 'srv, 'cli, 'name) tls_lib \<Rightarrow> cert list \<Rightarrow> cert list \<Rightarrow> tls_error + cert list" where
  "root_store_add lib [] roots = Inr roots"
| "root_store_add lib (c # cs) roots =
     (if tl_trust_anchor lib c then root_store_add lib cs (roots @ [c])
      else Inl (TlsRustls (RustlsGeneral (str ''invalid CA certificate''))))"

definition root_store :: "('tcp, 'srv, 'cli, 'name) tls_lib \<Rightarrow> cert list \<Rightarrow> tls_error + cert list" where
  "root_store lib ca_certs = root_store_add lib ca_certs []"

definition server_config ::
  "('tcp, 'srv, 'cli, 'name) tls_lib \<Rightarrow> cert list \<Rightarrow> private_key \<Rightarrow> cert list \<Rightarrow> tls_error + server_tls" where
  "server_config lib cert key ca_certs =
     and_then (root_store lib ca_certs) (\<lambda>roots.
       (case tl_verifier lib roots of
          Some err \<Rightarrow> Inl (TlsRustls (RustlsGeneral err))
        | None \<Rightarrow>
            (case tl_check_identity lib cert key of
               Some err \<Rightarrow> Inl (TlsRustls err)
             | None \<Rightarrow> Inr \<lparr>sv_roots = roots, sv_client_cert_required = False, sv_identity = (cert, key)\<rparr>)))"

definition client_config ::
  "('tcp, 'srv, 'cli, 'name) tls_lib \<Rightarrow> cert list \<Rightarrow> (cert list \<times> private_key) option \<Rightarrow> tls_error + client_tls" where
  "client_config lib ca_certs identity =
     and_then (root_store lib ca_certs) (\<lambda>roots.
       (case identity of
          None \<Rightarrow> Inr \<lparr>cl_roots = roots, cl_identity = None\<rparr>
        | Some (cert, key) \<Rightarrow>
            (case tl_check_identity lib cert key of
               Some err \<Rightarrow> Inl (TlsRustls err)
             | None \<Rightarrow> Inr \<lparr>cl_roots = roots, cl_identity = Some (cert, key)\<rparr>)))"

text \<open>The files of a node, and its two configurations with the fingerprint of its own certificate.\<close>

record tls_config =
  tls_cert :: path
  tls_key :: path
  tls_ca :: path
  tls_allowed_peers :: "u8 list set option"

datatype tls_build_error = BuildTls tls_error | BuildNoCertificates path

text \<open>\<open>map_err\<close>.\<close>

definition map_err :: "('e \<Rightarrow> 'f) \<Rightarrow> 'e + 'a \<Rightarrow> 'f + 'a" where
  "map_err f r = (case r of Inl e \<Rightarrow> Inl (f e) | Inr x \<Rightarrow> Inr x)"

lemma map_err_Inr [simp]: "map_err f r = Inr x \<longleftrightarrow> r = Inr x"
  by (cases r) (simp_all add: map_err_def)

definition tls_config_build ::
  "('tcp, 'srv, 'cli, 'name) tls_lib \<Rightarrow> tls_config \<Rightarrow> tls_build_error + (server_tls \<times> client_tls \<times> u8 list)" where
  "tls_config_build lib t =
     and_then (map_err BuildTls (load_certs lib (tls_cert t))) (\<lambda>cert.
     and_then (map_err BuildTls (load_private_key lib (tls_key t))) (\<lambda>key.
     and_then (map_err BuildTls (load_certs lib (tls_ca t))) (\<lambda>ca.
     and_then (case cert of [] \<Rightarrow> Inl (BuildNoCertificates (tls_cert t)) | leaf # _ \<Rightarrow> Inr (fingerprint lib leaf)) (\<lambda>own_fingerprint.
     and_then (map_err BuildTls (server_config lib cert key ca)) (\<lambda>server_cfg.
     and_then (map_err BuildTls (client_config lib ca (Some (cert, key)))) (\<lambda>client_cfg.
       Inr (server_cfg, client_cfg, own_fingerprint)))))))"

section \<open>The stream\<close>

datatype ('tcp, 'srv, 'cli) maybe_tls_stream = Plain 'tcp | TlsServer 'srv | TlsClient 'cli

datatype tls_connect_error = InvalidServerName rstr | Handshake io_error

text \<open>\<open>rsplit_once(':')\<close>, of which only the part before the last colon is used.\<close>

definition host_of_addr :: "rstr \<Rightarrow> rstr" where
  "host_of_addr addr =
     (case position (\<lambda>x. x = 58) (rev addr) of None \<Rightarrow> addr | Some i \<Rightarrow> take (length addr - Suc i) addr)"

definition server_name_from_addr :: "('tcp, 'srv, 'cli, 'name) tls_lib \<Rightarrow> rstr \<Rightarrow> tls_connect_error + 'name" where
  "server_name_from_addr lib addr =
     (let host = host_of_addr addr in
      (case tl_server_name lib host of None \<Rightarrow> Inl (InvalidServerName host) | Some name \<Rightarrow> Inr name))"

definition stream_accept ::
  "('tcp, 'srv, 'cli, 'name) tls_lib \<Rightarrow> server_tls \<Rightarrow> 'tcp \<Rightarrow> io_error + ('tcp, 'srv, 'cli) maybe_tls_stream" where
  "stream_accept lib acceptor tcp = (case tl_accept lib acceptor tcp of Inl err \<Rightarrow> Inl err | Inr s \<Rightarrow> Inr (TlsServer s))"

definition stream_connect ::
  "('tcp, 'srv, 'cli, 'name) tls_lib \<Rightarrow> client_tls \<Rightarrow> 'tcp \<Rightarrow> rstr
     \<Rightarrow> tls_connect_error + ('tcp, 'srv, 'cli) maybe_tls_stream" where
  "stream_connect lib connector tcp addr =
     and_then (server_name_from_addr lib addr) (\<lambda>name.
       (case tl_connect lib connector name tcp of Inl err \<Rightarrow> Inl (Handshake err) | Inr s \<Rightarrow> Inr (TlsClient s)))"

fun peer_certificates :: "('tcp, 'srv, 'cli, 'name) tls_lib \<Rightarrow> ('tcp, 'srv, 'cli) maybe_tls_stream \<Rightarrow> cert list option" where
  "peer_certificates lib (Plain _) = None"
| "peer_certificates lib (TlsServer s) = tl_server_peer_certs lib s"
| "peer_certificates lib (TlsClient s) = tl_client_peer_certs lib s"

text \<open>\<open>certs.first().map(fingerprint)\<close>, as a connection reads it off its stream.\<close>

definition peer_fingerprint :: "('tcp, 'srv, 'cli, 'name) tls_lib \<Rightarrow> ('tcp, 'srv, 'cli) maybe_tls_stream \<Rightarrow> u8 list option" where
  "peer_fingerprint lib s =
     (case peer_certificates lib s of Some (leaf # _) \<Rightarrow> Some (fingerprint lib leaf) | _ \<Rightarrow> None)"

text \<open>
  The methods of \<open>AsyncRead\<close> and \<open>AsyncWrite\<close> of a stream: \<open>io_poll_read\<close> takes the room in the buffer and gives the bytes that
  were read, \<open>io_poll_write\<close> takes bytes and gives how many were written. The implementation for \<open>MaybeTlsStream\<close> polls the variant it is.
\<close>

datatype 'a poll = Pending | Ready "io_error + 'a"

record 's async_io =
  io_poll_read :: "nat \<Rightarrow> 's \<Rightarrow> u8 list poll \<times> 's"
  io_poll_write :: "u8 list \<Rightarrow> 's \<Rightarrow> nat poll \<times> 's"
  io_poll_flush :: "'s \<Rightarrow> unit poll \<times> 's"
  io_poll_shutdown :: "'s \<Rightarrow> unit poll \<times> 's"

definition poll_read ::
  "'tcp async_io \<Rightarrow> 'srv async_io \<Rightarrow> 'cli async_io \<Rightarrow> nat \<Rightarrow> ('tcp, 'srv, 'cli) maybe_tls_stream
     \<Rightarrow> u8 list poll \<times> ('tcp, 'srv, 'cli) maybe_tls_stream" where
  "poll_read a b c room s =
     (case s of
        Plain t \<Rightarrow> map_prod id Plain (io_poll_read a room t)
      | TlsServer t \<Rightarrow> map_prod id TlsServer (io_poll_read b room t)
      | TlsClient t \<Rightarrow> map_prod id TlsClient (io_poll_read c room t))"

definition poll_write ::
  "'tcp async_io \<Rightarrow> 'srv async_io \<Rightarrow> 'cli async_io \<Rightarrow> u8 list \<Rightarrow> ('tcp, 'srv, 'cli) maybe_tls_stream
     \<Rightarrow> nat poll \<times> ('tcp, 'srv, 'cli) maybe_tls_stream" where
  "poll_write a b c buf s =
     (case s of
        Plain t \<Rightarrow> map_prod id Plain (io_poll_write a buf t)
      | TlsServer t \<Rightarrow> map_prod id TlsServer (io_poll_write b buf t)
      | TlsClient t \<Rightarrow> map_prod id TlsClient (io_poll_write c buf t))"

definition poll_flush ::
  "'tcp async_io \<Rightarrow> 'srv async_io \<Rightarrow> 'cli async_io \<Rightarrow> ('tcp, 'srv, 'cli) maybe_tls_stream
     \<Rightarrow> unit poll \<times> ('tcp, 'srv, 'cli) maybe_tls_stream" where
  "poll_flush a b c s =
     (case s of
        Plain t \<Rightarrow> map_prod id Plain (io_poll_flush a t)
      | TlsServer t \<Rightarrow> map_prod id TlsServer (io_poll_flush b t)
      | TlsClient t \<Rightarrow> map_prod id TlsClient (io_poll_flush c t))"

definition poll_shutdown ::
  "'tcp async_io \<Rightarrow> 'srv async_io \<Rightarrow> 'cli async_io \<Rightarrow> ('tcp, 'srv, 'cli) maybe_tls_stream
     \<Rightarrow> unit poll \<times> ('tcp, 'srv, 'cli) maybe_tls_stream" where
  "poll_shutdown a b c s =
     (case s of
        Plain t \<Rightarrow> map_prod id Plain (io_poll_shutdown a t)
      | TlsServer t \<Rightarrow> map_prod id TlsServer (io_poll_shutdown b t)
      | TlsClient t \<Rightarrow> map_prod id TlsClient (io_poll_shutdown c t))"

definition maybe_tls_io ::
  "'tcp async_io \<Rightarrow> 'srv async_io \<Rightarrow> 'cli async_io \<Rightarrow> ('tcp, 'srv, 'cli) maybe_tls_stream async_io" where
  "maybe_tls_io a b c = \<lparr>io_poll_read = poll_read a b c, io_poll_write = poll_write a b c,
     io_poll_flush = poll_flush a b c, io_poll_shutdown = poll_shutdown a b c\<rparr>"

section \<open>Transparency\<close>

text \<open>
  Whoever uses a stream polls it some number of times and decides each time, from the results so far, what to poll next; \<open>use_stream\<close>
  is what it sees, and the stream it leaves behind.
\<close>

datatype poll_op = OpRead nat | OpWrite "u8 list" | OpFlush | OpShutdown
datatype poll_result = GotRead "u8 list poll" | GotWrite "nat poll" | GotUnit "unit poll"

fun poll_once :: "'s async_io \<Rightarrow> poll_op \<Rightarrow> 's \<Rightarrow> poll_result \<times> 's" where
  "poll_once io (OpRead n) s = map_prod GotRead id (io_poll_read io n s)"
| "poll_once io (OpWrite bs) s = map_prod GotWrite id (io_poll_write io bs s)"
| "poll_once io OpFlush s = map_prod GotUnit id (io_poll_flush io s)"
| "poll_once io OpShutdown s = map_prod GotUnit id (io_poll_shutdown io s)"

fun use_stream :: "(poll_result list \<Rightarrow> poll_op) \<Rightarrow> 's async_io \<Rightarrow> nat \<Rightarrow> poll_result list \<Rightarrow> 's \<Rightarrow> poll_result list \<times> 's" where
  "use_stream user io 0 seen s = (seen, s)"
| "use_stream user io (Suc n) seen s =
     (let (r, s') = poll_once io (user seen) s in use_stream user io n (seen @ [r]) s')"

text \<open>A stream that wraps another one.\<close>

locale wrapped_stream =
  fixes outer :: "'o async_io" and inner :: "'i async_io" and wrap :: "'i \<Rightarrow> 'o"
  assumes read_law: "io_poll_read outer n (wrap s) = map_prod id wrap (io_poll_read inner n s)"
    and write_law: "io_poll_write outer bs (wrap s) = map_prod id wrap (io_poll_write inner bs s)"
    and flush_law: "io_poll_flush outer (wrap s) = map_prod id wrap (io_poll_flush inner s)"
    and shutdown_law: "io_poll_shutdown outer (wrap s) = map_prod id wrap (io_poll_shutdown inner s)"
begin

lemma poll_once_wrap: "poll_once outer op (wrap s) = map_prod id wrap (poll_once inner op s)"
  by (cases op) (simp_all add: read_law write_law flush_law shutdown_law prod.map_comp comp_def)

lemma use_wrap: "use_stream user outer n seen (wrap s) = map_prod id wrap (use_stream user inner n seen s)"
  by (induction n arbitrary: seen s) (simp_all add: poll_once_wrap split: prod.split)

end

lemmas maybe_tls_io_defs = maybe_tls_io_def poll_read_def poll_write_def poll_flush_def poll_shutdown_def

interpretation plain_stream: wrapped_stream "maybe_tls_io a b c" a Plain
  by unfold_locales (simp_all add: maybe_tls_io_defs)

interpretation server_stream: wrapped_stream "maybe_tls_io a b c" b TlsServer
  by unfold_locales (simp_all add: maybe_tls_io_defs)

interpretation client_stream: wrapped_stream "maybe_tls_io a b c" c TlsClient
  by unfold_locales (simp_all add: maybe_tls_io_defs)

text \<open>A stream behaves exactly as the socket or the session inside it, whoever uses it and however often it is polled.\<close>

theorem stream_transparent:
  "use_stream user (maybe_tls_io a b c) n seen s =
     (case s of
        Plain t \<Rightarrow> map_prod id Plain (use_stream user a n seen t)
      | TlsServer t \<Rightarrow> map_prod id TlsServer (use_stream user b n seen t)
      | TlsClient t \<Rightarrow> map_prod id TlsClient (use_stream user c n seen t))"
  by (cases s) (simp_all add: plain_stream.use_wrap server_stream.use_wrap client_stream.use_wrap)

section \<open>Identity\<close>

lemma collect_results_map [simp]: "collect_results (map Inr xs) = Inr xs"
  by (induction xs) simp_all

lemma collect_results_Inr: "collect_results rs = Inr xs \<longleftrightarrow> rs = map Inr xs"
proof
  show "collect_results rs = Inr xs \<Longrightarrow> rs = map Inr xs"
    by (induction rs arbitrary: xs) (auto simp: and_then_Inr)
qed simp

lemma load_certs_Inr: "load_certs lib p = Inr certs \<longleftrightarrow> certs \<noteq> [] \<and> tl_pem_certs lib p = Inr (map Inr certs)"
  by (auto simp: load_certs_def collect_results_Inr split: sum.splits)

lemma root_store_Inr: "root_store lib cs = Inr roots \<longleftrightarrow> (\<forall>c \<in> set cs. tl_trust_anchor lib c) \<and> roots = cs"
proof -
  have "root_store_add lib cs acc = Inr roots \<longleftrightarrow> (\<forall>c \<in> set cs. tl_trust_anchor lib c) \<and> roots = acc @ cs" for acc
    by (induction cs arbitrary: acc) auto
  then show ?thesis by (simp add: root_store_def)
qed

lemma server_config_Inr:
  "server_config lib cert key ca = Inr sv \<longleftrightarrow>
     (\<forall>c \<in> set ca. tl_trust_anchor lib c) \<and> tl_verifier lib ca = None \<and> tl_check_identity lib cert key = None
       \<and> sv = \<lparr>sv_roots = ca, sv_client_cert_required = False, sv_identity = (cert, key)\<rparr>"
  by (auto simp: server_config_def and_then_Inr root_store_Inr split: option.splits)

lemma client_config_Inr:
  "client_config lib ca identity = Inr cl \<longleftrightarrow>
     (\<forall>c \<in> set ca. tl_trust_anchor lib c) \<and> (\<forall>cert key. identity = Some (cert, key) \<longrightarrow> tl_check_identity lib cert key = None)
       \<and> cl = \<lparr>cl_roots = ca, cl_identity = identity\<rparr>"
  by (auto simp: client_config_def and_then_Inr root_store_Inr split: option.splits)

lemma tls_config_build_Inr:
  assumes "tls_config_build lib t = Inr (sv, cl, fp)"
  shows "\<exists>leaf chain key ca. load_certs lib (tls_cert t) = Inr (leaf # chain) \<and> load_private_key lib (tls_key t) = Inr key
    \<and> load_certs lib (tls_ca t) = Inr ca \<and> fp = fingerprint lib leaf
    \<and> sv = \<lparr>sv_roots = ca, sv_client_cert_required = False, sv_identity = (leaf # chain, key)\<rparr>
    \<and> cl = \<lparr>cl_roots = ca, cl_identity = Some (leaf # chain, key)\<rparr>"
  using assms unfolding tls_config_build_def and_then_Inr map_err_Inr server_config_Inr client_config_Inr
  by (force split: list.splits)

text \<open>The check for a chain without certificates is never reached: loading refuses an empty file before it.\<close>

lemma build_no_certificates_dead: "tls_config_build lib t \<noteq> Inl (BuildNoCertificates p)"
  by (auto simp: tls_config_build_def and_then_def map_err_def load_certs_Inr split: sum.splits list.splits)

text \<open>
  What a session reports as the chain of its far end is the chain that the far end was configured to present, if any. This is what the TLS
  handshake establishes between the session \<open>s\<close> and a client with the configuration \<open>cl\<close>.
\<close>

definition session_with :: "('tcp, 'srv, 'cli, 'name) tls_lib \<Rightarrow> client_tls \<Rightarrow> 'srv \<Rightarrow> bool" where
  "session_with lib cl s \<longleftrightarrow> tl_server_peer_certs lib s = map_option fst (cl_identity cl)"

lemma peer_fingerprint_of_node:
  assumes "tls_config_build lib t = Inr (sv, cl, fp)" and "session_with lib cl s"
  shows "peer_fingerprint lib (TlsServer s) = Some fp"
  using tls_config_build_Inr [OF assms(1)] assms(2) by (auto simp: peer_fingerprint_def session_with_def)

section \<open>Server names\<close>

lemma position_first:
  assumes "\<forall>x \<in> set xs. \<not> P x" and "P y"
  shows "position P (xs @ y # ys) = Some (length xs)"
  using assms by (induction xs) simp_all

lemma host_of_addr_colon:
  assumes "58 \<notin> set port"
  shows "host_of_addr (host @ [58] @ port) = host"
  using position_first [of "rev port" "\<lambda>x. x = 58" 58 "rev host"] assms by (force simp: host_of_addr_def)

lemma host_of_addr_none: "58 \<notin> set addr \<Longrightarrow> host_of_addr addr = addr"
  using position_None [of "\<lambda>x. x = 58" "rev addr"] by (force simp: host_of_addr_def)

text \<open>
  A socket address with an IPv6 host is written with brackets, and the brackets stay in the name: a library that takes names and addresses without
  brackets refuses it, so such an address cannot be dialled over TLS.
\<close>

theorem ipv6_addr_refused_over_tls:
  assumes "58 \<notin> set port" and "\<And>host. 91 \<in> set host \<Longrightarrow> tl_server_name lib host = None"
  shows "stream_connect lib connector tcp ([91] @ host @ [93] @ [58] @ port) = Inl (InvalidServerName ([91] @ host @ [93]))"
  using host_of_addr_colon [OF assms(1), of "[91] @ host @ [93]"] assms(2) [of "[91] @ host @ [93]"]
  by (simp add: stream_connect_def server_name_from_addr_def Let_def)

section \<open>A library for the examples\<close>

text \<open>Files whose path is their content, sessions that are the far end's chain, and the identity as the digest.\<close>

definition example_tls :: "(unit, cert list option, cert list option, rstr) tls_lib" where
  "example_tls = \<lparr>tl_pem_certs = (\<lambda>p. Inr [Inr (map of_nat p)]), tl_pem_key = (\<lambda>p. Inr (map of_nat p)),
     tl_pem_text = (\<lambda>_. []), tl_trust_anchor = (\<lambda>_. True), tl_verifier = (\<lambda>_. None), tl_check_identity = (\<lambda>_ _. None),
     tl_sha256 = id, tl_server_name = Some, tl_accept = (\<lambda>_ _. Inr (Some [[7]])), tl_connect = (\<lambda>_ _ _. Inr None),
     tl_server_peer_certs = id, tl_client_peer_certs = id\<rparr>"

definition example_tls_config :: tls_config where
  "example_tls_config = \<lparr>tls_cert = [7], tls_key = [8], tls_ca = [9], tls_allowed_peers = None\<rparr>"

lemma example_tls_build:
  "tls_config_build example_tls example_tls_config = Inr
     (\<lparr>sv_roots = [[9]], sv_client_cert_required = False, sv_identity = ([[7]], [8])\<rparr>,
      \<lparr>cl_roots = [[9]], cl_identity = Some ([[7]], [8])\<rparr>, [7])"
  by (simp add: tls_config_build_def example_tls_def example_tls_config_def load_certs_def load_private_key_def map_err_def
      server_config_def client_config_def root_store_def fingerprint_def)

end
