(* ===== verification/Node.thy ===== *)
theory Node
  imports Forwarders Peer_Links Tls
begin

text \<open>
  The state every connection of a node shares (\<open>Shared\<close> in crates/thoth-mesh-node/src/shared.rs), the registry
  of connections and their subscriptions, and the free functions of connection.rs: authorization, interest and
  peer propagation, registration of a peer link, and the readiness latch (crates/thoth-mesh-node/src/health.rs). The dial
  semaphore is part of the dialling loops. Values behind a \<open>Reloadable\<close> are plain fields that a reload replaces.
\<close>

section \<open>Readiness\<close>

datatype readiness = Readiness bool

definition readiness_new :: readiness where
  "readiness_new = Readiness False"

definition mark_ready :: "readiness \<Rightarrow> readiness" where
  "mark_ready r = Readiness True"

definition is_ready :: "readiness \<Rightarrow> bool" where
  "is_ready r = (case r of Readiness b \<Rightarrow> b)"

section \<open>Subscriptions and tasks\<close>

definition ACK_CHANNEL_CAPACITY :: nat where
  "ACK_CHANNEL_CAPACITY = 256"

text \<open>
  A subscription of a connection: a forwarder task, by its handle, with or without an acknowledgement channel,
  or the membership in a group.
\<close>

datatype subscription = SForwarder nat bool | SGroup rstr

datatype task_kind = TForward | TDurable topic peer_id | TAck dead_letter_config

datatype task_state = Spawned | Running forwarder_state | RunningAck ack_forwarder_state

text \<open>A spawned task with the queue of its acknowledgement channel.\<close>

record task =
  tk_kind :: task_kind
  tk_filter :: topic_filter
  tk_tx :: sender
  tk_state :: task_state
  tk_acks :: "message_id list"

section \<open>The shared state\<close>

record connection_entry =
  ce_forwarders :: "(topic_filter, subscription) hmap"
  ce_principal :: principal
  ce_is_peer :: bool
  ce_outgoing_tx :: sender

text \<open>
  The maps of forwarders live in the registry, where a connection and a reload both reach them; a connection
  refers to its own by its id. \<open>nd_tasks\<close> are the running forwarder tasks, \<open>nd_discovered\<close> the queue of
  addresses to dial, \<open>nd_notified\<close> the disconnect signals that were fired.
\<close>

record 's node =
  nd_broker :: "'s broker"
  nd_membership :: membership
  nd_interest :: interest
  nd_peer_links :: peer_links
  nd_connections :: "(u64, connection_entry) hmap"
  nd_next_id :: u64
  nd_node_id :: peer_id
  nd_my_listen_addr :: "rstr option"
  nd_metrics :: metrics
  nd_discover :: peer_directory
  nd_discovered :: "rstr list"
  nd_allowed_peers :: "u8 list set option"
  nd_topic_acl :: "topic_acl option"
  nd_peer_topic_acl :: "topic_acl option"
  nd_peer_topic_filter :: "peer_topic_filter option"
  nd_dead_letter_topic :: "topic option"
  nd_rate_limiter :: "rate_limiter option"
  nd_tasks :: "(nat, task) hmap"
  nd_next_task :: nat
  nd_notified :: "nat list"
  nd_readiness :: readiness
  nd_tls_acceptor :: "server_tls option"
  nd_tls_connector :: "client_tls option"

definition node_new :: "peer_id \<Rightarrow> rstr option \<Rightarrow> 's node" where
  "node_new node_id my_listen_addr =
     \<lparr>nd_broker = broker_new, nd_membership = membership_new, nd_interest = interest_new, nd_peer_links = [],
      nd_connections = [], nd_next_id = 0, nd_node_id = node_id, nd_my_listen_addr = my_listen_addr,
      nd_metrics = metrics_new, nd_discover = peer_directory_new, nd_discovered = [], nd_allowed_peers = None,
      nd_topic_acl = None, nd_peer_topic_acl = None, nd_peer_topic_filter = None, nd_dead_letter_topic = None,
      nd_rate_limiter = None, nd_tasks = [], nd_next_task = 0, nd_notified = [],
      nd_readiness = readiness_new, nd_tls_acceptor = None, nd_tls_connector = None\<rparr>"

definition registry_register :: "principal \<Rightarrow> sender \<Rightarrow> 's node \<Rightarrow> u64 \<times> 's node" where
  "registry_register p tx n =
     (nd_next_id n,
      n\<lparr>nd_next_id := nd_next_id n + 1,
        nd_connections := AList.update (nd_next_id n)
          \<lparr>ce_forwarders = [], ce_principal = p, ce_is_peer = False, ce_outgoing_tx = tx\<rparr> (nd_connections n)\<rparr>)"

definition registry_unregister :: "u64 \<Rightarrow> 's node \<Rightarrow> 's node" where
  "registry_unregister i n = n\<lparr>nd_connections := AList.delete i (nd_connections n)\<rparr>"

text \<open>The guard of a link's registration, when it is dropped.\<close>

definition peer_link_registration_drop :: "peer_id \<Rightarrow> sender \<Rightarrow> 's node \<Rightarrow> 's node" where
  "peer_link_registration_drop p s n = n\<lparr>nd_peer_links := links_unregister p s (nd_peer_links n)\<rparr>"

declare peer_link_registration_drop_def [simp]

definition forwarders_of :: "u64 \<Rightarrow> 's node \<Rightarrow> (topic_filter, subscription) hmap" where
  "forwarders_of i n = (case map_of (nd_connections n) i of None \<Rightarrow> [] | Some en \<Rightarrow> ce_forwarders en)"

definition set_forwarders :: "u64 \<Rightarrow> (topic_filter, subscription) hmap \<Rightarrow> 's node \<Rightarrow> 's node" where
  "set_forwarders i fs n =
     (case map_of (nd_connections n) i of
        None \<Rightarrow> n
      | Some en \<Rightarrow> n\<lparr>nd_connections := AList.update i (en\<lparr>ce_forwarders := fs\<rparr>) (nd_connections n)\<rparr>)"

definition set_is_peer :: "u64 \<Rightarrow> 's node \<Rightarrow> 's node" where
  "set_is_peer i n =
     (case map_of (nd_connections n) i of
        None \<Rightarrow> n
      | Some en \<Rightarrow> n\<lparr>nd_connections := AList.update i (en\<lparr>ce_is_peer := True\<rparr>) (nd_connections n)\<rparr>)"

text \<open>\<open>tokio::spawn\<close> and \<open>JoinHandle::abort\<close> on the table of running tasks.\<close>

definition spawn_task :: "task_kind \<Rightarrow> topic_filter \<Rightarrow> sender \<Rightarrow> 's node \<Rightarrow> nat \<times> 's node" where
  "spawn_task k f tx n =
     (nd_next_task n,
      n\<lparr>nd_next_task := nd_next_task n + 1,
        nd_tasks := AList.update (nd_next_task n)
          \<lparr>tk_kind = k, tk_filter = f, tk_tx = tx, tk_state = Spawned, tk_acks = []\<rparr> (nd_tasks n)\<rparr>)"

definition abort_task :: "nat \<Rightarrow> 's node \<Rightarrow> 's node" where
  "abort_task h n = n\<lparr>nd_tasks := AList.delete h (nd_tasks n)\<rparr>"

text \<open>Stopping a subscription that was taken out of its map.\<close>

fun stop_subscription :: "topic_filter \<Rightarrow> sender \<Rightarrow> subscription \<Rightarrow> 's node \<Rightarrow> 's node" where
  "stop_subscription f tx (SForwarder h _) n = abort_task h n"
| "stop_subscription f tx (SGroup g) n = n\<lparr>nd_broker := broker_leave_group f g tx (nd_broker n)\<rparr>"

section \<open>Authorization\<close>

definition allowlist_permits :: "u8 list set option \<Rightarrow> principal \<Rightarrow> bool" where
  "allowlist_permits allowed p =
     (case (allowed, p) of
        (None, _) \<Rightarrow> True
      | (Some fps, Fingerprint fp) \<Rightarrow> fp \<in> fps
      | (Some _, Anonymous) \<Rightarrow> False)"

definition topic_acl_permits :: "topic_acl option \<Rightarrow> principal \<Rightarrow> topic \<Rightarrow> action \<Rightarrow> bool" where
  "topic_acl_permits acl p t a = (case acl of None \<Rightarrow> True | Some acl' \<Rightarrow> acl_permits p t a acl')"

definition role_acl_permits :: "topic_acl option \<Rightarrow> topic_acl option \<Rightarrow> bool \<Rightarrow> principal \<Rightarrow> topic \<Rightarrow> action \<Rightarrow> bool" where
  "role_acl_permits acl peer_acl is_peer p t a = topic_acl_permits (if is_peer then peer_acl else acl) p t a"

definition filter_acl_permits ::
  "topic_acl option \<Rightarrow> topic_acl option \<Rightarrow> bool \<Rightarrow> principal \<Rightarrow> topic_filter \<Rightarrow> action \<Rightarrow> bool" where
  "filter_acl_permits acl peer_acl is_peer p f a =
     (case (if is_peer then peer_acl else acl, as_topic f) of
        (None, _) \<Rightarrow> True
      | (Some _, None) \<Rightarrow> False
      | (Some acl', Some t) \<Rightarrow> acl_permits p t a acl')"

section \<open>Propagation\<close>

definition propagate_interest ::
  "('w, 'z) runtime_scheme \<Rightarrow> topic_filter \<Rightarrow> bool \<Rightarrow> 's node \<Rightarrow> 'w \<Rightarrow> 'w" where
  "propagate_interest rt f now_interested n w =
     (let (e, w') = envelope_new rt (nd_node_id n) (if now_interested then announce_subscribe f else Unsubscribe f) w
      in broadcast_interest rt e f (nd_peer_topic_filter n) (nd_peer_links n) w')"

definition propagate_peer :: "('w, 'z) runtime_scheme \<Rightarrow> peer_id \<Rightarrow> rstr \<Rightarrow> 's node \<Rightarrow> 'w \<Rightarrow> 'w" where
  "propagate_peer rt p addr n w =
     (let (e, w') = envelope_new rt (nd_node_id n) (PeerAnnounce [\<lparr>pa_peer_id = p, pa_listen_addr = addr\<rparr>]) w
      in links_broadcast rt e (nd_peer_links n) w')"

definition we_should_dial :: "peer_id \<Rightarrow> peer_id \<Rightarrow> bool" where
  "we_should_dial node_id p \<longleftrightarrow> node_id < p"

fun learn_loop :: "peer_advert list \<Rightarrow> 's node \<Rightarrow> peer_advert list \<times> 's node" where
  "learn_loop [] n = ([], n)"
| "learn_loop (a # as) n =
     (if pa_peer_id a = nd_node_id n then learn_loop as n
      else
        (let (is_new, d) = directory_record (pa_peer_id a) (pa_listen_addr a) (nd_discover n);
             n1 = n\<lparr>nd_discover := d\<rparr>
         in if is_new then
              (let n2 = (if we_should_dial (nd_node_id n) (pa_peer_id a)
                         then n1\<lparr>nd_discovered := nd_discovered n1 @ [pa_listen_addr a]\<rparr> else n1);
                   (learned, n3) = learn_loop as n2
               in (a # learned, n3))
            else learn_loop as n1))"

definition learn_peers :: "('w, 'z) runtime_scheme \<Rightarrow> peer_advert list \<Rightarrow> 's node \<Rightarrow> 'w \<Rightarrow> 's node \<times> 'w" where
  "learn_peers rt peers n w =
     (let (newly_learned, n') = learn_loop peers n
      in if newly_learned = [] then (n', w)
         else (let (e, w') = envelope_new rt (nd_node_id n') (PeerAnnounce newly_learned) w
               in (n', links_broadcast rt e (nd_peer_links n') w')))"

section \<open>Registering a peer link\<close>

text \<open>The filters the new link is told about.\<close>

definition catch_up_kinds :: "principal \<Rightarrow> peer_topic_filter option \<Rightarrow> interest \<Rightarrow> message_kind list" where
  "catch_up_kinds pr ptf i =
     map announce_subscribe
       (filter (\<lambda>f. case ptf of None \<Rightarrow> True
                      | Some pf \<Rightarrow> (case as_topic f of None \<Rightarrow> False | Some t \<Rightarrow> relay_permits pr t pf))
         (interest_snapshot i))"

definition register_peer_link ::
  "('w, 'z) runtime_scheme \<Rightarrow> peer_id \<Rightarrow> principal \<Rightarrow> rstr option \<Rightarrow> sender \<Rightarrow> nat \<Rightarrow> 's node \<Rightarrow> 'w \<Rightarrow> 's node \<times> 'w" where
  "register_peer_link rt p pr addr tx disconnect n w =
     (let n1 = n\<lparr>nd_peer_links := links_register p tx pr disconnect (nd_peer_links n)\<rparr>;
          w1 = send_kinds rt (nd_node_id n) tx (catch_up_kinds pr (nd_peer_topic_filter n) (nd_interest n)) w;
          (n2, w2) = (case addr of
             None \<Rightarrow> (n1, w1)
           | Some a \<Rightarrow>
               (let (is_new, d) = directory_record p a (nd_discover n1); n' = n1\<lparr>nd_discover := d\<rparr>
                in (n', if is_new then propagate_peer rt p a n' w1 else w1)));
          known = snapshot_excluding p (nd_discover n2)
      in (n2,
          if known = [] then w2
          else send_kinds rt (nd_node_id n) tx
                 [PeerAnnounce (map (\<lambda>(q, a). \<lparr>pa_peer_id = q, pa_listen_addr = a\<rparr>) known)] w2))"

end
