(* ===== verification/Connection.thy ===== *)
theory Connection
  imports Node Framing
begin

text \<open>
  One connection (\<open>ConnectionContext\<close> and \<open>run_connection\<close> in crates/thoth-mesh-node/src/connection.rs): the
  handlers of the message kinds, the dispatch of a frame, shutting down, and the reload of the access lists
  (\<open>reconcile_topic_acls\<close>, and \<open>spawn_reload_applier\<close> of lib.rs). A handler returns whether the read loop goes
  on. Handlers that other tasks can interleave with are composed from one definition per step.
\<close>

section \<open>The context of a connection\<close>

text \<open>
  \<open>cx_link\<close> is the peer identity of the held link registration. The forwarders and the peer flag
  are in the registry entry \<open>cx_id\<close>.
\<close>

record connection =
  cx_id :: u64
  cx_outgoing_tx :: sender
  cx_peer_identity :: "peer_id option"
  cx_peer_fingerprint :: "u8 list option"
  cx_principal :: principal
  cx_link :: "peer_id option"
  cx_disconnect :: nat

definition is_peer :: "connection \<Rightarrow> bool" where
  "is_peer cx \<longleftrightarrow> cx_peer_identity cx \<noteq> None"

text \<open>A new connection: registered before its context exists.\<close>

definition connect :: "u8 list option \<Rightarrow> sender \<Rightarrow> nat \<Rightarrow> 's node \<Rightarrow> connection \<times> 's node" where
  "connect fp tx disconnect n =
     (let p = principal_from_fingerprint fp; (i, n') = registry_register p tx n
      in (\<lparr>cx_id = i, cx_outgoing_tx = tx, cx_peer_identity = None, cx_peer_fingerprint = fp, cx_principal = p,
           cx_link = None, cx_disconnect = disconnect\<rparr>, n'))"

definition authenticated_sender :: "('w, 'z) runtime_scheme \<Rightarrow> connection \<Rightarrow> peer_id \<Rightarrow> peer_id" where
  "authenticated_sender rt cx claimed =
     (case cx_peer_fingerprint cx of None \<Rightarrow> claimed | Some fp \<Rightarrow> peer_id_from_fingerprint rt fp)"

text \<open>\<open>self.send(Envelope::new(self.node_id, kind)).await\<close>.\<close>

definition reply :: "('w, 'z) runtime_scheme \<Rightarrow> connection \<Rightarrow> message_kind \<Rightarrow> 's node \<Rightarrow> 'w \<Rightarrow> bool \<times> 'w" where
  "reply rt cx kind n w = (let (e, w') = envelope_new rt (nd_node_id n) kind w in rt_mpsc_send rt (cx_outgoing_tx cx) e w')"

section \<open>Peer links\<close>

definition not_allowed_message :: rstr where
  "not_allowed_message = str ''peer certificate not on the --allow-peer allowlist''"

text \<open>
  The assignment to \<open>peer_link_registration\<close>: the new registration is made first, then the guard of the old one
  is dropped and removes its entry.
\<close>

definition hold_link ::
  "('w, 'z) runtime_scheme \<Rightarrow> peer_id \<Rightarrow> rstr option \<Rightarrow> connection \<Rightarrow> 's node \<Rightarrow> 'w \<Rightarrow> connection \<times> 's node \<times> 'w" where
  "hold_link rt p addr cx n w =
     (let (n1, w1) = register_peer_link rt p (cx_principal cx) addr (cx_outgoing_tx cx) (cx_disconnect cx) n w;
          n2 = (case cx_link cx of
                  None \<Rightarrow> n1
                | Some old \<Rightarrow> peer_link_registration_drop old (cx_outgoing_tx cx) n1);
          n3 = (if allowlist_permits (nd_allowed_peers n2) (cx_principal cx) then n2
                else n2\<lparr>nd_notified := nd_notified n2 @ [cx_disconnect cx]\<rparr>)
      in (cx\<lparr>cx_link := Some p\<rparr>, n3, w1))"

definition admit_initial_peer ::
  "('w, 'z) runtime_scheme \<Rightarrow> peer_info \<Rightarrow> connection \<Rightarrow> 's node \<Rightarrow> 'w \<Rightarrow> bool \<times> connection \<times> 's node \<times> 'w" where
  "admit_initial_peer rt info cx n w =
     (let p = authenticated_sender rt cx (pi_peer_id info) in
      if \<not> allowlist_permits (nd_allowed_peers n) (cx_principal cx)
      then (let (_, w') = reply rt cx (Error (Some (pi_hello_id info)) not_allowed_message) n w in (False, cx, n, w'))
      else
        (let cx1 = cx\<lparr>cx_peer_identity := Some p\<rparr>;
             n1 = set_is_peer (cx_id cx) n;
             n2 = n1\<lparr>nd_membership := mark_connected p (pi_listen_addr info) (nd_membership n1)\<rparr>;
             (cx2, n3, w1) = hold_link rt p (pi_listen_addr info) cx1 n2 w
         in (True, cx2, n3, w1)))"

definition handle_hello ::
  "('w, 'z) runtime_scheme \<Rightarrow> envelope \<Rightarrow> rstr option \<Rightarrow> connection \<Rightarrow> 's node \<Rightarrow> 'w \<Rightarrow> bool \<times> connection \<times> 's node \<times> 'w" where
  "handle_hello rt e addr cx n w =
     (if \<not> allowlist_permits (nd_allowed_peers n) (cx_principal cx)
      then (let (_, w') = reply rt cx (Error (Some (env_id e)) not_allowed_message) n w in (False, cx, n, w'))
      else
        (let cx1 = cx\<lparr>cx_peer_identity := Some (env_sender e)\<rparr>;
             n1 = set_is_peer (cx_id cx) n;
             n2 = n1\<lparr>nd_membership := mark_connected (env_sender e) addr (nd_membership n1)\<rparr>;
             (ok, w1) = reply rt cx (Hello (nd_my_listen_addr n2)) n2 w
         in if \<not> ok then (False, cx1, n2, w1)
            else (let (cx2, n3, w2) = hold_link rt (env_sender e) addr cx1 n2 w1 in (True, cx2, n3, w2))))"

section \<open>Subscribing\<close>

definition may_subscribe :: "connection \<Rightarrow> topic_filter \<Rightarrow> 's node \<Rightarrow> bool" where
  "may_subscribe cx f n =
     filter_acl_permits (nd_topic_acl n) (nd_peer_topic_acl n) (is_peer cx) (cx_principal cx) f ASubscribe"

definition durable_rejection :: "connection \<Rightarrow> topic_filter \<Rightarrow> bool \<Rightarrow> rstr option \<Rightarrow> 's node \<Rightarrow> rstr option" where
  "durable_rejection cx f ack grp n =
     (if ack then Some (str ''durable and ack are not supported together'')
      else if grp \<noteq> None then Some (str ''durable and group are not supported together'')
      else if cx_peer_fingerprint cx = None then Some (str ''durable subscriptions require a TLS client certificate'')
      else if as_topic f = None then Some (str ''durable subscriptions require a literal topic, not a wildcard filter'')
      else if \<not> has_store (nd_broker n) then Some (str ''durable subscriptions require --data-dir to be configured on this node'')
      else None)"

definition count_acl_rejection :: "connection \<Rightarrow> 's node \<Rightarrow> 's node" where
  "count_acl_rejection cx n =
     n\<lparr>nd_metrics := (if is_peer cx then record_peer_topic_acl_rejection (nd_metrics n)
                      else record_topic_acl_rejection (nd_metrics n))\<rparr>"

definition subscribe_refuse ::
  "('w, 'z) runtime_scheme \<Rightarrow> connection \<Rightarrow> envelope \<Rightarrow> topic_filter \<Rightarrow> 's node \<Rightarrow> 'w \<Rightarrow> bool \<times> 's node \<times> 'w" where
  "subscribe_refuse rt cx e f n w =
     (let n' = count_acl_rejection cx n;
          (ok, w') = reply rt cx (Error (Some (env_id e)) (str ''not authorized to subscribe to '' @ filter_str f)) n' w
      in (ok, n', w'))"

text \<open>The closure of \<open>or_insert_with\<close>.\<close>

definition open_subscription ::
  "connection \<Rightarrow> topic_filter \<Rightarrow> bool \<Rightarrow> rstr option \<Rightarrow> bool \<Rightarrow> peer_id \<Rightarrow> 's node \<Rightarrow> (subscription \<times> 's node) outcome" where
  "open_subscription cx f ack grp durable subscriber n =
     (case grp of
        Some g \<Rightarrow>
          Returns (SGroup g, n\<lparr>nd_broker := broker_join_group f g (cx_outgoing_tx cx) ack (nd_broker n)\<rparr>)
      | None \<Rightarrow>
          if durable then
            (case as_topic f of
               None \<Rightarrow> Panics
             | Some t \<Rightarrow>
                 (let (h, n') = spawn_task (TDurable t subscriber) f (cx_outgoing_tx cx) n in Returns (SForwarder h False, n')))
          else if ack then
            (let (h, n') = spawn_task (TAck \<lparr>dl_node_id = nd_node_id n, dl_topic = nd_dead_letter_topic n\<rparr>) f (cx_outgoing_tx cx) n
             in Returns (SForwarder h True, n'))
          else (let (h, n') = spawn_task TForward f (cx_outgoing_tx cx) n in Returns (SForwarder h False, n')))"

text \<open>First step: the subscription is entered under the lock of the map.\<close>

definition subscribe_insert ::
  "connection \<Rightarrow> topic_filter \<Rightarrow> bool \<Rightarrow> rstr option \<Rightarrow> bool \<Rightarrow> peer_id \<Rightarrow> 's node \<Rightarrow> (bool \<times> 's node) outcome" where
  "subscribe_insert cx f ack grp durable subscriber n =
     (let fs = forwarders_of (cx_id cx) n in
      if map_of fs f \<noteq> None then Returns (False, n)
      else (case open_subscription cx f ack grp durable subscriber n of
              Panics \<Rightarrow> Panics
            | Returns (sub, n') \<Rightarrow> Returns (True, set_forwarders (cx_id cx) (AList.update f sub fs) n')))"

text \<open>Taking a subscription out of the map of a connection and stopping it.\<close>

definition remove_subscription :: "connection \<Rightarrow> topic_filter \<Rightarrow> 's node \<Rightarrow> bool \<times> 's node" where
  "remove_subscription cx f n =
     (let fs = forwarders_of (cx_id cx) n in
      case map_of fs f of
        None \<Rightarrow> (False, n)
      | Some sub \<Rightarrow>
          (True, stop_subscription f (cx_outgoing_tx cx) sub (set_forwarders (cx_id cx) (AList.delete f fs) n)))"

text \<open>Last step, after the recheck passed: interest, the acknowledgement, the announcement.\<close>

definition subscribe_commit ::
  "('w, 'z) runtime_scheme \<Rightarrow> connection \<Rightarrow> envelope \<Rightarrow> topic_filter \<Rightarrow> bool \<Rightarrow> 's node \<Rightarrow> 'w \<Rightarrow> bool \<times> 's node \<times> 'w" where
  "subscribe_commit rt cx e f is_new n w =
     (let (became, n1) = (if is_new
                          then (let (b, i) = interest_subscribe f (nd_interest n) in (b, n\<lparr>nd_interest := i\<rparr>))
                          else (False, n));
          (ok, w1) = reply rt cx (Ack (env_id e)) n1 w
      in if \<not> ok then (False, n1, w1)
         else (True, n1, if became then propagate_interest rt f True n1 w1 else w1))"

text \<open>Second step: the recheck against the current lists.\<close>

definition subscribe_settle ::
  "('w, 'z) runtime_scheme \<Rightarrow> connection \<Rightarrow> envelope \<Rightarrow> topic_filter \<Rightarrow> bool \<Rightarrow> 's node \<Rightarrow> 'w \<Rightarrow> bool \<times> 's node \<times> 'w" where
  "subscribe_settle rt cx e f is_new n w =
     (if is_new \<and> \<not> may_subscribe cx f n
      then subscribe_refuse rt cx e f (snd (remove_subscription cx f n)) w
      else subscribe_commit rt cx e f is_new n w)"

definition handle_subscribe ::
  "('w, 'z) runtime_scheme \<Rightarrow> connection \<Rightarrow> envelope \<Rightarrow> topic_filter \<Rightarrow> bool \<Rightarrow> rstr option \<Rightarrow> bool \<Rightarrow> 's node \<Rightarrow> 'w
     \<Rightarrow> (bool \<times> 's node \<times> 'w) outcome" where
  "handle_subscribe rt cx e f ack grp durable n w =
     (case (if durable then durable_rejection cx f ack grp n else None) of
        Some message \<Rightarrow> (let (ok, w') = reply rt cx (Error (Some (env_id e)) message) n w in Returns (ok, n, w'))
      | None \<Rightarrow>
          if \<not> may_subscribe cx f n then Returns (subscribe_refuse rt cx e f n w)
          else (case subscribe_insert cx f ack grp durable (env_sender e) n of
                  Panics \<Rightarrow> Panics
                | Returns (is_new, n1) \<Rightarrow> Returns (subscribe_settle rt cx e f is_new n1 w)))"

section \<open>Unsubscribing\<close>

definition handle_unsubscribe ::
  "('w, 'z) runtime_scheme \<Rightarrow> connection \<Rightarrow> envelope \<Rightarrow> topic_filter \<Rightarrow> 's node \<Rightarrow> 'w \<Rightarrow> bool \<times> 's node \<times> 'w" where
  "handle_unsubscribe rt cx e f n w =
     (let (had_forwarder, n1) = remove_subscription cx f n;
          (ok, w1) = reply rt cx (Ack (env_id e)) n1 w
      in if \<not> ok then (False, n1, w1)
         else if had_forwarder then
           (let (lost, i) = interest_unsubscribe f (nd_interest n1); n2 = n1\<lparr>nd_interest := i\<rparr>
            in (True, n2, if lost then propagate_interest rt f False n2 w1 else w1))
         else (True, n1, w1))"

section \<open>Publishing\<close>

text \<open>\<open>rnd\<close> is the rounding of the limiter's arithmetic.\<close>

definition limiter_allows :: "('w, 'z) runtime_scheme \<Rightarrow> (real \<Rightarrow> real) \<Rightarrow> connection \<Rightarrow> 's node \<Rightarrow> 'w \<Rightarrow> bool \<times> 's node" where
  "limiter_allows rt rnd cx n w =
     (if is_peer cx then (True, n)
      else (case nd_rate_limiter n of
              None \<Rightarrow> (True, n)
            | Some rl \<Rightarrow>
                (let (ok, rl') = allow rnd (cx_principal cx) (rt_instant_now rt w) rl in (ok, n\<lparr>nd_rate_limiter := Some rl'\<rparr>))))"

text \<open>The \<open>unreachable!\<close> of an envelope that is not a publish is the panic.\<close>

definition handle_publish ::
  "('w, 'z) runtime_scheme \<Rightarrow> 's message_store \<Rightarrow> (real \<Rightarrow> real) \<Rightarrow> connection \<Rightarrow> envelope \<Rightarrow> 's node \<Rightarrow> 'w
     \<Rightarrow> (bool \<times> 's node \<times> 'w) outcome" where
  "handle_publish rt ops rnd cx e n w =
     (case env_kind e of
        Publish t _ _ _ _ _ \<Rightarrow>
          if \<not> role_acl_permits (nd_topic_acl n) (nd_peer_topic_acl n) (is_peer cx) (cx_principal cx) t APublish
          then (let n' = count_acl_rejection cx n;
                    (ok, w') = reply rt cx (Error (Some (env_id e)) (str ''not authorized to publish to '' @ topic_str t)) n' w
                in Returns (ok, n', w'))
          else
            (let (allowed, n1) = limiter_allows rt rnd cx n w in
             if \<not> allowed
             then (let n2 = n1\<lparr>nd_metrics := record_publish_rate_limit_rejection (nd_metrics n1)\<rparr>;
                       (ok, w') = reply rt cx (Error (Some (env_id e)) (str ''publish rate limit exceeded for '' @ topic_str t)) n2 w
                   in Returns (ok, n2, w'))
             else (let (_, b, w') = broker_publish rt ops t e (nd_broker n1) w in Returns (True, n1\<lparr>nd_broker := b\<rparr>, w')))
      | _ \<Rightarrow> Panics)"

section \<open>Acknowledgements, gossip and queries\<close>

text \<open>\<open>ack_tx.try_send\<close>: lost when the queue is full or the task is gone.\<close>

definition push_ack :: "nat \<Rightarrow> message_id \<Rightarrow> 's node \<Rightarrow> 's node" where
  "push_ack h i n =
     (case map_of (nd_tasks n) h of
        None \<Rightarrow> n
      | Some tk \<Rightarrow>
          if length (tk_acks tk) < ACK_CHANNEL_CAPACITY
          then n\<lparr>nd_tasks := AList.update h (tk\<lparr>tk_acks := tk_acks tk @ [i]\<rparr>) (nd_tasks n)\<rparr>
          else n)"

fun ack_subscriptions :: "message_id \<Rightarrow> (topic_filter, subscription) hmap \<Rightarrow> 's node \<Rightarrow> 's node" where
  "ack_subscriptions i [] n = n"
| "ack_subscriptions i ((f, SForwarder h True) # subs) n = ack_subscriptions i subs (push_ack h i n)"
| "ack_subscriptions i ((f, SForwarder h False) # subs) n = ack_subscriptions i subs n"
| "ack_subscriptions i ((f, SGroup g) # subs) n =
     ack_subscriptions i subs (n\<lparr>nd_broker := broker_ack_group_delivery f g i (nd_broker n)\<rparr>)"

definition handle_ack :: "connection \<Rightarrow> message_id \<Rightarrow> 's node \<Rightarrow> 's node" where
  "handle_ack cx i n = ack_subscriptions i (forwarders_of (cx_id cx) n) n"

definition handle_peer_announce :: "('w, 'z) runtime_scheme \<Rightarrow> peer_advert list \<Rightarrow> 's node \<Rightarrow> 'w \<Rightarrow> 's node \<times> 'w" where
  "handle_peer_announce rt peers n w = learn_peers rt peers n w"

declare handle_peer_announce_def [simp]

definition connected_peers :: "membership \<Rightarrow> peer_summary list" where
  "connected_peers mb =
     sort_key ps_peer_id
       (map (\<lambda>(p, s). \<lparr>ps_peer_id = p, ps_listen_addr = st_listen_addr s\<rparr>)
         (filter (\<lambda>(_, s). st_connected s) (membership_snapshot mb)))"

definition handle_status :: "('w, 'z) runtime_scheme \<Rightarrow> connection \<Rightarrow> envelope \<Rightarrow> 's node \<Rightarrow> 'w \<Rightarrow> bool \<times> 'w" where
  "handle_status rt cx e n w =
     reply rt cx (StatusReply (env_id e) (nd_node_id n) (nd_my_listen_addr n) (connected_peers (nd_membership n))
       (summary (nd_membership n) (nd_broker n) (nd_discover n) (nd_metrics n) (nd_rate_limiter n))) n w"

definition active_topics :: "topic_info list \<Rightarrow> topic_summary list" where
  "active_topics infos =
     sort_key (topic_str \<circ> ts_topic)
       (map (\<lambda>ti. \<lparr>ts_topic = ti_topic ti, ts_subscribers = ti_subscribers ti, ts_messages_buffered = ti_messages_buffered ti\<rparr>)
         (filter (\<lambda>ti. ti_subscribers ti > 0 \<or> ti_messages_buffered ti > 0) infos))"

definition handle_topics :: "('w, 'z) runtime_scheme \<Rightarrow> connection \<Rightarrow> envelope \<Rightarrow> 's node \<Rightarrow> 'w \<Rightarrow> bool \<times> 'w" where
  "handle_topics rt cx e n w = reply rt cx (TopicsReply (env_id e) (active_topics (broker_topics rt (nd_broker n) w))) n w"

section \<open>The read loop\<close>

text \<open>The match on the message kind; \<open>e\<close> already carries the authenticated sender.\<close>

definition dispatch ::
  "('w, 'z) runtime_scheme \<Rightarrow> 's message_store \<Rightarrow> (real \<Rightarrow> real) \<Rightarrow> envelope \<Rightarrow> connection \<Rightarrow> 's node \<Rightarrow> 'w
     \<Rightarrow> (bool \<times> connection \<times> 's node \<times> 'w) outcome" where
  "dispatch rt ops rnd e cx n w =
     (case env_kind e of
        Subscribe f ack grp durable \<Rightarrow>
          (case handle_subscribe rt cx e f ack grp durable n w of
             Panics \<Rightarrow> Panics | Returns (ok, n', w') \<Rightarrow> Returns (ok, cx, n', w'))
      | Unsubscribe f \<Rightarrow> (let (ok, n', w') = handle_unsubscribe rt cx e f n w in Returns (ok, cx, n', w'))
      | Publish _ _ _ _ _ _ \<Rightarrow>
          (case handle_publish rt ops rnd cx e n w of
             Panics \<Rightarrow> Panics | Returns (ok, n', w') \<Rightarrow> Returns (ok, cx, n', w'))
      | Ack i \<Rightarrow> Returns (True, cx, handle_ack cx i n, w)
      | Error _ _ \<Rightarrow> Returns (True, cx, n, w)
      | StatusReply _ _ _ _ _ \<Rightarrow> Returns (True, cx, n, w)
      | TopicsReply _ _ \<Rightarrow> Returns (True, cx, n, w)
      | Hello addr \<Rightarrow> Returns (handle_hello rt e addr cx n w)
      | PeerAnnounce peers \<Rightarrow> (let (n', w') = handle_peer_announce rt peers n w in Returns (True, cx, n', w'))
      | StatusRequest \<Rightarrow> (let (ok, w') = handle_status rt cx e n w in Returns (ok, cx, n, w'))
      | TopicsRequest \<Rightarrow> (let (ok, w') = handle_topics rt cx e n w in Returns (ok, cx, n, w')))"

text \<open>What the loop waits for: a frame, the failure to read one, or the disconnect signal of a reload.\<close>

datatype connection_event = FrameRead "u8 list" | ReadFailed | Disconnected

definition revoked_message :: rstr where
  "revoked_message = str ''disconnected: no longer on --allow-peer allowlist (config reload)''"

fun connection_event_step ::
  "('w, 'z) runtime_scheme \<Rightarrow> 's message_store \<Rightarrow> (real \<Rightarrow> real) \<Rightarrow> codec \<Rightarrow> connection_event \<Rightarrow> connection \<Rightarrow> 's node \<Rightarrow> 'w
     \<Rightarrow> (bool \<times> connection \<times> 's node \<times> 'w) outcome" where
  "connection_event_step rt ops rnd c (FrameRead bytes) cx n w =
     (case from_bytes c bytes of
        Inl _ \<Rightarrow> Returns (False, cx, n, w)
      | Inr e \<Rightarrow> dispatch rt ops rnd (e\<lparr>env_sender := authenticated_sender rt cx (env_sender e)\<rparr>) cx n w)"
| "connection_event_step rt ops rnd c ReadFailed cx n w = Returns (False, cx, n, w)"
| "connection_event_step rt ops rnd c Disconnected cx n w =
     (let (e, w') = envelope_new rt (nd_node_id n) (Error None revoked_message) w
      in Returns (False, cx, n, snd (rt_mpsc_try_send rt (cx_outgoing_tx cx) e w')))"

section \<open>Shutting down\<close>

text \<open>Stopping subscriptions that were taken out of their map, with the loss of interest announced.\<close>

fun stop_all ::
  "('w, 'z) runtime_scheme \<Rightarrow> sender \<Rightarrow> (topic_filter, subscription) hmap \<Rightarrow> 's node \<Rightarrow> 'w \<Rightarrow> 's node \<times> 'w" where
  "stop_all rt tx [] n w = (n, w)"
| "stop_all rt tx ((f, sub) # subs) n w =
     (let n1 = stop_subscription f tx sub n;
          (lost, i) = interest_unsubscribe f (nd_interest n1);
          n2 = n1\<lparr>nd_interest := i\<rparr>
      in stop_all rt tx subs n2 (if lost then propagate_interest rt f False n2 w else w))"

definition shut_down :: "('w, 'z) runtime_scheme \<Rightarrow> connection \<Rightarrow> 's node \<Rightarrow> 'w \<Rightarrow> 's node \<times> 'w" where
  "shut_down rt cx n w =
     (let subs = forwarders_of (cx_id cx) n;
          (n1, w1) = stop_all rt (cx_outgoing_tx cx) subs (set_forwarders (cx_id cx) [] n) w
      in (case cx_peer_identity cx of
            None \<Rightarrow> (n1, w1)
          | Some p \<Rightarrow> (n1\<lparr>nd_membership := mark_disconnected p (nd_membership n1)\<rparr>, w1)))"

text \<open>\<open>drop(ctx)\<close>: the guards of the two registries.\<close>

definition drop_context :: "connection \<Rightarrow> 's node \<Rightarrow> 's node" where
  "drop_context cx n =
     (let n1 = registry_unregister (cx_id cx) n in
      case cx_link cx of
        None \<Rightarrow> n1
      | Some p \<Rightarrow> peer_link_registration_drop p (cx_outgoing_tx cx) n1)"

definition connection_end :: "('w, 'z) runtime_scheme \<Rightarrow> connection \<Rightarrow> 's node \<Rightarrow> 'w \<Rightarrow> 's node \<times> 'w" where
  "connection_end rt cx n w = (let (n', w') = shut_down rt cx n w in (drop_context cx n', w'))"

section \<open>Reloading\<close>

definition entry_permits :: "connection_entry \<Rightarrow> 's node \<Rightarrow> topic_filter \<Rightarrow> bool" where
  "entry_permits en n f =
     filter_acl_permits (nd_topic_acl n) (nd_peer_topic_acl n) (ce_is_peer en) (ce_principal en) f ASubscribe"

definition reconcile_connection :: "('w, 'z) runtime_scheme \<Rightarrow> u64 \<Rightarrow> 's node \<Rightarrow> 'w \<Rightarrow> 's node \<times> 'w" where
  "reconcile_connection rt i n w =
     (case map_of (nd_connections n) i of
        None \<Rightarrow> (n, w)
      | Some en \<Rightarrow>
          (let stopped = filter (\<lambda>(f, _). \<not> entry_permits en n f) (ce_forwarders en);
               kept = filter (\<lambda>(f, _). entry_permits en n f) (ce_forwarders en)
           in stop_all rt (ce_outgoing_tx en) stopped (set_forwarders i kept n) w))"

fun reconcile_each :: "('w, 'z) runtime_scheme \<Rightarrow> u64 list \<Rightarrow> 's node \<Rightarrow> 'w \<Rightarrow> 's node \<times> 'w" where
  "reconcile_each rt [] n w = (n, w)"
| "reconcile_each rt (i # is) n w = (let (n', w') = reconcile_connection rt i n w in reconcile_each rt is n' w')"

definition reconcile_topic_acls :: "('w, 'z) runtime_scheme \<Rightarrow> 's node \<Rightarrow> 'w \<Rightarrow> 's node \<times> 'w" where
  "reconcile_topic_acls rt n w = reconcile_each rt (map fst (nd_connections n)) n w"

record reloadable_acls =
  ra_topic_acl :: "topic_acl option"
  ra_peer_topic_acl :: "topic_acl option"
  ra_allow_peer :: "u8 list set option"
  ra_peer_topic_filter :: "peer_topic_filter option"

definition install_acls :: "reloadable_acls \<Rightarrow> 's node \<Rightarrow> 's node" where
  "install_acls a n = n\<lparr>nd_topic_acl := ra_topic_acl a, nd_peer_topic_acl := ra_peer_topic_acl a\<rparr>"

definition apply_reload :: "('w, 'z) runtime_scheme \<Rightarrow> reloadable_acls \<Rightarrow> 's node \<Rightarrow> 'w \<Rightarrow> 's node \<times> 'w" where
  "apply_reload rt a n w =
     (let (n1, w1) = reconcile_topic_acls rt (install_acls a n) w;
          n2 = n1\<lparr>nd_notified := nd_notified n1
                  @ disconnect_unless (allowlist_permits (ra_allow_peer a)) (nd_peer_links n1),
                nd_allowed_peers := ra_allow_peer a\<rparr>;
          changed = (nd_peer_topic_filter n2 \<noteq> ra_peer_topic_filter a);
          n3 = n2\<lparr>nd_peer_topic_filter := ra_peer_topic_filter a\<rparr>
      in (n3, if changed then reconcile_interest rt (nd_interest n3) (nd_node_id n3) (nd_peer_topic_filter n3) (nd_peer_links n3) w1
              else w1))"

section \<open>The tasks of the node\<close>

datatype task_event = TaskStarts | TaskReceives recv_result | TaskAcked | TaskSweeps

text \<open>The step of a task on an event; \<open>None\<close> is a task that ended. An event the task does not wait for changes nothing.\<close>

definition task_run ::
  "('w, 'z) runtime_scheme \<Rightarrow> 's message_store \<Rightarrow> task_event \<Rightarrow> task \<Rightarrow> 's broker \<Rightarrow> metrics \<Rightarrow> 'w
     \<Rightarrow> (task option \<times> 's broker \<times> metrics \<times> 'w) outcome" where
  "task_run rt ops ev tk b m w =
     (case (ev, tk_state tk, tk_kind tk) of
        (TaskStarts, Spawned, TForward) \<Rightarrow>
          (let (st, r) = forwarder_start rt (tk_filter tk) (tk_tx tk) b m w
           in Returns (map_option (\<lambda>s. tk\<lparr>tk_state := Running s\<rparr>) st, r))
      | (TaskStarts, Spawned, TDurable t p) \<Rightarrow>
          (let (st, r) = durable_forwarder_start rt ops (tk_filter tk) t p (tk_tx tk) b m w
           in Returns (map_option (\<lambda>s. tk\<lparr>tk_state := Running s\<rparr>) st, r))
      | (TaskStarts, Spawned, TAck cfg) \<Rightarrow>
          (let (st, r) = ack_forwarder_start rt (tk_filter tk) (tk_tx tk) DEFAULT_ACK_TIMEOUT DEFAULT_MAX_REDELIVERY_ATTEMPTS b m w
           in Returns (map_option (\<lambda>s. tk\<lparr>tk_state := RunningAck s\<rparr>) st, r))
      | (TaskReceives x, Running s, TForward) \<Rightarrow>
          (let (st, r) = forwarder_recv rt (tk_filter tk) (tk_tx tk) x s b m w
           in Returns (map_option (\<lambda>s. tk\<lparr>tk_state := Running s\<rparr>) st, r))
      | (TaskReceives x, Running s, TDurable t p) \<Rightarrow>
          (let (st, r) = durable_forwarder_recv rt ops (tk_filter tk) t p (tk_tx tk) x s b m w
           in Returns (map_option (\<lambda>s. tk\<lparr>tk_state := Running s\<rparr>) st, r))
      | (TaskReceives x, RunningAck s, TAck cfg) \<Rightarrow>
          (let (st, r) = ack_forwarder_recv rt (tk_filter tk) (tk_tx tk) x s b m w
           in Returns (map_option (\<lambda>s. tk\<lparr>tk_state := RunningAck s\<rparr>) st, r))
      | (TaskAcked, RunningAck s, TAck cfg) \<Rightarrow>
          (case tk_acks tk of
             [] \<Rightarrow> Returns (Some tk, b, m, w)
           | i # is \<Rightarrow> Returns (Some (tk\<lparr>tk_state := RunningAck (ack_forwarder_acked (Some i) s), tk_acks := is\<rparr>), b, m, w))
      | (TaskSweeps, RunningAck s, TAck cfg) \<Rightarrow>
          (case ack_forwarder_sweep rt ops cfg (tk_tx tk) s b m w of
             Panics \<Rightarrow> Panics
           | Returns (st, r) \<Rightarrow> Returns (map_option (\<lambda>s. tk\<lparr>tk_state := RunningAck s\<rparr>) st, r))
      | _ \<Rightarrow> Returns (Some tk, b, m, w))"

definition task_step ::
  "('w, 'z) runtime_scheme \<Rightarrow> 's message_store \<Rightarrow> task_event \<Rightarrow> nat \<Rightarrow> 's node \<Rightarrow> 'w \<Rightarrow> ('s node \<times> 'w) outcome" where
  "task_step rt ops ev h n w =
     (case map_of (nd_tasks n) h of
        None \<Rightarrow> Returns (n, w)
      | Some tk \<Rightarrow>
          (case task_run rt ops ev tk (nd_broker n) (nd_metrics n) w of
             Panics \<Rightarrow> Panics
           | Returns (tk', b, m, w') \<Rightarrow>
               Returns (n\<lparr>nd_broker := b, nd_metrics := m,
                          nd_tasks := (case tk' of None \<Rightarrow> AList.delete h (nd_tasks n) | Some t \<Rightarrow> AList.update h t (nd_tasks n))\<rparr>, w')))"

end
