(* ===== verification/Node_Runs.thy ===== *)
theory Node_Runs
  imports Connection
begin

text \<open>
  Runs of a node: connections open, exchange frames and close, tasks and sweeps run and reloads arrive, in any
  order. The invariants: the interest a node announces to the mesh covers the subscriptions of its connections,
  and the registry agrees with the contexts. At the end, the interleavings in which the bookkeeping goes wrong.
\<close>

section \<open>Subscribers and interest\<close>

definition subscribers :: "topic_filter \<Rightarrow> 's node \<Rightarrow> u64 set" where
  "subscribers f n = {i. f \<in> keys (forwarders_of i n)}"

text \<open>How far the announced interest exceeds the subscriptions.\<close>

definition excess :: "'s node \<Rightarrow> topic_filter \<Rightarrow> int" where
  "excess n f = int (interest_count (nd_interest n) f) - int (card (subscribers f n))"

definition interest_ok :: "'s node \<Rightarrow> bool" where
  "interest_ok n \<longleftrightarrow> interest_inv (nd_interest n) \<and> (\<forall>i. distinct (map fst (forwarders_of i n))) \<and> (\<forall>f. 0 \<le> excess n f)"

definition steady :: "'s node \<Rightarrow> 's node \<Rightarrow> bool" where
  "steady n n' \<longleftrightarrow> (interest_ok n \<longrightarrow> interest_ok n' \<and> excess n' = excess n)"

lemma steady_refl [intro, simp]: "steady n n"
  by (simp add: steady_def)

lemma steady_trans [trans]: "steady n n1 \<Longrightarrow> steady n1 n2 \<Longrightarrow> steady n n2"
  by (auto simp: steady_def)

lemma finite_subscribers [simp]: "finite (subscribers f n)"
proof (rule finite_subset)
  show "subscribers f n \<subseteq> fst ` set (nd_connections n)"
  proof
    fix i assume "i \<in> subscribers f n"
    then obtain en where "map_of (nd_connections n) i = Some en"
      by (cases "map_of (nd_connections n) i") (auto simp: subscribers_def forwarders_of_def keys_def)
    then show "i \<in> fst ` set (nd_connections n)" by (metis domI dom_map_of_conv_image_fst)
  qed
qed simp

text \<open>An update that leaves interest and forwarders alone.\<close>

definition same_subs :: "'s node \<Rightarrow> 's node \<Rightarrow> bool" where
  "same_subs n n' \<longleftrightarrow> nd_interest n' = nd_interest n \<and> (\<forall>i. forwarders_of i n' = forwarders_of i n)"

lemma same_subs_steady: "same_subs n n' \<Longrightarrow> steady n n'"
  by (simp add: same_subs_def steady_def interest_ok_def excess_def subscribers_def fun_eq_iff)

lemma same_subs_refl [simp]: "same_subs n n"
  by (simp add: same_subs_def)

lemma same_subs_trans: "same_subs n n1 \<Longrightarrow> same_subs n1 n2 \<Longrightarrow> same_subs n n2"
  by (simp add: same_subs_def)

lemma same_subs_fields: "nd_interest n' = nd_interest n \<Longrightarrow> nd_connections n' = nd_connections n \<Longrightarrow> same_subs n n'"
  by (simp add: same_subs_def forwarders_of_def)

lemma forwarders_of_set_forwarders:
  "forwarders_of j (set_forwarders i fs n) = (if j = i \<and> map_of (nd_connections n) i \<noteq> None then fs else forwarders_of j n)"
  by (simp add: forwarders_of_def set_forwarders_def split: option.split)

lemma set_forwarders_fields [simp]: "nd_interest (set_forwarders i fs n) = nd_interest n"
  "nd_topic_acl (set_forwarders i fs n) = nd_topic_acl n" "nd_peer_topic_acl (set_forwarders i fs n) = nd_peer_topic_acl n"
  "map_of (nd_connections (set_forwarders i fs n)) j =
     (if j = i then map_option (\<lambda>en. en\<lparr>ce_forwarders := fs\<rparr>) (map_of (nd_connections n) i) else map_of (nd_connections n) j)"
  by (simp_all add: set_forwarders_def split: option.split)

lemma set_forwarders_links [simp]: "nd_peer_links (set_forwarders i fs n) = nd_peer_links n" "nd_notified (set_forwarders i fs n) = nd_notified n"
  by (simp_all add: set_forwarders_def split: option.split)

lemma stop_subscription_links [simp]: "nd_peer_links (stop_subscription f tx sub n) = nd_peer_links n"
  "nd_notified (stop_subscription f tx sub n) = nd_notified n"
  by (cases sub; simp add: abort_task_def)+

lemma stop_all_links: "nd_peer_links (fst (stop_all rt tx subs n w)) = nd_peer_links n \<and> nd_notified (fst (stop_all rt tx subs n w)) = nd_notified n"
  by (induction rt tx subs n w rule: stop_all.induct) (simp_all add: case_prod_beta Let_def)

lemma reconcile_links_frame: "nd_peer_links (fst (reconcile_each rt is n w)) = nd_peer_links n \<and> nd_notified (fst (reconcile_each rt is n w)) = nd_notified n"
  by (induction "is" arbitrary: n w) (simp_all add: case_prod_beta Let_def reconcile_connection_def stop_all_links split: option.split)

lemma stop_subscription_fields [simp]: "nd_interest (stop_subscription f tx sub n) = nd_interest n"
  "nd_connections (stop_subscription f tx sub n) = nd_connections n"
  "nd_topic_acl (stop_subscription f tx sub n) = nd_topic_acl n" "nd_peer_topic_acl (stop_subscription f tx sub n) = nd_peer_topic_acl n"
  by (cases sub; simp add: abort_task_def)+

lemma forwarders_of_conns: "nd_connections n' = nd_connections n \<Longrightarrow> forwarders_of i n' = forwarders_of i n"
  by (simp add: forwarders_of_def)

section \<open>Adding and removing a subscription\<close>

lemma subscribers_insert:
  assumes "map_of (nd_connections n) i \<noteq> None" and "nd_connections n1 = nd_connections n"
    and "f \<notin> keys (forwarders_of i n)"
  shows "subscribers g (set_forwarders i (AList.update f sub (forwarders_of i n)) n1) =
    (if g = f then insert i (subscribers f n) else subscribers g n)"
proof -
  have "forwarders_of j n1 = forwarders_of j n" for j using assms(2) by (rule forwarders_of_conns)
  then show ?thesis using assms by (auto simp: subscribers_def forwarders_of_set_forwarders split: if_splits)
qed

text \<open>A new subscription with its interest counted.\<close>

lemma insert_steady:
  assumes "map_of (nd_connections n) i \<noteq> None" and "nd_connections n1 = nd_connections n" "nd_interest n1 = nd_interest n"
    and "f \<notin> keys (forwarders_of i n)"
  shows "steady n ((set_forwarders i (AList.update f sub (forwarders_of i n)) n1)
    \<lparr>nd_interest := snd (interest_subscribe f (nd_interest n))\<rparr>)"
proof -
  let ?n2 = "set_forwarders i (AList.update f sub (forwarders_of i n)) n1"
  let ?n3 = "?n2\<lparr>nd_interest := snd (interest_subscribe f (nd_interest n))\<rparr>"
  have fw: "forwarders_of j ?n3 = forwarders_of j ?n2" "forwarders_of j n1 = forwarders_of j n" for j
    using assms(2) by (simp_all add: forwarders_of_def)
  have subs: "subscribers g ?n3 = (if g = f then insert i (subscribers f n) else subscribers g n)" for g
    using subscribers_insert [OF assms(1,2,4)] by (simp only: subscribers_def fw(1))
  have "i \<notin> subscribers f n" using assms(4) by (simp add: subscribers_def)
  then have "excess ?n3 = excess n"
    by (simp add: fun_eq_iff excess_def subs interest_subscribe_count)
  moreover have "distinct (map fst (forwarders_of j ?n3))" if "\<forall>j. distinct (map fst (forwarders_of j n))" for j
    using that by (simp add: fw forwarders_of_set_forwarders distinct_update)
  ultimately show ?thesis by (simp add: steady_def interest_ok_def interest_subscribe_inv)
qed

lemma stop_all_effect:
  assumes "stop_all rt tx subs n w = (n', w')"
  shows "nd_connections n' = nd_connections n \<and> nd_topic_acl n' = nd_topic_acl n \<and> nd_peer_topic_acl n' = nd_peer_topic_acl n
    \<and> (interest_inv (nd_interest n) \<longrightarrow> interest_inv (nd_interest n'))
    \<and> (distinct (map fst subs) \<longrightarrow> (\<forall>f. interest_count (nd_interest n') f = interest_count (nd_interest n) f - (if f \<in> keys subs then 1 else 0)))"
  using assms
proof (induction subs arbitrary: n w)
  case (Cons fs subs)
  obtain f sub where fs: "fs = (f, sub)" by fastforce
  let ?n1 = "stop_subscription f tx sub n"
  obtain lost i where u: "interest_unsubscribe f (nd_interest n) = (lost, i)" by fastforce
  let ?n2 = "?n1\<lparr>nd_interest := i\<rparr>"
  have i: "i = snd (interest_unsubscribe f (nd_interest n))" by (simp add: u)
  from Cons.prems have "stop_all rt tx subs ?n2 (if lost then propagate_interest rt f False ?n2 w else w) = (n', w')" by (simp add: fs u Let_def)
  from Cons.IH [OF this] show ?case
    by (auto simp: fs i interest_unsubscribe_inv interest_unsubscribe_count(1) keys_def image_iff)
qed simp

text \<open>Taking the subscriptions \<open>stopped\<close> of a connection out of its map and stopping them.\<close>

lemma stop_all_steady:
  assumes "map_of (nd_connections n) i \<noteq> None" and "distinct (map fst (forwarders_of i n)) \<Longrightarrow> distinct (map fst stopped) \<and> distinct (map fst kept)"
    and "keys (forwarders_of i n) = keys kept \<union> keys stopped" and "keys kept \<inter> keys stopped = {}"
    and "stop_all rt tx stopped (set_forwarders i kept n) w = (n', w')"
  shows "steady n n'"
  unfolding steady_def
proof
  assume ok: "interest_ok n"
  then have d: "distinct (map fst stopped)" "distinct (map fst kept)" using assms(2) by (auto simp: interest_ok_def)
  note eff = stop_all_effect [OF assms(5)]
  have fw: "forwarders_of j n' = (if j = i then kept else forwarders_of j n)" for j
    using eff assms(1) forwarders_of_conns [of n' "set_forwarders i kept n"] by (simp add: forwarders_of_set_forwarders)
  have subs: "subscribers f n' = (if f \<in> keys stopped then subscribers f n - {i} else subscribers f n)" for f
    using assms(3,4) by (auto simp: subscribers_def fw split: if_splits)
  have mem: "i \<in> subscribers f n" if "f \<in> keys stopped" for f using that assms(3) by (simp add: subscribers_def)
  have "excess n' f = excess n f" for f
  proof (cases "f \<in> keys stopped")
    case True
    have "0 < card (subscribers f n)" using mem [OF True] by (auto simp: card_gt_0_iff)
    moreover have "int (card (subscribers f n)) \<le> int (interest_count (nd_interest n) f)"
      using ok by (simp add: interest_ok_def excess_def)
    ultimately show ?thesis
      using eff d True mem [OF True] by (simp add: excess_def subs)
  next
    case False
    then show ?thesis using eff d by (simp add: excess_def subs)
  qed
  then show "interest_ok n' \<and> excess n' = excess n"
    using ok eff d by (auto simp: interest_ok_def fw fun_eq_iff)
qed

section \<open>What the handlers keep\<close>

text \<open>What a registry entry says of its connection besides the subscriptions.\<close>

definition shape :: "'s node \<Rightarrow> u64 \<Rightarrow> (principal \<times> bool \<times> sender) option" where
  "shape n i = map_option (\<lambda>en. (ce_principal en, ce_is_peer en, ce_outgoing_tx en)) (map_of (nd_connections n) i)"

definition keeps :: "'s node \<Rightarrow> 's node \<Rightarrow> bool" where
  "keeps n n' \<longleftrightarrow> steady n n' \<and> shape n' = shape n"

text \<open>The same, except that interest may be left over.\<close>

definition covers :: "'s node \<Rightarrow> 's node \<Rightarrow> bool" where
  "covers n n' \<longleftrightarrow> (interest_ok n \<longrightarrow> interest_ok n' \<and> excess n \<le> excess n') \<and> shape n' = shape n"

lemma keeps_refl [simp]: "keeps n n"
  by (simp add: keeps_def)

lemma keeps_trans: "keeps n n1 \<Longrightarrow> keeps n1 n2 \<Longrightarrow> keeps n n2"
  by (auto simp: keeps_def intro: steady_trans)

lemma keeps_covers: "keeps n n' \<Longrightarrow> covers n n'"
  by (simp add: keeps_def covers_def steady_def)

lemma keeps_fields: "nd_interest n' = nd_interest n \<Longrightarrow> nd_connections n' = nd_connections n \<Longrightarrow> keeps n n'"
  by (simp add: keeps_def same_subs_steady same_subs_fields shape_def fun_eq_iff)

lemma shape_set_forwarders [simp]: "shape (set_forwarders i fs n) = shape n"
  by (auto simp: shape_def fun_eq_iff option.map_comp comp_def)

lemma shape_interest [simp]: "shape (n\<lparr>nd_interest := i\<rparr>) = shape n"
  by (simp add: shape_def fun_eq_iff)

lemma shape_conns: "nd_connections n' = nd_connections n \<Longrightarrow> shape n' = shape n"
  by (simp add: shape_def fun_eq_iff)

lemma shape_registered: "shape n i \<noteq> None \<longleftrightarrow> map_of (nd_connections n) i \<noteq> None"
  by (simp add: shape_def)

lemma open_subscription_fields:
  assumes "open_subscription cx f ack grp durable subscriber n = Returns (sub, n')"
  shows "nd_interest n' = nd_interest n \<and> nd_connections n' = nd_connections n \<and> nd_topic_acl n' = nd_topic_acl n
    \<and> nd_peer_topic_acl n' = nd_peer_topic_acl n"
  using assms by (auto simp: open_subscription_def spawn_task_def Let_def split: option.splits if_splits)

lemma subscribe_insert_cases [consumes 1, case_names old new]:
  assumes "subscribe_insert cx f ack grp durable subscriber n = Returns (is_new, n1)"
  obtains "\<not> is_new" "n1 = n" "f \<in> keys (forwarders_of (cx_id cx) n)"
  | sub n0 where "is_new" "f \<notin> keys (forwarders_of (cx_id cx) n)" "nd_interest n0 = nd_interest n" "nd_connections n0 = nd_connections n"
    "nd_topic_acl n0 = nd_topic_acl n" "nd_peer_topic_acl n0 = nd_peer_topic_acl n"
    "n1 = set_forwarders (cx_id cx) (AList.update f sub (forwarders_of (cx_id cx) n)) n0"
proof (cases "map_of (forwarders_of (cx_id cx) n) f = None")
  case True
  with assms obtain sub n0 where "open_subscription cx f ack grp durable subscriber n = Returns (sub, n0)" "is_new"
    "n1 = set_forwarders (cx_id cx) (AList.update f sub (forwarders_of (cx_id cx) n)) n0"
    by (auto simp: subscribe_insert_def Let_def split: outcome.splits)
  with True that(2) open_subscription_fields show thesis by (metis map_of_None_keys)
next
  case False
  with assms that(1) show thesis by (auto simp: subscribe_insert_def Let_def keys_dom)
qed

lemma subscribe_commit_keeps:
  assumes "map_of (nd_connections n) (cx_id cx) \<noteq> None" and "subscribe_insert cx f ack grp durable subscriber n = Returns (is_new, n1)"
    and "subscribe_commit rt cx e f is_new n1 w = (ok, n', w')"
  shows "keeps n n'"
  using assms(2)
proof (cases rule: subscribe_insert_cases)
  case old
  with assms(3) show ?thesis by (auto simp: subscribe_commit_def Let_def split: if_splits prod.splits)
next
  case (new sub n0)
  have "n' = n1\<lparr>nd_interest := snd (interest_subscribe f (nd_interest n))\<rparr>"
    using assms(3) new(1,3,7) by (auto simp: subscribe_commit_def Let_def split: if_splits prod.splits)
  then show ?thesis
    using insert_steady [OF assms(1) new(4,3,2)] shape_conns [OF new(4)] by (simp add: keeps_def new(7))
qed

lemma subscribe_refuse_keeps: "subscribe_refuse rt cx e f n w = (ok, n', w') \<Longrightarrow> keeps n n'"
  by (auto simp: subscribe_refuse_def count_acl_rejection_def Let_def intro!: keeps_fields split: prod.splits)

lemma handle_subscribe_keeps:
  assumes "map_of (nd_connections n) (cx_id cx) \<noteq> None" and "handle_subscribe rt cx e f ack grp durable n w = Returns (ok, n', w')"
  shows "keeps n n'"
proof (cases "if durable then durable_rejection cx f ack grp n else None")
  case Some
  with assms(2) show ?thesis by (auto simp: handle_subscribe_def split: prod.splits)
next
  case rej: None
  show ?thesis
  proof (cases "may_subscribe cx f n")
    case False
    with assms(2) rej show ?thesis by (auto simp: handle_subscribe_def intro: subscribe_refuse_keeps)
  next
    case True
    with assms(2) rej obtain is_new n1 where
      ins: "subscribe_insert cx f ack grp durable (env_sender e) n = Returns (is_new, n1)"
      and settle: "subscribe_settle rt cx e f is_new n1 w = (ok, n', w')"
      by (auto simp: handle_subscribe_def split: outcome.splits)
    from ins have "may_subscribe cx f n1 = may_subscribe cx f n"
      by (cases rule: subscribe_insert_cases) (simp_all add: may_subscribe_def)
    with True settle have "subscribe_commit rt cx e f is_new n1 w = (ok, n', w')" by (simp add: subscribe_settle_def)
    from subscribe_commit_keeps [OF assms(1) ins this] show ?thesis .
  qed
qed

text \<open>Removing a subscription and withdrawing its interest are two halves: between them interest is left over.\<close>

lemma remove_subscription_cases [consumes 1, case_names none some]:
  assumes "remove_subscription cx f n = (had, n1)"
  obtains "\<not> had" "n1 = n"
  | "had" "f \<in> keys (forwarders_of (cx_id cx) n)" "nd_interest n1 = nd_interest n"
    "nd_connections n1 = nd_connections (set_forwarders (cx_id cx) (AList.delete f (forwarders_of (cx_id cx) n)) n)"
proof (cases "map_of (forwarders_of (cx_id cx) n) f")
  case None
  with assms that(1) show thesis by (simp add: remove_subscription_def Let_def)
next
  case (Some sub)
  then have "f \<in> keys (forwarders_of (cx_id cx) n)" by (auto simp: keys_dom)
  with assms that(2) Some show thesis by (auto simp: remove_subscription_def Let_def)
qed

lemma removed_excess:
  assumes "f \<in> keys (forwarders_of i n)" "interest_ok n" "nd_interest n1 = nd_interest n"
    and "nd_connections n1 = nd_connections (set_forwarders i (AList.delete f (forwarders_of i n)) n)"
  shows "interest_ok n1 \<and> excess n1 = (excess n)(f := excess n f + 1)"
proof -
  have reg: "map_of (nd_connections n) i \<noteq> None" using assms(1) by (cases "map_of (nd_connections n) i") (simp_all add: forwarders_of_def keys_def)
  have fw: "forwarders_of j n1 = (if j = i then AList.delete f (forwarders_of i n) else forwarders_of j n)" for j
    using forwarders_of_conns [OF assms(4)] reg by (simp add: forwarders_of_set_forwarders)
  have subs: "subscribers g n1 = (if g = f then subscribers f n - {i} else subscribers g n)" for g
    by (auto simp: subscribers_def fw split: if_splits)
  have "i \<in> subscribers f n" using assms(1) by (simp add: subscribers_def)
  then have "0 < card (subscribers f n)" by (auto simp: card_gt_0_iff)
  with \<open>i \<in> subscribers f n\<close> have ex: "excess n1 = (excess n)(f := excess n f + 1)"
    by (auto simp: fun_eq_iff excess_def subs assms(3))
  moreover have "interest_ok n1"
    using assms(2) by (auto simp: interest_ok_def assms(3) fw ex distinct_delete)
  ultimately show ?thesis by simp
qed

lemma withdraw_excess:
  assumes "interest_ok n" and "0 < excess n f"
  shows "interest_ok (n\<lparr>nd_interest := snd (interest_unsubscribe f (nd_interest n))\<rparr>)
    \<and> excess (n\<lparr>nd_interest := snd (interest_unsubscribe f (nd_interest n))\<rparr>) = (excess n)(f := excess n f - 1)"
proof -
  let ?n = "n\<lparr>nd_interest := snd (interest_unsubscribe f (nd_interest n))\<rparr>"
  have fw: "forwarders_of j ?n = forwarders_of j n" for j by (simp add: forwarders_of_def)
  have "0 < interest_count (nd_interest n) f" using assms(2) by (simp add: excess_def)
  then have ex: "excess ?n = (excess n)(f := excess n f - 1)"
    by (auto simp: fun_eq_iff excess_def subscribers_def fw interest_unsubscribe_count(1) of_nat_diff)
  then show ?thesis using assms by (simp add: interest_ok_def fw interest_unsubscribe_inv)
qed

lemma handle_unsubscribe_effect:
  assumes "handle_unsubscribe rt cx e f n w = (ok, n', w')"
  shows "covers n n' \<and> (ok \<longrightarrow> keeps n n')"
proof -
  obtain had n1 where rem: "remove_subscription cx f n = (had, n1)" by fastforce
  from rem show ?thesis
  proof (cases rule: remove_subscription_cases)
    case none
    with assms rem have "n' = n" by (auto simp: handle_unsubscribe_def Let_def split: if_splits prod.splits)
    then show ?thesis by (simp add: keeps_covers)
  next
    case some
    have n': "n' = (if ok then n1\<lparr>nd_interest := snd (interest_unsubscribe f (nd_interest n1))\<rparr> else n1)"
      using assms rem some(1) by (auto simp: handle_unsubscribe_def Let_def split: if_splits prod.splits)
    have sh: "shape n' = shape n" using shape_conns [OF some(4)] by (simp add: n')
    note r = removed_excess [OF some(2) _ some(3,4)]
    have "interest_ok n' \<and> excess n' = (if ok then excess n else (excess n)(f := excess n f + 1))" if "interest_ok n"
    proof (cases ok)
      case True
      have "0 < excess n1 f" using r [OF that] that by (auto simp: interest_ok_def intro: add_nonneg_pos)
      from withdraw_excess [OF _ this] r [OF that] True show ?thesis by (simp add: n' fun_eq_iff)
    qed (use r [OF that] n' in simp)
    then show ?thesis using sh by (auto simp: covers_def keeps_def steady_def le_fun_def)
  qed
qed

lemma handle_publish_keeps: "handle_publish rt ops rnd cx e n w = Returns (ok, n', w') \<Longrightarrow> keeps n n'"
  by (auto simp: handle_publish_def count_acl_rejection_def limiter_allows_def Let_def intro!: keeps_fields
      split: message_kind.splits if_splits prod.splits option.splits)

lemma push_ack_fields: "nd_interest (push_ack h i n) = nd_interest n" "nd_connections (push_ack h i n) = nd_connections n"
  by (simp_all add: push_ack_def split: option.split)

lemma ack_subscriptions_fields: "nd_interest (ack_subscriptions i subs n) = nd_interest n"
  "nd_connections (ack_subscriptions i subs n) = nd_connections n"
  by (induction i subs n rule: ack_subscriptions.induct) (simp_all add: push_ack_fields)

lemma learn_loop_fields: "nd_interest (snd (learn_loop as n)) = nd_interest n" "nd_connections (snd (learn_loop as n)) = nd_connections n"
  by (induction as arbitrary: n) (simp_all add: Let_def case_prod_beta)

lemma learn_peers_keeps: "learn_peers rt peers n w = (n', w') \<Longrightarrow> keeps n n'"
  using learn_loop_fields [of peers n] by (auto simp: learn_peers_def intro!: keeps_fields split: prod.splits if_splits)

lemma register_peer_link_fields:
  "nd_interest (fst (register_peer_link rt p pr addr tx d n w)) = nd_interest n"
  "nd_connections (fst (register_peer_link rt p pr addr tx d n w)) = nd_connections n"
  by (auto simp: register_peer_link_def Let_def split: prod.splits option.splits)

lemma hold_link_fields:
  assumes "hold_link rt p addr cx n w = (cx', n', w')"
  shows "nd_interest n' = nd_interest n \<and> nd_connections n' = nd_connections n \<and> cx' = cx\<lparr>cx_link := Some p\<rparr>"
  using assms register_peer_link_fields [of rt p "cx_principal cx" addr "cx_outgoing_tx cx" "cx_disconnect cx" n w]
  by (auto simp: hold_link_def Let_def split: prod.splits option.splits if_splits)

text \<open>The registry flag follows the identity of a connection that becomes a peer link.\<close>

definition peer_shape :: "u64 \<Rightarrow> 's node \<Rightarrow> u64 \<Rightarrow> (principal \<times> bool \<times> sender) option" where
  "peer_shape i n = (shape n)(i := map_option (\<lambda>(p, _, tx). (p, True, tx)) (shape n i))"

lemma set_is_peer_effect: "same_subs n (set_is_peer i n)" "shape (set_is_peer i n) = peer_shape i n"
  by (auto simp: same_subs_def set_is_peer_def forwarders_of_def shape_def peer_shape_def fun_eq_iff split: option.splits)

lemma peer_link_effect:
  assumes "nd_interest n' = nd_interest (set_is_peer i n)" "nd_connections n' = nd_connections (set_is_peer i n)"
  shows "steady n n' \<and> shape n' = peer_shape i n"
proof -
  have "same_subs n n'" using same_subs_trans [OF set_is_peer_effect(1) same_subs_fields [OF assms]] .
  with set_is_peer_effect(2) [of i n] shape_conns [OF assms(2)] show ?thesis by (simp add: same_subs_steady)
qed

lemma handle_hello_effect:
  assumes "handle_hello rt e addr cx n w = (ok, cx', n', w')"
  shows "(cx' = cx \<and> n' = n \<and> \<not> ok)
    \<or> (steady n n' \<and> shape n' = peer_shape (cx_id cx) n \<and> cx_peer_identity cx' = Some (env_sender e)
       \<and> cx_id cx' = cx_id cx \<and> cx_principal cx' = cx_principal cx \<and> cx_outgoing_tx cx' = cx_outgoing_tx cx)"
proof (cases "allowlist_permits (nd_allowed_peers n) (cx_principal cx)")
  case True
  then show ?thesis using assms
    by (auto simp: handle_hello_def Let_def dest!: hold_link_fields intro!: peer_link_effect [THEN conjunct1] peer_link_effect [THEN conjunct2]
        split: prod.splits if_splits)
qed (use assms in \<open>auto simp: handle_hello_def split: prod.splits\<close>)

lemma admit_initial_peer_effect:
  assumes "admit_initial_peer rt info cx n w = (ok, cx', n', w')"
  shows "(cx' = cx \<and> n' = n \<and> \<not> ok)
    \<or> (ok \<and> steady n n' \<and> shape n' = peer_shape (cx_id cx) n \<and> is_peer cx'
       \<and> cx_id cx' = cx_id cx \<and> cx_principal cx' = cx_principal cx \<and> cx_outgoing_tx cx' = cx_outgoing_tx cx)"
proof (cases "allowlist_permits (nd_allowed_peers n) (cx_principal cx)")
  case True
  then show ?thesis using assms
    by (auto simp: admit_initial_peer_def is_peer_def Let_def dest!: hold_link_fields
        intro!: peer_link_effect [THEN conjunct1] peer_link_effect [THEN conjunct2] split: prod.splits if_splits)
qed (use assms in \<open>auto simp: admit_initial_peer_def Let_def split: prod.splits\<close>)

section \<open>Closing a connection and reloading\<close>

lemma shut_down_steady:
  assumes "map_of (nd_connections n) (cx_id cx) \<noteq> None" and "shut_down rt cx n w = (n', w')"
  shows "keeps n n' \<and> forwarders_of (cx_id cx) n' = []"
proof -
  let ?i = "cx_id cx"
  obtain n1 w1 where st: "stop_all rt (cx_outgoing_tx cx) (forwarders_of ?i n) (set_forwarders ?i [] n) w = (n1, w1)" by fastforce
  have "steady n n1" by (rule stop_all_steady [OF assms(1) _ _ _ st]) (simp_all add: keys_def)
  moreover have "nd_connections n1 = nd_connections (set_forwarders ?i [] n)" using stop_all_effect [OF st] by simp
  then have "shape n1 = shape n" "forwarders_of ?i n1 = []"
    using shape_conns forwarders_of_conns assms(1) by (fastforce simp: forwarders_of_set_forwarders)+
  ultimately have "keeps n n1" by (simp add: keeps_def)
  moreover have "keeps n1 n' \<and> forwarders_of ?i n' = forwarders_of ?i n1"
    using assms(2) st by (auto simp: shut_down_def Let_def forwarders_of_def intro!: keeps_fields split: option.splits)
  ultimately show ?thesis using keeps_trans \<open>forwarders_of ?i n1 = []\<close> by metis
qed

lemma drop_context_steady:
  assumes "forwarders_of (cx_id cx) n = []"
  shows "steady n (drop_context cx n) \<and> shape (drop_context cx n) = (shape n)(cx_id cx := None)"
proof -
  have "forwarders_of i (drop_context cx n) = forwarders_of i n" for i
    using assms by (auto simp: drop_context_def registry_unregister_def forwarders_of_def Let_def delete_conv split: option.splits)
  then have "same_subs n (drop_context cx n)"
    by (simp add: same_subs_def) (simp add: drop_context_def registry_unregister_def Let_def split: option.split)
  moreover have "shape (drop_context cx n) = (shape n)(cx_id cx := None)"
    by (simp add: drop_context_def registry_unregister_def Let_def shape_def fun_eq_iff delete_conv split: option.split)
  ultimately show ?thesis by (simp add: same_subs_steady)
qed

lemma connection_end_steady:
  assumes "map_of (nd_connections n) (cx_id cx) \<noteq> None" and "connection_end rt cx n w = (n', w')"
  shows "steady n n' \<and> shape n' = (shape n)(cx_id cx := None)"
proof -
  obtain n1 w1 where sd: "shut_down rt cx n w = (n1, w1)" by fastforce
  with assms(2) have n': "n' = drop_context cx n1" by (simp add: connection_end_def)
  from shut_down_steady [OF assms(1) sd] drop_context_steady [of cx n1] show ?thesis
    unfolding n' keeps_def using steady_trans by (metis)
qed

lemma connection_end_others:
  assumes "connection_end rt cx n w = (n', w')" and "j \<noteq> cx_id cx"
  shows "forwarders_of j n' = forwarders_of j n"
proof -
  let ?n0 = "set_forwarders (cx_id cx) [] n"
  obtain n1 w1 where st: "stop_all rt (cx_outgoing_tx cx) (forwarders_of (cx_id cx) n) ?n0 w = (n1, w1)" by fastforce
  have "forwarders_of j n' = forwarders_of j n1"
    using assms st by (auto simp: connection_end_def shut_down_def drop_context_def registry_unregister_def forwarders_of_def delete_conv Let_def
        split: option.splits)
  also have "\<dots> = forwarders_of j ?n0" using stop_all_effect [OF st] by (intro forwarders_of_conns) simp
  finally show ?thesis using assms(2) by (simp add: forwarders_of_set_forwarders)
qed

lemma keys_filter: "keys (filter (\<lambda>(f, _). P f) fs) = {f \<in> keys fs. P f}"
  by (auto simp: keys_def)

text \<open>Whether the lists in force let the connection \<open>i\<close> keep a subscription, by its role in the registry.\<close>

definition permitted :: "'s node \<Rightarrow> u64 \<Rightarrow> topic_filter \<Rightarrow> bool" where
  "permitted n i f \<longleftrightarrow> (case shape n i of
     None \<Rightarrow> True
   | Some (p, peer, _) \<Rightarrow> filter_acl_permits (nd_topic_acl n) (nd_peer_topic_acl n) peer p f ASubscribe)"

lemma permitted_cong:
  "shape n' = shape n \<Longrightarrow> nd_topic_acl n' = nd_topic_acl n \<Longrightarrow> nd_peer_topic_acl n' = nd_peer_topic_acl n \<Longrightarrow> permitted n' = permitted n"
  by (intro ext) (simp add: permitted_def split: option.split)

lemma reconcile_connection_effect:
  assumes "reconcile_connection rt i n w = (n', w')"
  shows "keeps n n' \<and> nd_topic_acl n' = nd_topic_acl n \<and> nd_peer_topic_acl n' = nd_peer_topic_acl n
    \<and> (\<forall>j. forwarders_of j n' = (if j = i then filter (\<lambda>(f, _). permitted n i f) (forwarders_of i n) else forwarders_of j n))"
proof (cases "map_of (nd_connections n) i")
  case None
  with assms show ?thesis by (auto simp: reconcile_connection_def forwarders_of_def)
next
  case (Some en)
  let ?kept = "filter (\<lambda>(f, _). entry_permits en n f) (ce_forwarders en)"
  let ?stopped = "filter (\<lambda>(f, _). \<not> entry_permits en n f) (ce_forwarders en)"
  have fs: "forwarders_of i n = ce_forwarders en" using Some by (simp add: forwarders_of_def)
  have pm: "entry_permits en n = permitted n i" using Some by (simp add: fun_eq_iff entry_permits_def permitted_def shape_def)
  have st: "stop_all rt (ce_outgoing_tx en) ?stopped (set_forwarders i ?kept n) w = (n', w')"
    using assms Some by (simp add: reconcile_connection_def)
  have "steady n n'"
    by (rule stop_all_steady [OF _ _ _ _ st]) (auto simp: Some fs keys_filter distinct_map_filter)
  moreover note eff = stop_all_effect [OF st]
  moreover have "forwarders_of j n' = (if j = i then ?kept else forwarders_of j n)" for j
    using eff forwarders_of_conns [of n' "set_forwarders i ?kept n"] Some by (simp add: forwarders_of_set_forwarders)
  moreover have "shape n' = shape n" using eff shape_conns [of n' "set_forwarders i ?kept n"] by simp
  ultimately show ?thesis using fs pm by (simp add: keeps_def)
qed

lemma reconcile_each_effect:
  assumes "reconcile_each rt is n w = (n', w')"
  shows "keeps n n' \<and> nd_topic_acl n' = nd_topic_acl n \<and> nd_peer_topic_acl n' = nd_peer_topic_acl n
    \<and> (\<forall>j. forwarders_of j n' = (if j \<in> set is then filter (\<lambda>(f, _). permitted n j f) (forwarders_of j n) else forwarders_of j n))"
  using assms
proof (induction "is" arbitrary: n w)
  case (Cons i "is")
  obtain n1 w1 where one: "reconcile_connection rt i n w = (n1, w1)" by fastforce
  note eff = reconcile_connection_effect [OF one]
  have pm: "permitted n1 = permitted n" using eff by (intro permitted_cong) (simp_all add: keeps_def)
  from Cons.prems one have "reconcile_each rt is n1 w1 = (n', w')" by simp
  from Cons.IH [OF this] eff show ?case
    by (auto simp: pm intro: keeps_trans split: if_splits)
qed simp

lemma apply_reload_effect:
  assumes "apply_reload rt a n w = (n', w')"
  shows "keeps n n' \<and> nd_topic_acl n' = ra_topic_acl a \<and> nd_peer_topic_acl n' = ra_peer_topic_acl a
    \<and> nd_allowed_peers n' = ra_allow_peer a \<and> nd_peer_topic_filter n' = ra_peer_topic_filter a
    \<and> (\<forall>i. forwarders_of i n' = filter (\<lambda>(f, _). permitted n' i f) (forwarders_of i n))"
proof -
  let ?n0 = "install_acls a n"
  obtain n1 w1 where rec: "reconcile_each rt (map fst (nd_connections ?n0)) ?n0 w = (n1, w1)" by fastforce
  note eff = reconcile_each_effect [OF rec]
  have n0: "keeps n ?n0" "nd_connections ?n0 = nd_connections n" by (auto simp: install_acls_def intro!: keeps_fields)
  have n': "nd_connections n' = nd_connections n1" "nd_interest n' = nd_interest n1" "nd_topic_acl n' = nd_topic_acl n1"
    "nd_peer_topic_acl n' = nd_peer_topic_acl n1" "nd_allowed_peers n' = ra_allow_peer a" "nd_peer_topic_filter n' = ra_peer_topic_filter a"
    using assms rec by (auto simp: apply_reload_def reconcile_topic_acls_def Let_def)
  have pm: "permitted n' = permitted ?n0"
    using eff n' shape_conns [OF n'(1)] by (intro permitted_cong) (simp_all add: keeps_def)
  have "forwarders_of i n' = filter (\<lambda>(f, _). permitted n' i f) (forwarders_of i n)" for i
  proof (cases "i \<in> set (map fst (nd_connections n))")
    case True
    with eff n0(2) show ?thesis unfolding forwarders_of_conns [OF n'(1)] pm forwarders_of_conns [OF n0(2), symmetric] by simp
  next
    case False
    then have "forwarders_of i n = []" by (simp add: forwarders_of_def map_of_eq_None_iff [THEN iffD2])
    with eff n0(2) False show ?thesis
      unfolding forwarders_of_conns [OF n'(1)] forwarders_of_conns [OF n0(2), symmetric] by simp
  qed
  then show ?thesis
    using eff n' n0(1) keeps_fields [OF n'(2,1)] by (auto simp: install_acls_def intro: keeps_trans)
qed

section \<open>One event of a connection\<close>

definition view :: "connection \<Rightarrow> principal \<times> bool \<times> sender" where
  "view cx = (cx_principal cx, is_peer cx, cx_outgoing_tx cx)"

text \<open>A runtime whose connections' queues never close under a sender.\<close>

definition reliable :: "('w, 'z) runtime_scheme \<Rightarrow> bool" where
  "reliable rt \<longleftrightarrow> (\<forall>s e w. fst (rt_mpsc_send rt s e w))"

definition advances :: "('w, 'z) runtime_scheme \<Rightarrow> connection \<Rightarrow> 's node \<Rightarrow> connection \<Rightarrow> 's node \<Rightarrow> bool" where
  "advances rt cx n cx' n' \<longleftrightarrow> cx_id cx' = cx_id cx \<and> shape n' = (shape n)(cx_id cx := Some (view cx'))
     \<and> (interest_ok n \<longrightarrow> interest_ok n' \<and> excess n \<le> excess n' \<and> (reliable rt \<longrightarrow> excess n' = excess n))"

lemma keeps_advances: "keeps n n' \<Longrightarrow> shape n (cx_id cx) = Some (view cx) \<Longrightarrow> advances rt cx n cx n'"
  by (simp add: advances_def keeps_def steady_def fun_upd_idem)

lemma reply_reliable: "reliable rt \<Longrightarrow> fst (reply rt cx kind n w)"
  by (simp add: reliable_def reply_def split: prod.split)

lemma handle_unsubscribe_reliable: "reliable rt \<Longrightarrow> fst (handle_unsubscribe rt cx e f n w)"
  by (simp add: handle_unsubscribe_def Let_def case_prod_beta reply_reliable)

lemma hello_advances:
  assumes "shape n (cx_id cx) = Some (view cx)" and "cx' = cx \<and> n' = n
    \<or> steady n n' \<and> shape n' = peer_shape (cx_id cx) n \<and> is_peer cx'
       \<and> cx_id cx' = cx_id cx \<and> cx_principal cx' = cx_principal cx \<and> cx_outgoing_tx cx' = cx_outgoing_tx cx"
  shows "advances rt cx n cx' n'"
  using assms(2)
proof
  assume "cx' = cx \<and> n' = n"
  with keeps_advances [OF keeps_refl assms(1)] show ?thesis by simp
next
  assume "steady n n' \<and> shape n' = peer_shape (cx_id cx) n \<and> is_peer cx'
       \<and> cx_id cx' = cx_id cx \<and> cx_principal cx' = cx_principal cx \<and> cx_outgoing_tx cx' = cx_outgoing_tx cx"
  with assms(1) show ?thesis by (simp add: advances_def peer_shape_def view_def steady_def)
qed

lemma dispatch_advances:
  assumes "shape n (cx_id cx) = Some (view cx)" and "dispatch rt ops rnd e cx n w = Returns (ok, cx', n', w')"
  shows "advances rt cx n cx' n'"
proof -
  have reg: "map_of (nd_connections n) (cx_id cx) \<noteq> None" using assms(1) by (auto simp: shape_def)
  note kept = keeps_advances [OF _ assms(1)]
  show ?thesis
  proof (cases "env_kind e")
    case (Subscribe f ack grp durable)
    with assms(2) have "cx' = cx" "handle_subscribe rt cx e f ack grp durable n w = Returns (ok, n', w')"
      by (auto simp: dispatch_def split: outcome.splits)
    with kept [OF handle_subscribe_keeps [OF reg]] show ?thesis by metis
  next
    case (Unsubscribe f)
    with assms(2) have u: "cx' = cx" "handle_unsubscribe rt cx e f n w = (ok, n', w')"
      by (auto simp: dispatch_def split: prod.splits)
    have "ok" if "reliable rt" using handle_unsubscribe_reliable [OF that, of cx e f n w] u(2) by simp
    with handle_unsubscribe_effect [OF u(2)] assms(1) u(1) show ?thesis
      by (auto simp: advances_def covers_def keeps_def steady_def fun_upd_idem)
  next
    case (Publish t pl r ct rep inrep)
    with assms(2) have "cx' = cx" "handle_publish rt ops rnd cx e n w = Returns (ok, n', w')"
      by (auto simp: dispatch_def split: outcome.splits)
    with kept [OF handle_publish_keeps] show ?thesis by metis
  next
    case (Ack i)
    with assms(2) have "cx' = cx" "n' = handle_ack cx i n" by (auto simp: dispatch_def)
    then show ?thesis using kept keeps_fields [of n' n] by (simp add: handle_ack_def ack_subscriptions_fields)
  next
    case (Hello addr)
    with assms(2) have "handle_hello rt e addr cx n w = (ok, cx', n', w')" by (simp add: dispatch_def)
    from handle_hello_effect [OF this] show ?thesis by (intro hello_advances [OF assms(1)]) (auto simp: is_peer_def)
  next
    case (PeerAnnounce peers)
    with assms(2) have "cx' = cx" "learn_peers rt peers n w = (n', w')" by (auto simp: dispatch_def split: prod.splits)
    with kept [OF learn_peers_keeps] show ?thesis by metis
  qed (use assms(2) kept [OF keeps_refl] in \<open>auto simp: dispatch_def split: prod.splits\<close>)
qed

lemma event_advances:
  assumes "shape n (cx_id cx) = Some (view cx)" and "connection_event_step rt ops rnd c ev cx n w = Returns (ok, cx', n', w')"
  shows "advances rt cx n cx' n'"
proof (cases ev)
  case (FrameRead bytes)
  with assms(2) show ?thesis using dispatch_advances [OF assms(1)] keeps_advances [OF keeps_refl assms(1)]
    by (auto split: sum.splits)
qed (use assms(2) keeps_advances [OF keeps_refl assms(1)] in \<open>auto split: prod.splits\<close>)

section \<open>Runs\<close>

text \<open>
  The state of a run: the contexts of the open connections by id, the shared state and the outside world. A step is a
  whole handler. The ids of the registry are 64-bit counters; a connection opens only under an id that is not in use.
\<close>

type_synonym ('s, 'w) run_state = "(u64 \<rightharpoonup> connection) \<times> 's node \<times> 'w"

inductive node_step ::
  "('w, 'z) runtime_scheme \<Rightarrow> 's message_store \<Rightarrow> (real \<Rightarrow> real) \<Rightarrow> codec \<Rightarrow> ('s, 'w) run_state \<Rightarrow> ('s, 'w) run_state \<Rightarrow> bool"
  for rt ops rnd c where
  accepted: "connect fp tx d n = (cx, n') \<Longrightarrow> map_of (nd_connections n) (nd_next_id n) = None
    \<Longrightarrow> node_step rt ops rnd c (cs, n, w) (cs(cx_id cx \<mapsto> cx), n', w)"
| dialled: "connect fp tx d n = (cx, n1) \<Longrightarrow> map_of (nd_connections n) (nd_next_id n) = None
    \<Longrightarrow> admit_initial_peer rt info cx n1 w = (True, cx', n', w')
    \<Longrightarrow> node_step rt ops rnd c (cs, n, w) (cs(cx_id cx' \<mapsto> cx'), n', w')"
| refused: "connect fp tx d n = (cx, n1) \<Longrightarrow> map_of (nd_connections n) (nd_next_id n) = None
    \<Longrightarrow> admit_initial_peer rt info cx n1 w = (False, cx', n2, w')
    \<Longrightarrow> node_step rt ops rnd c (cs, n, w) (cs, drop_context cx' n2, w')"
| event: "cs i = Some cx \<Longrightarrow> connection_event_step rt ops rnd c ev cx n w = Returns (True, cx', n', w')
    \<Longrightarrow> node_step rt ops rnd c (cs, n, w) (cs(i \<mapsto> cx'), n', w')"
| closing: "cs i = Some cx \<Longrightarrow> connection_event_step rt ops rnd c ev cx n w = Returns (False, cx', n1, w1)
    \<Longrightarrow> connection_end rt cx' n1 w1 = (n', w') \<Longrightarrow> node_step rt ops rnd c (cs, n, w) (cs(i := None), n', w')"
| reload: "apply_reload rt a n w = (n', w') \<Longrightarrow> node_step rt ops rnd c (cs, n, w) (cs, n', w')"
| task: "task_step rt ops tev h n w = Returns (n', w') \<Longrightarrow> node_step rt ops rnd c (cs, n, w) (cs, n', w')"
| ttl: "ttl_sweep_once rt ops now ttl cfg (nd_broker n) (nd_metrics n) w = (b, m, w')
    \<Longrightarrow> node_step rt ops rnd c (cs, n, w) (cs, n\<lparr>nd_broker := b, nd_metrics := m\<rparr>, w')"
| work_queue: "work_queue_sweep_once rt ops cfg timeout mx (nd_broker n) (nd_metrics n) w = Returns (b, m, w')
    \<Longrightarrow> node_step rt ops rnd c (cs, n, w) (cs, n\<lparr>nd_broker := b, nd_metrics := m\<rparr>, w')"

definition contexts_ok :: "(u64 \<rightharpoonup> connection) \<Rightarrow> 's node \<Rightarrow> bool" where
  "contexts_ok cs n \<longleftrightarrow> shape n = (\<lambda>i. map_option view (cs i)) \<and> (\<forall>i cx. cs i = Some cx \<longrightarrow> cx_id cx = i)"

definition run_ok :: "('s, 'w) run_state \<Rightarrow> bool" where
  "run_ok = (\<lambda>(cs, n, _). contexts_ok cs n \<and> interest_ok n)"

lemma connect_effect:
  assumes "connect fp tx d n = (cx, n')" and "map_of (nd_connections n) (nd_next_id n) = None"
  shows "cx_id cx = nd_next_id n \<and> steady n n' \<and> shape n' = (shape n)(cx_id cx := Some (view cx)) \<and> forwarders_of (cx_id cx) n' = []"
proof -
  have "same_subs n n'" using assms by (auto simp: connect_def registry_register_def same_subs_def forwarders_of_def Let_def)
  moreover have "shape n' = (shape n)(cx_id cx := Some (view cx))"
    using assms by (auto simp: connect_def registry_register_def shape_def view_def is_peer_def fun_eq_iff Let_def)
  ultimately show ?thesis using assms by (auto simp: same_subs_steady connect_def registry_register_def forwarders_of_def Let_def)
qed

lemma task_step_keeps: "task_step rt ops ev h n w = Returns (n', w') \<Longrightarrow> keeps n n'"
  by (auto simp: task_step_def intro!: keeps_fields split: option.splits outcome.splits)

text \<open>What one step does to the excess of interest.\<close>

definition grows :: "bool \<Rightarrow> 's node \<Rightarrow> 's node \<Rightarrow> bool" where
  "grows exact n n' \<longleftrightarrow> interest_ok n' \<and> excess n \<le> excess n' \<and> (exact \<longrightarrow> excess n' = excess n)"

lemma steady_grows: "steady n n' \<Longrightarrow> interest_ok n \<Longrightarrow> grows x n n'"
  by (simp add: steady_def grows_def)

lemma grows_trans: "grows x n n1 \<Longrightarrow> grows x n1 n2 \<Longrightarrow> grows x n n2"
  by (auto simp: grows_def intro: order_trans)

lemma advances_grows: "advances rt cx n cx' n' \<Longrightarrow> interest_ok n \<Longrightarrow> grows (reliable rt) n n'"
  by (simp add: advances_def grows_def)

lemma contexts_ok_keeps: "contexts_ok cs n \<Longrightarrow> keeps n n' \<Longrightarrow> contexts_ok cs n'"
  by (simp add: contexts_ok_def keeps_def)

lemma contexts_ok_update:
  "contexts_ok cs n \<Longrightarrow> shape n' = (shape n)(i := map_option view x) \<Longrightarrow> (\<And>cx. x = Some cx \<Longrightarrow> cx_id cx = i) \<Longrightarrow> contexts_ok (cs(i := x)) n'"
  by (auto simp: contexts_ok_def fun_eq_iff)

lemma contexts_ok_shape: "contexts_ok cs n \<Longrightarrow> cs i = Some cx \<Longrightarrow> cx_id cx = i \<and> shape n (cx_id cx) = Some (view cx)"
  by (auto simp: contexts_ok_def)

lemma run_okI:
  assumes "contexts_ok cs' n'" and "grows (reliable rt) n n'"
  shows "run_ok (cs', n', w') \<and> grows (reliable rt) (fst (snd (cs, n, w))) (fst (snd (cs', n', w')))"
  using assms by (simp add: run_ok_def grows_def)

lemma run_ok_keeps:
  assumes "run_ok (cs, n, w)" and "keeps n n'"
  shows "run_ok (cs, n', w') \<and> grows (reliable rt) (fst (snd (cs, n, w))) (fst (snd (cs, n', w')))"
  using assms contexts_ok_keeps steady_grows by (intro run_okI) (auto simp: run_ok_def keeps_def)

lemma node_step_ok:
  assumes "node_step rt ops rnd c s s'" and "run_ok s"
  shows "run_ok s' \<and> grows (reliable rt) (fst (snd s)) (fst (snd s'))"
  using assms
proof induction
  case (accepted fp tx d n cx n' cs w)
  then have ok: "contexts_ok cs n" "interest_ok n" by (simp_all add: run_ok_def)
  note c = connect_effect [OF accepted(1,2)]
  show ?case
    by (rule run_okI) (use c contexts_ok_update [OF ok(1), of n' "cx_id cx" "Some cx"] steady_grows [OF _ ok(2)] in auto)
next
  case (dialled fp tx d n cx n1 info w cx' n' w' cs)
  then have ok: "contexts_ok cs n" "interest_ok n" by (simp_all add: run_ok_def)
  note c = connect_effect [OF dialled(1,2)]
  from admit_initial_peer_effect [OF dialled(3)] have a: "steady n1 n'" "shape n' = peer_shape (cx_id cx) n1" "is_peer cx'"
    "cx_id cx' = cx_id cx" "cx_principal cx' = cx_principal cx" "cx_outgoing_tx cx' = cx_outgoing_tx cx" by auto
  have "shape n' = (shape n)(cx_id cx' := Some (view cx'))" using a c by (simp add: peer_shape_def view_def)
  then have "contexts_ok (cs(cx_id cx' \<mapsto> cx')) n'" by (intro contexts_ok_update [OF ok(1)]) simp_all
  moreover have "steady n n'" using c a(1) steady_trans by blast
  ultimately show ?case by (intro run_okI) (simp_all add: steady_grows ok(2))
next
  case (refused fp tx d n cx n1 info w cx' n2 w' cs)
  then have ok: "contexts_ok cs n" "interest_ok n" by (simp_all add: run_ok_def)
  note c = connect_effect [OF refused(1,2)]
  from admit_initial_peer_effect [OF refused(3)] have a: "cx' = cx" "n2 = n1" by auto
  have "forwarders_of (cx_id cx) n1 = []" using c by blast
  from drop_context_steady [OF this] c have d: "steady n1 (drop_context cx n1)" "shape (drop_context cx n1) = (shape n)(cx_id cx := None)"
    by simp_all
  have "shape n (cx_id cx) = None" using c refused(2) by (simp add: shape_def)
  then have "shape (drop_context cx n1) = shape n" by (simp add: d(2) fun_upd_idem)
  moreover have "steady n (drop_context cx n1)" using c d(1) steady_trans by blast
  ultimately show ?case unfolding a by (intro run_ok_keeps [OF refused(4)]) (simp add: keeps_def)
next
  case (event cs i cx ev n w cx' n' w')
  then have ok: "contexts_ok cs n" "interest_ok n" by (simp_all add: run_ok_def)
  note s = contexts_ok_shape [OF ok(1) event(1)]
  note adv = event_advances [OF s [THEN conjunct2] event(2)]
  have "contexts_ok (cs(i \<mapsto> cx')) n'" using adv s by (intro contexts_ok_update [OF ok(1)]) (simp_all add: advances_def)
  then show ?case using advances_grows [OF adv ok(2)] by (intro run_okI)
next
  case (closing cs i cx ev n w cx' n1 w1 n' w')
  then have ok: "contexts_ok cs n" "interest_ok n" by (simp_all add: run_ok_def)
  note s = contexts_ok_shape [OF ok(1) closing(1)]
  note adv = event_advances [OF s [THEN conjunct2] closing(2)]
  have "map_of (nd_connections n1) (cx_id cx') \<noteq> None" using adv shape_registered [of n1 "cx_id cx'"] by (simp add: advances_def)
  from connection_end_steady [OF this closing(3)] have e: "steady n1 n'" "shape n' = (shape n)(i := None)"
    using adv s by (simp_all add: advances_def)
  have g: "grows (reliable rt) n n1" by (rule advances_grows [OF adv ok(2)])
  then have "grows (reliable rt) n1 n'" using steady_grows [OF e(1)] by (simp add: grows_def)
  moreover have "contexts_ok (cs(i := None)) n'" using e(2) by (intro contexts_ok_update [OF ok(1)]) simp_all
  ultimately show ?case using grows_trans [OF g] by (intro run_okI)
next
  case (reload a n w n' w' cs)
  then show ?case using apply_reload_effect [OF reload(1)] by (intro run_ok_keeps) simp_all
next
  case (task tev h n w n' w' cs)
  then show ?case using task_step_keeps [OF task(1)] by (intro run_ok_keeps)
next
  case (ttl now ttl cfg n w b m w' cs)
  then show ?case by (intro run_ok_keeps keeps_fields) simp_all
next
  case (work_queue cfg timeout mx n w b m w' cs)
  then show ?case by (intro run_ok_keeps keeps_fields) simp_all
qed

interpretation node_run: progress_machine "node_step rt ops rnd c" run_ok "\<lambda>s s'. grows (reliable rt) (fst (snd s)) (fst (snd s'))"
  for rt ops rnd c
proof unfold_locales
  fix s s' s''
  show "run_ok s \<Longrightarrow> grows (reliable rt) (fst (snd s)) (fst (snd s))"
    by (auto simp: grows_def run_ok_def split: prod.splits)
  show "grows (reliable rt) (fst (snd s)) (fst (snd s')) \<Longrightarrow> grows (reliable rt) (fst (snd s')) (fst (snd s''))
      \<Longrightarrow> grows (reliable rt) (fst (snd s)) (fst (snd s''))" by (rule grows_trans)
qed (blast dest: node_step_ok)+


definition example_subscribe :: envelope where
  "example_subscribe = \<lparr>env_version = 1, env_id = MessageId [7], env_sender = PeerId [2], env_kind = Subscribe (TopicFilter [97]) False None False\<rparr>"

definition example_node :: "sqlite_store node" where
  "example_node = node_new (PeerId [1]) None"

lemmas connection_defs = connect_def registry_register_def principal_from_fingerprint_def dispatch_def handle_subscribe_def
  may_subscribe_def filter_acl_permits_def subscribe_insert_def open_subscription_def spawn_task_def forwarders_of_def set_forwarders_def
  subscribe_settle_def subscribe_commit_def interest_subscribe_def interest_new_def reply_def envelope_new_def message_id_new_def
  authenticated_sender_def from_bytes_def node_new_def




section \<open>Where the bookkeeping goes wrong\<close>

text \<open>
  An \<open>Unsubscribe\<close> whose acknowledgement cannot be queued, because the writer has gone, ends the connection between the
  two halves of the removal: its subscription is out of the map, so closing does not find it, and its interest stays.
\<close>

theorem unsubscribe_leaks_interest:
  assumes "interest_ok n" and "excess n f = 0" and "subscribers f n = {cx_id cx}"
    and "\<not> fst (reply rt cx (Ack (env_id e)) n1 w)" and "remove_subscription cx f n = (had, n1)"
    and "handle_unsubscribe rt cx e f n w = (ok, n2, w2)" and "connection_end rt cx n2 w2 = (n3, w3)"
  shows "\<not> ok \<and> subscribers f n3 = {} \<and> interest_count (nd_interest n3) f = 1"
proof -
  have f: "f \<in> keys (forwarders_of (cx_id cx) n)" using assms(3) by (auto simp: subscribers_def)
  then have reg: "map_of (nd_connections n) (cx_id cx) \<noteq> None"
    by (cases "map_of (nd_connections n) (cx_id cx)") (simp_all add: forwarders_of_def keys_def)
  have h: "\<not> ok" "n2 = n1" using assms(4-6) by (auto simp: handle_unsubscribe_def split: prod.splits)
  from assms(5) f have rem: "had" "nd_interest n1 = nd_interest n"
    "nd_connections n1 = nd_connections (set_forwarders (cx_id cx) (AList.delete f (forwarders_of (cx_id cx) n)) n)"
    by (cases rule: remove_subscription_cases; auto simp: remove_subscription_def Let_def keys_dom split: option.splits)+
  from removed_excess [OF f assms(1) rem(2,3)] have ok1: "interest_ok n1" "excess n1 f = 1" using assms(2) by simp_all
  have "map_of (nd_connections n1) (cx_id cx) \<noteq> None" using reg rem(3) by simp
  from connection_end_steady [OF this assms(7) [unfolded h(2)]] ok1 have e: "interest_ok n3" "excess n3 f = 1" "shape n3 (cx_id cx) = None"
    by (auto simp: steady_def)
  have "forwarders_of j n3 = forwarders_of j n" if "j \<noteq> cx_id cx" for j
    using connection_end_others [OF assms(7) that] forwarders_of_conns [OF rem(3), of j] that h(2) by (simp add: forwarders_of_set_forwarders)
  then have "subscribers f n3 \<subseteq> {cx_id cx}" using assms(3) by (auto simp: subscribers_def)
  moreover have "forwarders_of (cx_id cx) n3 = []" using e(3) by (simp add: forwarders_of_def shape_def)
  then have "cx_id cx \<notin> subscribers f n3" by (simp add: subscribers_def keys_def)
  ultimately have "subscribers f n3 = {}" by auto
  then show ?thesis using e(2) h(1) by (simp add: excess_def)
qed

text \<open>A race of a reload with a subscription loses interest. The access lists are reloaded on another thread. When a reload
  that revokes a new subscription lands between its insertion and its recheck, the sweep of the reload finds the subscription and
  withdraws an interest that was not yet counted; the recheck then refuses without counting it either. Another
  connection that subscribes to the same filter, and keeps its subscription, is left without interest: the count
  is zero, so peers are told to stop sending.\<close>

theorem reload_race_loses_interest:
  assumes "interest_count (nd_interest n) f = 1" and "subscribers f n = {j}" and "j \<noteq> cx_id cx"
    and "\<forall>i. distinct (map fst (forwarders_of i n))" and "shape n (cx_id cx) = Some (view cx)"
    and "subscribe_insert cx f ack grp durable p n = Returns (True, n1)"
    and "\<not> may_subscribe cx f (install_acls a n1)"
    and "reconcile_connection rt (cx_id cx) (install_acls a n1) w = (n2, w2)"
    and "subscribe_settle rt cx e f True n2 w2 = (ok, n3, w3)"
  shows "subscribers f n3 = {j} \<and> interest_count (nd_interest n3) f = 0"
proof -
  let ?i = "cx_id cx" and ?n1 = "install_acls a n1"
  from assms(6) obtain sub n0 where new: "f \<notin> keys (forwarders_of ?i n)" "nd_interest n0 = nd_interest n" "nd_connections n0 = nd_connections n"
    "n1 = set_forwarders ?i (AList.update f sub (forwarders_of ?i n)) n0"
    by (cases rule: subscribe_insert_cases) auto
  have reg: "map_of (nd_connections n) ?i \<noteq> None" using assms(5) shape_registered [of n ?i] by simp
  have fw0: "forwarders_of i n0 = forwarders_of i n" for i using new(3) by (rule forwarders_of_conns)
  have i1: "nd_connections ?n1 = nd_connections n1" "nd_interest ?n1 = nd_interest n" by (simp_all add: install_acls_def new(2,4))
  have fw1: "forwarders_of i ?n1 = (if i = ?i then AList.update f sub (forwarders_of ?i n) else forwarders_of i n)" for i
    using forwarders_of_conns [OF i1(1)] reg new(3) by (simp add: new(4) forwarders_of_set_forwarders fw0)
  have sh1: "shape ?n1 = shape n" using shape_conns [OF i1(1)] shape_conns [OF new(3)] by (simp add: new(4))
  have den: "\<not> permitted ?n1 ?i f" using assms(5,7) by (simp add: permitted_def sh1 view_def may_subscribe_def)
  have "\<forall>j. forwarders_of j n2 = (if j = ?i then filter (\<lambda>(f, _). permitted ?n1 ?i f) (forwarders_of ?i ?n1) else forwarders_of j ?n1)"
    and acl: "nd_topic_acl n2 = nd_topic_acl ?n1" "nd_peer_topic_acl n2 = nd_peer_topic_acl ?n1"
    using reconcile_connection_effect [OF assms(8)] by simp_all
  then have fw2: "forwarders_of i n2 = (if i = ?i then filter (\<lambda>(f, _). permitted ?n1 ?i f) (AList.update f sub (forwarders_of ?i n)) else forwarders_of i n)" for i
    by (simp add: fw1)
  then have gone: "f \<notin> keys (forwarders_of ?i n2)" using den by (simp add: keys_filter)
  have cnt: "interest_count (nd_interest n2) f = 0"
  proof -
    obtain en where en: "map_of (nd_connections ?n1) ?i = Some en" using sh1 reg shape_registered [of ?n1 ?i] shape_registered [of n ?i] by auto
    let ?stopped = "filter (\<lambda>(f, _). \<not> entry_permits en ?n1 f) (ce_forwarders en)"
    have ce: "ce_forwarders en = AList.update f sub (forwarders_of ?i n)" using fw1 [of ?i] en by (simp add: forwarders_of_def)
    have "entry_permits en ?n1 f = permitted ?n1 ?i f" using en by (simp add: entry_permits_def permitted_def shape_def)
    then have "f \<in> keys ?stopped" using den by (simp add: keys_filter ce)
    moreover have "distinct (map fst ?stopped)" using assms(4) by (intro distinct_map_filter) (simp add: ce distinct_update)
    ultimately show ?thesis
      using assms(1,8) en stop_all_effect [of rt "ce_outgoing_tx en" ?stopped _ w n2 w2] i1(2)
      by (auto simp: reconcile_connection_def Let_def)
  qed
  have "\<not> may_subscribe cx f n2" using assms(7) acl by (simp add: may_subscribe_def)
  moreover have "remove_subscription cx f n2 = (False, n2)"
    using gone by (simp add: remove_subscription_def Let_def map_of_None_keys [THEN iffD2])
  ultimately have "subscribe_refuse rt cx e f n2 w2 = (ok, n3, w3)" using assms(9) by (simp add: subscribe_settle_def)
  then have "nd_interest n3 = nd_interest n2" "nd_connections n3 = nd_connections n2"
    by (auto simp: subscribe_refuse_def count_acl_rejection_def Let_def split: prod.splits)
  then show ?thesis
    using cnt gone assms(2,3) forwarders_of_conns [of n3 n2] by (auto simp: subscribers_def fw2 split: if_splits)
qed

theorem reload_race_loses_interest_witness:
  "\<exists>n :: sqlite_store node. \<exists>cx a n1 n2 w2 ok n3 w3. interest_count (nd_interest n) (TopicFilter [97]) = 1 \<and> subscribers (TopicFilter [97]) n = {1}
     \<and> subscribe_insert cx (TopicFilter [97]) False None False (PeerId [2]) n = Returns (True, n1)
     \<and> reconcile_connection world_rt (cx_id cx) (install_acls a n1) world0 = (n2, w2)
     \<and> subscribe_settle world_rt cx example_subscribe (TopicFilter [97]) True n2 w2 = (ok, n3, w3)
     \<and> subscribers (TopicFilter [97]) n3 = {1} \<and> interest_count (nd_interest n3) (TopicFilter [97]) = 0"
proof -
  let ?f = "TopicFilter [97]"
  let ?n = "example_node\<lparr>nd_interest := \<lparr>in_counts = [(?f, 1)]\<rparr>, nd_connections :=
      [(0, \<lparr>ce_forwarders = [], ce_principal = Anonymous, ce_is_peer = False, ce_outgoing_tx = 5\<rparr>),
       (1, \<lparr>ce_forwarders = [(?f, SForwarder 3 False)], ce_principal = Fingerprint [9], ce_is_peer = False, ce_outgoing_tx = 6\<rparr>)]\<rparr>"
  let ?cx = "\<lparr>cx_id = 0, cx_outgoing_tx = 5, cx_peer_identity = None, cx_peer_fingerprint = None, cx_principal = Anonymous, cx_link = None, cx_disconnect = 9\<rparr>"
  let ?a = "\<lparr>ra_topic_acl = Some \<lparr>acl_entries = {(Fingerprint [9], Topic [97], ASubscribe)}\<rparr>, ra_peer_topic_acl = None, ra_allow_peer = None,
      ra_peer_topic_filter = None\<rparr>"
  have cnt: "interest_count (nd_interest ?n) ?f = 1" by (simp add: interest_count_def)
  have sub: "subscribers ?f ?n = {1}" by (auto simp: subscribers_def forwarders_of_def keys_def split: if_splits)
  have dis: "\<forall>i. distinct (map fst (forwarders_of i ?n))" by (simp add: forwarders_of_def)
  have sh: "shape ?n (cx_id ?cx) = Some (view ?cx)" by (simp add: shape_def view_def is_peer_def)
  have lit: "as_topic ?f = Some (Topic [97])" by (simp add: as_topic_def is_literal_def wildcard_defs)
  have "\<exists>n1. subscribe_insert ?cx ?f False None False (PeerId [2]) ?n = Returns (True, n1)"
    by (simp add: subscribe_insert_def forwarders_of_def open_subscription_def spawn_task_def)
  then obtain n1 where ins: "subscribe_insert ?cx ?f False None False (PeerId [2]) ?n = Returns (True, n1)" by blast
  have den: "\<not> may_subscribe ?cx ?f (install_acls ?a n1)"
    by (simp add: may_subscribe_def filter_acl_permits_def install_acls_def is_peer_def lit acl_permits_def)
  obtain n2 w2 where rec: "reconcile_connection world_rt (cx_id ?cx) (install_acls ?a n1) world0 = (n2, w2)" by fastforce
  obtain ok n3 w3 where se: "subscribe_settle world_rt ?cx example_subscribe ?f True n2 w2 = (ok, n3, w3)" by (metis prod_cases3)
  have "(1 :: u64) \<noteq> cx_id ?cx" by simp
  from reload_race_loses_interest [OF cnt sub this dis sh ins den rec se]
  show ?thesis using cnt sub ins rec se by blast
qed

text \<open>
  A second \<open>Hello\<close> under another identity, which a connection without a certificate may send, overwrites the identity that
  closing will mark as disconnected: the first one stays reachable although no connection to it is left.
\<close>

lemma handle_hello_membership:
  assumes "handle_hello rt e addr cx n w = (True, cx', n', w')"
  shows "nd_membership n' = mark_connected (env_sender e) addr (nd_membership n) \<and> cx_peer_identity cx' = Some (env_sender e)"
  using assms by (auto simp: handle_hello_def hold_link_def register_peer_link_def set_is_peer_def Let_def
      split: prod.splits if_splits option.splits)

lemma stop_all_membership: "nd_membership (fst (stop_all rt tx subs n w)) = nd_membership n"
proof (induction rt tx subs n w rule: stop_all.induct)
  case (2 rt tx f sub subs n w)
  then show ?case by (cases sub) (simp_all add: case_prod_beta Let_def abort_task_def)
qed simp

theorem second_hello_leaves_stale_peer:
  assumes "handle_hello rt e1 a1 cx n w = (True, cx1, n1, w1)" and "handle_hello rt e2 a2 cx1 n1 w2 = (True, cx2, n2, w3)"
    and "connection_end rt cx2 n2 w4 = (n3, w5)" and "env_sender e1 \<noteq> env_sender e2" and "members_ok (nd_membership n)"
  shows "is_reachable (env_sender e1) (nd_membership n3)"
proof -
  note h1 = handle_hello_membership [OF assms(1)] and h2 = handle_hello_membership [OF assms(2)]
  have "nd_membership n3 = mark_disconnected (env_sender e2) (nd_membership n2)"
    using assms(3) h2 stop_all_membership [of rt "cx_outgoing_tx cx2" "forwarders_of (cx_id cx2) n2" "set_forwarders (cx_id cx2) [] n2" w4]
    by (auto simp: connection_end_def shut_down_def drop_context_def registry_unregister_def set_forwarders_def Let_def
        split: prod.splits option.splits)
  then have "Membership.connected (nd_membership n3) = insert (env_sender e2) (insert (env_sender e1) (Membership.connected (nd_membership n))) - {env_sender e2}"
    using h1 h2 assms(5) mark_disconnected_ok mark_connected_ok by metis
  with assms(4) show ?thesis by (auto simp: Membership.connected_def)
qed

section \<open>No panic\<close>

text \<open>
  Whatever a peer sends, handling it does not panic: the \<open>expect\<close> on a durable subscription's literal topic and the
  \<open>unreachable!\<close> of a publish are never reached.
\<close>

lemma handle_subscribe_returns: "handle_subscribe rt cx e f ack grp durable n w \<noteq> Panics"
proof (cases "durable \<and> as_topic f = None")
  case True
  then have "durable_rejection cx f ack grp n \<noteq> None" by (simp add: durable_rejection_def)
  then show ?thesis using True by (auto simp: handle_subscribe_def split: prod.splits)
next
  case False
  then have "subscribe_insert cx f ack grp durable p n \<noteq> Panics" for p
    by (auto simp: subscribe_insert_def open_subscription_def Let_def split: option.splits prod.splits)
  from this [of "env_sender e"] show ?thesis
    by (cases "if durable then durable_rejection cx f ack grp n else None")
      (auto simp: handle_subscribe_def Let_def split: outcome.splits prod.splits)
qed

theorem frames_never_panic: "connection_event_step rt ops rnd c ev cx n w \<noteq> Panics"
proof (cases ev)
  case (FrameRead bytes)
  have "dispatch rt ops rnd e cx n w \<noteq> Panics" for e
    using handle_subscribe_returns [of rt cx e _ _ _ _ n w]
    by (cases "env_kind e") (auto simp: dispatch_def handle_publish_def Let_def split: outcome.splits prod.splits if_splits)
  with FrameRead show ?thesis by (simp split: sum.split)
qed (auto split: prod.splits)

end
