(* ===== verification/Startup.thy ===== *)
theory Startup
  imports Connection
begin

text \<open>
  Starting a node on its message store (\<open>attach_store\<close> and \<open>rehydrate_from_store\<close> in
  crates/thoth-mesh-node/src/lib.rs): the broker is replaced by one that writes to the store, and its replay
  buffers and retained messages are refilled from it. The main result: after a restart a late subscriber gets the backlog
  it would have got before.
\<close>

section \<open>Operations\<close>

text \<open>\<open>opened\<close> is the result of opening the database in the data directory, when one is configured.\<close>

definition attach_store :: "'s io_result option \<Rightarrow> 's node \<Rightarrow> ('s option \<times> 's node) io_result" where
  "attach_store opened n =
     (case opened of
        None \<Rightarrow> Inr (None, n)
      | Some (Inl err) \<Rightarrow> Inl err
      | Some (Inr s) \<Rightarrow> Inr (Some s, n\<lparr>nd_broker := with_store s\<rparr>))"

fun rehydrate_buffers :: "('w, 'z) runtime_scheme \<Rightarrow> (topic \<times> envelope list) list \<Rightarrow> 's broker \<Rightarrow> 'w \<Rightarrow> 's broker \<times> 'w" where
  "rehydrate_buffers rt [] b w = (b, w)"
| "rehydrate_buffers rt ((t, es) # rest) b w = (let (b', w') = rehydrate_buffer rt t es b w in rehydrate_buffers rt rest b' w')"

fun rehydrate_all_retained :: "('w, 'z) runtime_scheme \<Rightarrow> (topic \<times> envelope) list \<Rightarrow> 's broker \<Rightarrow> 'w \<Rightarrow> 's broker \<times> 'w" where
  "rehydrate_all_retained rt [] b w = (b, w)"
| "rehydrate_all_retained rt ((t, e) # rest) b w =
     (let (b', w') = rehydrate_retained rt t e b w in rehydrate_all_retained rt rest b' w')"

definition rehydrate_from_store ::
  "('w, 'z) runtime_scheme \<Rightarrow> 's message_store \<Rightarrow> 's \<Rightarrow> 's broker \<Rightarrow> 'w \<Rightarrow> ('s broker \<times> 'w) io_result" where
  "rehydrate_from_store rt ops s b w =
     (case st_load_recent ops DEFAULT_REPLAY_BUFFER_CAPACITY s of
        Inl err \<Rightarrow> Inl err
      | Inr recent \<Rightarrow>
          (case st_load_retained ops s of
             Inl err \<Rightarrow> Inl err
           | Inr retained \<Rightarrow>
               (let (b1, w1) = rehydrate_buffers rt recent b w in Inr (rehydrate_all_retained rt retained b1 w1))))"

section \<open>What the channels hold\<close>

definition contents :: "'s broker \<Rightarrow> topic \<Rightarrow> envelope list \<times> envelope option" where
  "contents b t = (case channel_at t (br_topics b) (br_channels b) of
     None \<Rightarrow> ([], None) | Some ch \<Rightarrow> (tc_buffer ch, tc_retained ch))"

definition topics_of :: "'s broker \<Rightarrow> topic set" where
  "topics_of b = keys (tm_map (br_topics b))"

lemma card_topics_of: "broker_ok b \<Longrightarrow> card (topics_of b) = length (tm_map (br_topics b))"
  by (metis broker_ok_def distinct_card keys_def length_map list.set_map tm_ok_def topics_of_def)

lemma room:
  assumes "broker_ok b" and "card (insert t (topics_of b)) \<le> DEFAULT_TOPIC_MAP_CAPACITY"
  shows "t \<in> keys (tm_map (br_topics b)) \<or> length (tm_map (br_topics b)) < DEFAULT_TOPIC_MAP_CAPACITY"
  using assms card_topics_of [OF assms(1)] by (cases "t \<in> topics_of b") (auto simp: topics_of_def keys_def)

text \<open>Updating the channel that \<open>topic_channel_of\<close> returns.\<close>

lemma channel_update_contents:
  fixes g :: "topic_channel \<Rightarrow> topic_channel"
  assumes "broker_ok b" and "card (insert t (topics_of b)) \<le> DEFAULT_TOPIC_MAP_CAPACITY"
    and "topic_channel_of rt t b w = (a, b', w')"
  defines "b2 \<equiv> b'\<lparr>br_channels := (br_channels b')[a := g (br_channels b' ! a)]\<rparr>"
  shows "topics_of b2 = insert t (topics_of b)"
    and "contents b2 t = (tc_buffer (g (br_channels b' ! a)), tc_retained (g (br_channels b' ! a)))"
    and "(tc_buffer (br_channels b' ! a), tc_retained (br_channels b' ! a)) = contents b t"
    and "u \<noteq> t \<Longrightarrow> contents b2 u = contents b u"
proof -
  obtain tm h ev where goi: "get_or_insert rt t (br_topics b) (br_channels b) (br_topic_evictions b) w = (a, tm, h, ev, w')"
    and b': "b' = b\<lparr>br_topics := tm, br_channels := h, br_topic_evictions := ev\<rparr>"
    using assms(3) by (auto simp: topic_channel_of_def split: prod.splits)
  have ok: "tm_ok (br_channels b) (br_topics b)" using assms(1) by (simp add: broker_ok_def)
  have a: "a < length h" using tm_ok_get_or_insert(2) [OF ok goi] .
  have m: "map_of (tm_map tm) = (map_of (tm_map (br_topics b)))(t \<mapsto> a)"
    using get_or_insert_present [OF goi room [OF assms(1,2)]] .
  show "topics_of b2 = insert t (topics_of b)" by (simp add: topics_of_def b2_def b' keys_dom m)
  show "contents b2 t = (tc_buffer (g (br_channels b' ! a)), tc_retained (g (br_channels b' ! a)))"
    using a by (simp add: contents_def channel_at_def b2_def b' m)
  show "(tc_buffer (br_channels b' ! a), tc_retained (br_channels b' ! a)) = contents b t"
    using get_or_insert_fresh [OF ok goi] goi
    by (cases rule: get_or_insert_cases [OF goi]) (auto simp: contents_def channel_at_def b' channel_new_def split: prod.splits)
  show "contents b2 u = contents b u" if "u \<noteq> t"
  proof (cases "map_of (tm_map (br_topics b)) u")
    case (Some x)
    have x: "x < length (br_channels b)" using ok Some by (simp add: tm_ok_def)
    have "x \<noteq> a"
    proof
      assume "x = a"
      have "own_channels (br_topics b')" using topic_channel_of_ok(1) [OF assms(1,3)] by (simp add: broker_ok_def)
      then show False using that Some \<open>x = a\<close> by (auto simp: own_channels_def b' m)
    qed
    moreover have "h ! x = br_channels b ! x" using get_or_insert_heap [OF goi] x by (auto simp: nth_append)
    ultimately show ?thesis using that Some by (simp add: contents_def channel_at_def b2_def b' m)
  qed (use that in \<open>simp add: contents_def channel_at_def b2_def b' m\<close>)
qed

lemma rehydrate_buffer_contents:
  assumes "broker_ok b" and "card (insert t (topics_of b)) \<le> DEFAULT_TOPIC_MAP_CAPACITY" and "es \<noteq> []"
    and "rehydrate_buffer rt t es b w = (b', w')"
  shows "broker_ok b' \<and> topics_of b' = insert t (topics_of b)
    \<and> contents b' = (contents b)(t := (last_n DEFAULT_REPLAY_BUFFER_CAPACITY (fst (contents b t) @ es), snd (contents b t)))"
proof -
  obtain a b1 w1 where tc: "topic_channel_of rt t b w = (a, b1, w1)" by (metis prod_cases3)
  let ?g = "\<lambda>ch. ch\<lparr>tc_buffer := last_n DEFAULT_REPLAY_BUFFER_CAPACITY (tc_buffer ch @ es)\<rparr>"
  have "b' = b1\<lparr>br_channels := (br_channels b1)[a := ?g (br_channels b1 ! a)]\<rparr>"
    using assms(3,4) by (simp add: rehydrate_buffer_def tc Let_def)
  with channel_update_contents(1,2,4) [OF assms(1,2) tc, where g = ?g] channel_update_contents(3) [OF assms(1,2) tc] rehydrate_buffer_ok [OF assms(1), of rt t es w] assms(4) show ?thesis
    by (auto simp: fun_eq_iff) (metis fst_conv snd_conv)+
qed

lemma rehydrate_retained_contents:
  assumes "broker_ok b" and "card (insert t (topics_of b)) \<le> DEFAULT_TOPIC_MAP_CAPACITY"
    and "rehydrate_retained rt t e b w = (b', w')"
  shows "broker_ok b' \<and> topics_of b' = insert t (topics_of b) \<and> contents b' = (contents b)(t := (fst (contents b t), Some e))"
proof -
  obtain a b1 w1 where tc: "topic_channel_of rt t b w = (a, b1, w1)" by (metis prod_cases3)
  let ?g = "\<lambda>ch. ch\<lparr>tc_retained := Some e\<rparr>"
  have "b' = b1\<lparr>br_channels := (br_channels b1)[a := ?g (br_channels b1 ! a)]\<rparr>"
    using assms(3) by (simp add: rehydrate_retained_def tc)
  with channel_update_contents(1,2,4) [OF assms(1,2) tc, where g = ?g] channel_update_contents(3) [OF assms(1,2) tc] rehydrate_retained_ok [OF assms(1), of rt t e w] assms(3) show ?thesis
    by (auto simp: fun_eq_iff) (metis fst_conv)+
qed

lemma rehydrate_buffers_contents:
  assumes "broker_ok b" and "card (fst ` set xs \<union> topics_of b) \<le> DEFAULT_TOPIC_MAP_CAPACITY" and "finite (topics_of b)"
    and "distinct (map fst xs)" and "\<forall>(t, es) \<in> set xs. es \<noteq> []" and "rehydrate_buffers rt xs b w = (b', w')"
  shows "broker_ok b' \<and> topics_of b' = fst ` set xs \<union> topics_of b
    \<and> contents b' = (\<lambda>t. case map_of xs t of None \<Rightarrow> contents b t
        | Some es \<Rightarrow> (last_n DEFAULT_REPLAY_BUFFER_CAPACITY (fst (contents b t) @ es), snd (contents b t)))"
  using assms
proof (induction xs arbitrary: b w)
  case (Cons x xs)
  obtain t es where x: "x = (t, es)" by fastforce
  obtain b1 w1 where one: "rehydrate_buffer rt t es b w = (b1, w1)" by fastforce
  have "card (insert t (topics_of b)) \<le> card (fst ` set (x # xs) \<union> topics_of b)" using Cons.prems(3) by (intro card_mono) (auto simp: x)
  with Cons.prems(2) have "card (insert t (topics_of b)) \<le> DEFAULT_TOPIC_MAP_CAPACITY" by simp
  from rehydrate_buffer_contents [OF Cons.prems(1) this _ one] Cons.prems(5) have
    b1: "broker_ok b1" "topics_of b1 = insert t (topics_of b)"
      "contents b1 = (contents b)(t := (last_n DEFAULT_REPLAY_BUFFER_CAPACITY (fst (contents b t) @ es), snd (contents b t)))"
    by (auto simp: x)
  from Cons.prems(6) one have "rehydrate_buffers rt xs b1 w1 = (b', w')" by (simp add: x)
  with Cons.IH [OF b1(1), of w1] Cons.prems(2-5) have ih: "broker_ok b'" "topics_of b' = fst ` set xs \<union> topics_of b1"
      "contents b' = (\<lambda>t. case map_of xs t of None \<Rightarrow> contents b1 t
        | Some es \<Rightarrow> (last_n DEFAULT_REPLAY_BUFFER_CAPACITY (fst (contents b1 t) @ es), snd (contents b1 t)))"
    by (simp_all add: x b1(2))
  have "map_of xs t = None" using Cons.prems(4) by (simp add: x map_of_eq_None_iff)
  with ih b1(2,3) show ?case by (auto simp: x fun_eq_iff split: option.split)
qed (auto simp: fun_eq_iff)

lemma rehydrate_all_retained_contents:
  assumes "broker_ok b" and "card (fst ` set xs \<union> topics_of b) \<le> DEFAULT_TOPIC_MAP_CAPACITY" and "finite (topics_of b)"
    and "distinct (map fst xs)" and "rehydrate_all_retained rt xs b w = (b', w')"
  shows "broker_ok b' \<and> topics_of b' = fst ` set xs \<union> topics_of b
    \<and> contents b' = (\<lambda>t. case map_of xs t of None \<Rightarrow> contents b t | Some e \<Rightarrow> (fst (contents b t), Some e))"
  using assms
proof (induction xs arbitrary: b w)
  case (Cons x xs)
  obtain t e where x: "x = (t, e)" by fastforce
  obtain b1 w1 where one: "rehydrate_retained rt t e b w = (b1, w1)" by fastforce
  have "card (insert t (topics_of b)) \<le> card (fst ` set (x # xs) \<union> topics_of b)" using Cons.prems(3) by (intro card_mono) (auto simp: x)
  with Cons.prems(2) have "card (insert t (topics_of b)) \<le> DEFAULT_TOPIC_MAP_CAPACITY" by simp
  from rehydrate_retained_contents [OF Cons.prems(1) this one] have
    b1: "broker_ok b1" "topics_of b1 = insert t (topics_of b)" "contents b1 = (contents b)(t := (fst (contents b t), Some e))" by auto
  from Cons.prems(5) one have "rehydrate_all_retained rt xs b1 w1 = (b', w')" by (simp add: x)
  with Cons.IH [OF b1(1), of w1] Cons.prems(2-4) have ih: "broker_ok b'" "topics_of b' = fst ` set xs \<union> topics_of b1"
      "contents b' = (\<lambda>t. case map_of xs t of None \<Rightarrow> contents b1 t | Some e \<Rightarrow> (fst (contents b1 t), Some e))"
    by (simp_all add: x b1(2))
  have "map_of xs t = None" using Cons.prems(4) by (simp add: x map_of_eq_None_iff)
  with ih b1(2,3) show ?case by (auto simp: x fun_eq_iff split: option.split)
qed (auto simp: fun_eq_iff)

section \<open>Restarting on a store\<close>

text \<open>What a topic's channel holds after its messages were published.\<close>

definition published :: "topic \<Rightarrow> envelope list \<Rightarrow> (envelope \<times> bool) list" where
  "published t es = map (\<lambda>e. (e, publish_retain e)) (filter (\<lambda>e. publish_topic e = Some t) es)"

lemma published_snoc: "published t (es @ [e]) = published t es @ (if publish_topic e = Some t then [(e, publish_retain e)] else [])"
  by (simp add: published_def)

context durable_store
begin

lemma append_run_snoc: "append_run ops (es @ [e]) s = snd (st_append ops e (append_run ops es s))"
  by (induction es arbitrary: s) simp_all

lemma kept_after_run:
  assumes "ok s" and "\<And>e. e \<in> set es \<Longrightarrow> storable e \<and> is_publish e" and "kept s t = None"
  shows "kept (append_run ops es s) t = retained_spec (published t es)"
  using assms(2)
proof (induction es rule: rev_induct)
  case Nil
  then show ?case by (simp add: published_def retained_spec_def assms(3))
next
  case (snoc e es)
  let ?s = "append_run ops es s"
  from snoc.prems [of e] obtain u payload retain ct rt irt where kind: "env_kind e = Publish u payload retain ct rt irt" and e: "storable e"
    by (auto simp: is_publish_def split: message_kind.splits)
  have ok: "ok ?s" using append_run_ok [OF assms(1), of es t] snoc.prems by simp
  from append_law [OF ok e kind] have "kept (append_run ops (es @ [e]) s) = (if retain then (kept ?s)(u := if payload = [] then None else Some e) else kept ?s)"
    by (auto simp: append_run_snoc)
  with snoc kind show ?case
    by (simp add: published_snoc publish_topic_def publish_retain_def retained_spec_snoc)
qed

lemma rehydrates:
  assumes "ok s" and "finite {t. log s t \<noteq> [] \<or> kept s t \<noteq> None}"
    and "card {t. log s t \<noteq> [] \<or> kept s t \<noteq> None} \<le> DEFAULT_TOPIC_MAP_CAPACITY"
    and "broker_ok b0" and "topics_of b0 = {}"
  shows "\<exists>b w'. rehydrate_from_store rt ops s b0 w = Inr (b, w') \<and> broker_ok b
    \<and> contents b = (\<lambda>t. (last_n DEFAULT_REPLAY_BUFFER_CAPACITY (log s t), kept s t))"
proof -
  let ?T = "{t. log s t \<noteq> [] \<or> kept s t \<noteq> None}"
  obtain recent where rc: "st_load_recent ops DEFAULT_REPLAY_BUFFER_CAPACITY s = Inr recent" "distinct (map fst recent)"
    "\<And>t. map_of recent t = (if log s t = [] then None else Some (last_n DEFAULT_REPLAY_BUFFER_CAPACITY (log s t)))"
    using recent_law [OF assms(1) replay_capacity_pos] by blast
  obtain retained where rt: "st_load_retained ops s = Inr retained" "distinct (map fst retained)" "map_of retained = kept s"
    using retained_law [OF assms(1)] by blast
  have dom1: "fst ` set recent = {t. log s t \<noteq> []}" using rc(3) by (auto simp: dom_map_of_conv_image_fst [symmetric] dom_def)
  have dom2: "fst ` set retained = {t. kept s t \<noteq> None}" using rt(3) by (auto simp: dom_map_of_conv_image_fst [symmetric] dom_def)
  have fin: "finite (topics_of b0)" by (simp add: assms(5))
  have c0: "contents b0 = (\<lambda>_. ([], None))"
    using assms(5) by (auto simp: fun_eq_iff contents_def channel_at_def topics_of_def keys_dom dom_def split: option.splits)
  have ne: "\<forall>(t, es) \<in> set recent. es \<noteq> []"
  proof (intro ballI, clarsimp)
    fix t assume "(t, []) \<in> set recent"
    then have "map_of recent t = Some []" using rc(2) by simp
    then show False using rc(3) [of t] by (auto simp: last_n_Nil_iff [OF replay_capacity_pos] split: if_splits)
  qed
  obtain b1 w1 where s1: "rehydrate_buffers rt recent b0 w = (b1, w1)" by fastforce
  obtain b2 w2 where s2: "rehydrate_all_retained rt retained b1 w1 = (b2, w2)" by fastforce
  have "card (fst ` set recent \<union> topics_of b0) \<le> card ?T" using assms(2) by (intro card_mono) (auto simp: dom1 assms(5))
  with assms(3) have cap: "card (fst ` set recent \<union> topics_of b0) \<le> DEFAULT_TOPIC_MAP_CAPACITY" by simp
  note b1 = rehydrate_buffers_contents [OF assms(4) cap fin rc(2) ne s1]
  have t1: "topics_of b1 = {t. log s t \<noteq> []}" using b1 by (simp add: dom1 assms(5))
  have "card (fst ` set retained \<union> topics_of b1) \<le> card ?T" using assms(2) by (intro card_mono) (auto simp: dom2 t1)
  with assms(3) have cap2: "card (fst ` set retained \<union> topics_of b1) \<le> DEFAULT_TOPIC_MAP_CAPACITY" by simp
  have "finite (topics_of b1)" using assms(2) by (rule finite_subset [rotated]) (auto simp: t1)
  note b2 = rehydrate_all_retained_contents [OF b1 [THEN conjunct1] cap2 this rt(2) s2]
  have "contents b2 = (\<lambda>t. (last_n DEFAULT_REPLAY_BUFFER_CAPACITY (log s t), kept s t))"
    using b1 b2 rc(3) rt(3) by (auto simp: fun_eq_iff c0 last_n_last_n last_n_def split: option.splits)
  with b2 rc(1) rt(1) s1 s2 show ?thesis by (simp add: rehydrate_from_store_def)
qed

end

lemma sqlite_empty_kept: "sqlite_kept c sqlite_empty t = None"
  by (simp add: sqlite_kept_def sqlite_empty_def)

lemma sqlite_append_run: "append_run (sqlite_message_store env) es s = fold (\<lambda>e s. snd (sqlite_append env e s)) es s"
  by (induction es arbitrary: s) (simp_all add: sqlite_message_store_def split: prod.splits)

text \<open>C5. A restart is invisible to a later subscriber: after any sequence of messages was appended to the database, a node that
  starts on it and rehydrates holds, for every topic, exactly the replay buffer and the retained message that
  publishing those messages gave its channel before. (Assumes that the decoder undoes the encoder, that no SQL statement fails and
  that the messages are spread over at most 4096 topics.)\<close>

theorem restart_restores_channels:
  assumes "healthy env" and "\<And>e. e \<in> set es \<Longrightarrow> storable (se_codec env) e"
    and "card (publish_topic ` set es) \<le> DEFAULT_TOPIC_MAP_CAPACITY"
  defines "s \<equiv> fold (\<lambda>e s. snd (sqlite_append env e s)) es sqlite_empty"
  shows "\<exists>b w'. rehydrate_from_store rt (sqlite_message_store env) s (with_store s) w = Inr (b, w') \<and> broker_ok b
    \<and> contents b t = (let ch = channel_history (published t es) (fst (channel_new rt w0)) in (tc_buffer ch, tc_retained ch))"
proof -
  let ?c = "se_codec env"
  have run: "append_run (sqlite_message_store env) es sqlite_empty = s" by (simp add: s_def sqlite_append_run)
  have pub: "is_publish e" if "e \<in> set es" for e
    using assms(2) [OF that] by (auto simp: storable_def is_publish_def split: message_kind.splits)
  have hyp: "healthy env \<and> sqlite_ok ?c sqlite_empty" using assms(1) sqlite_empty_ok by blast
  have st: "\<And>e. e \<in> set es \<Longrightarrow> storable ?c e \<and> is_publish e" using assms(2) pub by blast
  have lg: "\<exists>n \<ge> DEFAULT_PERSISTED_MESSAGES_PER_TOPIC. sqlite_log ?c s u = last_n n (filter (\<lambda>e. publish_topic e = Some u) es)" for u
    using sqlite.append_run_ok [OF hyp, where es = es and t = u] st by (simp add: run sqlite_empty_ok)
  have ok: "healthy env \<and> sqlite_ok ?c s" using sqlite.append_run_ok [OF hyp, where es = es] st by (simp add: run)
  have kp: "sqlite_kept ?c s u = retained_spec (published u es)" for u
    using sqlite.kept_after_run [OF hyp _ sqlite_empty_kept, where es = es and t = u] st by (simp add: run)
  let ?T = "{t. sqlite_log ?c s t \<noteq> [] \<or> sqlite_kept ?c s t \<noteq> None}"
  have sub: "Some ` ?T \<subseteq> publish_topic ` set es"
  proof
    fix x assume "x \<in> Some ` ?T"
    then obtain u where u: "x = Some u" "sqlite_log ?c s u \<noteq> [] \<or> sqlite_kept ?c s u \<noteq> None" by blast
    then have "filter (\<lambda>e. publish_topic e = Some u) es \<noteq> []"
      using lg [of u] by (auto simp: kp published_def retained_spec_def last_n_def)
    then show "x \<in> publish_topic ` set es" using u(1) by (force simp: filter_empty_conv)
  qed
  have fin: "finite ?T" using finite_subset [OF sub] by (simp add: finite_image_iff)
  have "card ?T = card (Some ` ?T)" by (simp add: card_image)
  also have "\<dots> \<le> card (publish_topic ` set es)" using sub by (intro card_mono) simp_all
  finally have cap: "card ?T \<le> DEFAULT_TOPIC_MAP_CAPACITY" using assms(3) by simp
  have b0: "topics_of (with_store s) = {}" by (simp add: topics_of_def with_store_def broker_default_def topic_map_empty_def)
  from sqlite.rehydrates [OF ok fin cap broker_default_ok(2) b0, of rt w] obtain b w' where
    b: "rehydrate_from_store rt (sqlite_message_store env) s (with_store s) w = Inr (b, w')" "broker_ok b"
    "contents b t = (last_n DEFAULT_REPLAY_BUFFER_CAPACITY (sqlite_log ?c s t), sqlite_kept ?c s t)" by auto
  obtain n where n: "n \<ge> DEFAULT_PERSISTED_MESSAGES_PER_TOPIC" "sqlite_log ?c s t = last_n n (filter (\<lambda>e. publish_topic e = Some t) es)"
    using lg by blast
  have "min DEFAULT_REPLAY_BUFFER_CAPACITY n = DEFAULT_REPLAY_BUFFER_CAPACITY"
    using n(1) by (simp add: DEFAULT_REPLAY_BUFFER_CAPACITY_def DEFAULT_PERSISTED_MESSAGES_PER_TOPIC_def)
  moreover have "map fst (published t es) = filter (\<lambda>e. publish_topic e = Some t) es" by (simp add: published_def comp_def)
  moreover have "tc_buffer (fst (channel_new rt w0)) = [] \<and> tc_retained (fst (channel_new rt w0)) = None"
    by (simp add: channel_new_def split: prod.split)
  ultimately show ?thesis
    using b channel_history_state [of "fst (channel_new rt w0)" "published t es"] by (auto simp: n(2) kp last_n_last_n Let_def)
qed

theorem restart_restores_channels_witness:
  "\<exists>b w'. rehydrate_from_store world_rt (sqlite_message_store example_env)
       (fold (\<lambda>e s. snd (sqlite_append example_env e s)) [example_publish 1, example_publish 2] sqlite_empty)
       (with_store (fold (\<lambda>e s. snd (sqlite_append example_env e s)) [example_publish 1, example_publish 2] sqlite_empty)) world0 = Inr (b, w')
     \<and> contents b (Topic [97]) = ([example_publish 1, example_publish 2], None)"
proof -
  let ?es = "[example_publish 1, example_publish 2]"
  have st: "e \<in> set ?es \<Longrightarrow> storable (se_codec example_env) e" for e using example_storable by auto
  have pt: "publish_topic (example_publish k) = Some (Topic [97])" "publish_retain (example_publish k) = False" for k
    by (simp_all add: publish_topic_def publish_retain_def example_publish_def)
  have cap: "card (publish_topic ` set ?es) \<le> DEFAULT_TOPIC_MAP_CAPACITY" by (simp add: pt DEFAULT_TOPIC_MAP_CAPACITY_def)
  have ch: "tc_buffer (fst (channel_new world_rt world0)) = [] \<and> tc_retained (fst (channel_new world_rt world0)) = None"
    by (simp add: channel_new_def split: prod.split)
  have "published (Topic [97]) ?es = [(example_publish 1, False), (example_publish 2, False)]" by (simp add: published_def pt)
  with restart_restores_channels [OF example_env_healthy st cap, of world_rt world0 "Topic [97]" world0]
    channel_history_state [of "fst (channel_new world_rt world0)" "[(example_publish 1, False), (example_publish 2, False)]"] ch
  show ?thesis by (auto simp: Let_def last_n_def retained_spec_def DEFAULT_REPLAY_BUFFER_CAPACITY_def)
qed

end
