(* ===== verification/Peering.thy ===== *)
theory Peering
  imports Connection
begin

text \<open>
  Outbound connections (crates/thoth-mesh-node/src/peering.rs): the connecting phase of a dial, the retry loop with its
  delays, and the slots that bound how many dials are in their connecting phase at once. Durations are milliseconds. Connecting a socket is
  a parameter; when each attempt ends comes from outside.
\<close>

section \<open>Constants\<close>

definition INITIAL_BACKOFF :: nat where
  "INITIAL_BACKOFF = 500"

definition MAX_BACKOFF :: nat where
  "MAX_BACKOFF = 30 * 1000"

definition MIN_HEALTHY_DURATION :: nat where
  "MIN_HEALTHY_DURATION = 5 * 1000"

definition DIAL_TIMEOUT :: nat where
  "DIAL_TIMEOUT = 10 * 1000"

definition DEFAULT_MAX_CONCURRENT_DIALS :: nat where
  "DEFAULT_MAX_CONCURRENT_DIALS = 16"

lemmas dial_constants = INITIAL_BACKOFF_def MAX_BACKOFF_def MIN_HEALTHY_DURATION_def DIAL_TIMEOUT_def
  DEFAULT_MAX_CONCURRENT_DIALS_def

section \<open>The connecting phase\<close>

definition connect_and_handshake ::
  "('w, 'z) runtime_scheme \<Rightarrow> codec \<Rightarrow> ('tcp, 'srv, 'cli) maybe_tls_stream read_exact \<Rightarrow> ('tcp, 'srv, 'cli) maybe_tls_stream write_all
     \<Rightarrow> ('tcp, 'srv, 'cli, 'name) tls_lib \<Rightarrow> (rstr \<Rightarrow> io_error + 'tcp) \<Rightarrow> rstr \<Rightarrow> 's node \<Rightarrow> 'w
     \<Rightarrow> (peer_info \<times> ('tcp, 'srv, 'cli) maybe_tls_stream) option \<times> 'w" where
  "connect_and_handshake rt c rd wr lib tcp_connect addr n w =
     (case tcp_connect addr of
        Inl _ \<Rightarrow> (None, w)
      | Inr tcp \<Rightarrow>
          (case (case nd_tls_connector n of
                   Some connector \<Rightarrow> (case stream_connect lib connector tcp addr of Inl _ \<Rightarrow> None | Inr s \<Rightarrow> Some s)
                 | None \<Rightarrow> Some (Plain tcp)) of
             None \<Rightarrow> (None, w)
           | Some s \<Rightarrow>
               (case dial_handshake rt c rd wr (nd_node_id n) (nd_my_listen_addr n) s w of
                  (Inl _, w') \<Rightarrow> (None, w')
                | (Inr (info, s'), w') \<Rightarrow> (Some (info, s'), w'))))"

section \<open>The retry loop\<close>

definition next_backoff :: "nat \<Rightarrow> nat \<Rightarrow> nat" where
  "next_backoff previous connection_uptime =
     (if connection_uptime \<ge> MIN_HEALTHY_DURATION then INITIAL_BACKOFF else min (previous * 2) MAX_BACKOFF)"

text \<open>
  How one call of \<open>dial_peer\<close> goes: the time spent waiting for a slot, and then the failure of the connecting phase
  after a time, its timeout, or a link that was up for a time.
\<close>

datatype dial_result = Failed nat | TimedOut | Linked nat nat

record attempt =
  at_waited :: nat
  at_result :: dial_result

text \<open>What \<open>attempt_start.elapsed()\<close> measures: the whole call.\<close>

definition elapsed :: "attempt \<Rightarrow> nat" where
  "elapsed a = at_waited a + (case at_result a of Failed t \<Rightarrow> t | TimedOut \<Rightarrow> DIAL_TIMEOUT | Linked t up \<Rightarrow> t + up)"

text \<open>The delays that \<open>dial_peer_with_reconnect\<close> sleeps, one after each attempt.\<close>

fun reconnect_delays :: "nat \<Rightarrow> attempt list \<Rightarrow> nat list" where
  "reconnect_delays backoff [] = []"
| "reconnect_delays backoff (a # as) = (let backoff' = next_backoff backoff (elapsed a) in backoff' # reconnect_delays backoff' as)"

definition dial_peer_with_reconnect :: "attempt list \<Rightarrow> nat list" where
  "dial_peer_with_reconnect as = reconnect_delays INITIAL_BACKOFF as"

lemma next_backoff_bounds: "b \<in> {INITIAL_BACKOFF..MAX_BACKOFF} \<Longrightarrow> next_backoff b t \<in> {INITIAL_BACKOFF..MAX_BACKOFF}"
  by (auto simp: next_backoff_def dial_constants)

lemma reconnect_delays_bounds:
  "b \<in> {INITIAL_BACKOFF..MAX_BACKOFF} \<Longrightarrow> set (reconnect_delays b as) \<subseteq> {INITIAL_BACKOFF..MAX_BACKOFF}"
proof (induction as arbitrary: b)
  case (Cons a as)
  from Cons.IH [OF next_backoff_bounds [OF Cons.prems]] next_backoff_bounds [OF Cons.prems] show ?case
    by (simp add: Let_def)
qed simp

lemma length_reconnect_delays [simp]: "length (reconnect_delays b as) = length as"
  by (induction as arbitrary: b) (simp_all add: Let_def)

lemma reconnect_delays_append:
  "reconnect_delays b (as @ bs) = reconnect_delays b as @ reconnect_delays (last (b # reconnect_delays b as)) bs"
  by (induction as arbitrary: b) (simp_all add: Let_def)

lemma min_scaled:
  assumes "1 \<le> k"
  shows "min (min x m * k) m = min (x * k) (m :: nat)"
proof (cases "x \<le> m")
  case False
  then have "m \<le> m * k" "m \<le> x * k" using assms mult_le_mono [of m m 1 k] mult_le_mono [of m x 1 k] by auto
  with False show ?thesis by simp
qed simp

lemma reconnect_delays_short:
  assumes "\<forall>a \<in> set as. elapsed a < MIN_HEALTHY_DURATION" and "b \<le> MAX_BACKOFF" and "k < length as"
  shows "reconnect_delays b as ! k = min (b * 2 ^ Suc k) MAX_BACKOFF"
  using assms
proof (induction as arbitrary: b k)
  case (Cons a as)
  then have nb: "next_backoff b (elapsed a) = min (b * 2) MAX_BACKOFF" by (simp add: next_backoff_def)
  show ?case
  proof (cases k)
    case 0
    then show ?thesis by (simp add: nb Let_def)
  next
    case (Suc j)
    have "reconnect_delays (min (b * 2) MAX_BACKOFF) as ! j = min (min (b * 2) MAX_BACKOFF * 2 ^ Suc j) MAX_BACKOFF"
      using Cons.prems Suc by (intro Cons.IH) auto
    also have "\<dots> = min (b * 2 ^ Suc k) MAX_BACKOFF" by (simp add: min_scaled Suc mult.assoc)
    finally show ?thesis by (simp add: nb Suc Let_def)
  qed
qed simp

section \<open>The slots\<close>

text \<open>
  One task per address, configured or heard of. \<open>DWaiting\<close> waits for a slot, \<open>DConnecting\<close> holds one, \<open>DEstablished\<close> has given it
  back, \<open>DSleeping\<close> is between attempts; each carries the current delay of its loop.
\<close>

datatype dial_phase = DWaiting | DConnecting | DEstablished | DSleeping

record dial_task =
  dt_addr :: rstr
  dt_backoff :: nat
  dt_phase :: dial_phase

record dialer =
  dp_permits :: nat
  dp_tasks :: "dial_task list"

definition dialer_new :: dialer where
  "dialer_new = \<lparr>dp_permits = DEFAULT_MAX_CONCURRENT_DIALS, dp_tasks = []\<rparr>"

definition spawn_dial :: "rstr \<Rightarrow> dialer \<Rightarrow> dialer" where
  "spawn_dial addr d =
     d\<lparr>dp_tasks := dp_tasks d @ [\<lparr>dt_addr = addr, dt_backoff = INITIAL_BACKOFF, dt_phase = DWaiting\<rparr>]\<rparr>"

definition set_phase :: "nat \<Rightarrow> dial_phase \<Rightarrow> dialer \<Rightarrow> dialer" where
  "set_phase i p d = d\<lparr>dp_tasks := (dp_tasks d)[i := (dp_tasks d ! i)\<lparr>dt_phase := p\<rparr>]\<rparr>"

text \<open>\<open>acquire_owned\<close>, the release of the slot, and the end of an attempt.\<close>

definition acquire :: "nat \<Rightarrow> dialer \<Rightarrow> dialer" where
  "acquire i d = set_phase i DConnecting (d\<lparr>dp_permits := dp_permits d - 1\<rparr>)"

definition release :: "dialer \<Rightarrow> dialer" where
  "release d = d\<lparr>dp_permits := dp_permits d + 1\<rparr>"

definition attempt_ends :: "nat \<Rightarrow> nat \<Rightarrow> dialer \<Rightarrow> dialer" where
  "attempt_ends i t d =
     (let tk = dp_tasks d ! i
      in d\<lparr>dp_tasks := (dp_tasks d)[i := tk\<lparr>dt_backoff := next_backoff (dt_backoff tk) t, dt_phase := DSleeping\<rparr>]\<rparr>)"

definition in_phase :: "nat \<Rightarrow> dial_phase \<Rightarrow> dialer \<Rightarrow> bool" where
  "in_phase i p d \<longleftrightarrow> i < length (dp_tasks d) \<and> dt_phase (dp_tasks d ! i) = p"

inductive dial_step :: "dialer \<Rightarrow> dialer \<Rightarrow> bool" where
  spawn: "dial_step d (spawn_dial addr d)"
| acquired: "in_phase i DWaiting d \<Longrightarrow> dp_permits d > 0 \<Longrightarrow> dial_step d (acquire i d)"
| gave_up: "in_phase i DConnecting d \<Longrightarrow> dial_step d (attempt_ends i t (release d))"
| established: "in_phase i DConnecting d \<Longrightarrow> dial_step d (set_phase i DEstablished (release d))"
| link_down: "in_phase i DEstablished d \<Longrightarrow> dial_step d (attempt_ends i t d)"
| woke: "in_phase i DSleeping d \<Longrightarrow> dial_step d (set_phase i DWaiting d)"

definition connecting :: "dialer \<Rightarrow> nat" where
  "connecting d = length (filter (\<lambda>t. dt_phase t = DConnecting) (dp_tasks d))"

definition dialer_ok :: "dialer \<Rightarrow> bool" where
  "dialer_ok d \<longleftrightarrow> dp_permits d + connecting d = DEFAULT_MAX_CONCURRENT_DIALS
     \<and> (\<forall>t \<in> set (dp_tasks d). dt_backoff t \<in> {INITIAL_BACKOFF..MAX_BACKOFF})"

lemma length_filter_update:
  "i < length xs \<Longrightarrow>
   length (filter P (xs[i := y])) + (if P (xs ! i) then 1 else 0) = length (filter P xs) + (if P y then 1 else 0)"
proof (induction xs arbitrary: i)
  case (Cons x xs)
  then show ?case by (cases i) auto
qed simp

lemma connecting_update:
  assumes "in_phase i p d"
  shows "connecting (d\<lparr>dp_tasks := (dp_tasks d)[i := tk]\<rparr>) + (if p = DConnecting then 1 else 0)
    = connecting d + (if dt_phase tk = DConnecting then 1 else 0)"
  using assms length_filter_update [of i "dp_tasks d" "\<lambda>t. dt_phase t = DConnecting" tk]
  by (simp add: connecting_def in_phase_def)

lemma dialer_ok_new: "dialer_ok dialer_new"
  by (simp add: dialer_ok_def dialer_new_def connecting_def)

lemma dialer_ok_update:
  assumes "dialer_ok d" and "in_phase i p d" and "dt_backoff tk \<in> {INITIAL_BACKOFF..MAX_BACKOFF}"
    and "q + (if dt_phase tk = DConnecting then 1 else 0) = dp_permits d + (if p = DConnecting then 1 else 0)"
  shows "dialer_ok (d\<lparr>dp_permits := q, dp_tasks := (dp_tasks d)[i := tk]\<rparr>)"
  using assms connecting_update [OF assms(2), of tk] set_update_subset_insert [of "dp_tasks d" i tk]
  by (fastforce simp: dialer_ok_def connecting_def)

lemma backoff_ok: "dialer_ok d \<Longrightarrow> in_phase i p d \<Longrightarrow> dt_backoff (dp_tasks d ! i) \<in> {INITIAL_BACKOFF..MAX_BACKOFF}"
  by (auto simp: dialer_ok_def in_phase_def)

lemma dial_step_ok:
  assumes "dial_step d d'" and "dialer_ok d"
  shows "dialer_ok d'"
  using assms
proof cases
  case (spawn addr)
  then show ?thesis using assms(2) by (auto simp: dialer_ok_def connecting_def spawn_dial_def dial_constants)
next
  case (acquired i)
  from dialer_ok_update [OF assms(2) acquired(2), of "(dp_tasks d ! i)\<lparr>dt_phase := DConnecting\<rparr>" "dp_permits d - 1"]
  show ?thesis using acquired backoff_ok [OF assms(2) acquired(2)] by (simp add: acquire_def set_phase_def)
next
  case (gave_up i t)
  let ?tk = "dp_tasks d ! i"
  from dialer_ok_update [OF assms(2) gave_up(2),
      of "?tk\<lparr>dt_backoff := next_backoff (dt_backoff ?tk) t, dt_phase := DSleeping\<rparr>" "dp_permits d + 1"]
  show ?thesis using gave_up next_backoff_bounds [OF backoff_ok [OF assms(2) gave_up(2)]]
    by (simp add: attempt_ends_def release_def Let_def)
next
  case (established i)
  from dialer_ok_update [OF assms(2) established(2), of "(dp_tasks d ! i)\<lparr>dt_phase := DEstablished\<rparr>" "dp_permits d + 1"]
  show ?thesis using established backoff_ok [OF assms(2) established(2)] by (simp add: release_def set_phase_def)
next
  case (link_down i t)
  let ?tk = "dp_tasks d ! i"
  from dialer_ok_update [OF assms(2) link_down(2),
      of "?tk\<lparr>dt_backoff := next_backoff (dt_backoff ?tk) t, dt_phase := DSleeping\<rparr>" "dp_permits d"]
  show ?thesis using link_down next_backoff_bounds [OF backoff_ok [OF assms(2) link_down(2)]]
    by (simp add: attempt_ends_def Let_def)
next
  case (woke i)
  from dialer_ok_update [OF assms(2) woke(2), of "(dp_tasks d ! i)\<lparr>dt_phase := DWaiting\<rparr>" "dp_permits d"]
  show ?thesis using woke backoff_ok [OF assms(2) woke(2)] by (simp add: set_phase_def)
qed

interpretation dialling: invariant_machine dial_step dialer_ok
  by unfold_locales (rule dial_step_ok)

section \<open>Properties\<close>

text \<open>C32. The dial slots are neither lost nor oversold: however the dial loops of a node interleave, the free slots and the dials in
  their connecting phase are sixteen together, established links hold none, and every loop's delay stays between half a second and thirty
  seconds.\<close>

theorem dial_slots_bounded:
  assumes "dial_step\<^sup>*\<^sup>* dialer_new d"
  shows "dp_permits d + connecting d = 16 \<and> (\<forall>t \<in> set (dp_tasks d). 500 \<le> dt_backoff t \<and> dt_backoff t \<le> 30000)"
proof -
  have "dialer_ok d" by (rule dialling.run_inv [OF assms dialer_ok_new])
  then show ?thesis by (simp add: dialer_ok_def dial_constants)
qed

theorem dial_slots_bounded_witness:
  "\<exists>d. dial_step\<^sup>*\<^sup>* dialer_new d \<and> connecting d = 1 \<and> dp_permits d = 15"
proof -
  let ?d1 = "spawn_dial (str ''a'') dialer_new"
  have s1: "dial_step dialer_new ?d1" by (rule dial_step.spawn)
  have s2: "dial_step ?d1 (acquire 0 ?d1)"
    by (rule dial_step.acquired) (simp_all add: in_phase_def spawn_dial_def dialer_new_def dial_constants)
  from s1 s2 have run: "dial_step\<^sup>*\<^sup>* dialer_new (acquire 0 ?d1)" by (meson rtranclp.rtrancl_into_rtrancl rtranclp.rtrancl_refl)
  have "connecting (acquire 0 ?d1) = 1"
    by (simp add: connecting_def acquire_def set_phase_def spawn_dial_def dialer_new_def)
  with dial_slots_bounded [OF run] run show ?thesis by (intro exI [of _ "acquire 0 ?d1"]) simp
qed

text \<open>The delays of a retry loop. Every delay is at least half a second and at most thirty seconds; after an attempt that took less than five
  seconds the delay doubles up to that bound, so \<open>k\<close> short attempts in a row from the start give \<open>500 \<sqdot> 2\<^sup>k\<close> milliseconds, capped;
  an attempt that took at least five seconds sets the delay back to half a second.\<close>

theorem reconnect_delays_exact:
  shows "set (dial_peer_with_reconnect as) \<subseteq> {500..30000} \<and> length (dial_peer_with_reconnect as) = length as
    \<and> (\<forall>k < length as. (\<forall>a \<in> set (take (Suc k) as). elapsed a < 5000) \<longrightarrow> dial_peer_with_reconnect as ! k = min (500 * 2 ^ Suc k) 30000)
    \<and> (\<forall>k < length as. elapsed (as ! k) \<ge> 5000 \<longrightarrow> dial_peer_with_reconnect as ! k = 500)"
proof -
  have b: "INITIAL_BACKOFF \<in> {INITIAL_BACKOFF..MAX_BACKOFF}" by (simp add: dial_constants)
  have "dial_peer_with_reconnect as ! k = min (500 * 2 ^ Suc k) 30000"
    if k: "k < length as" and short: "\<forall>a \<in> set (take (Suc k) as). elapsed a < 5000" for k
  proof -
    have "reconnect_delays INITIAL_BACKOFF (take (Suc k) as @ drop (Suc k) as) ! k = reconnect_delays INITIAL_BACKOFF (take (Suc k) as) ! k"
      using k by (simp only: reconnect_delays_append) (simp add: nth_append)
    also have "\<dots> = min (INITIAL_BACKOFF * 2 ^ Suc k) MAX_BACKOFF"
      using k short by (intro reconnect_delays_short) (simp_all add: dial_constants)
    finally show ?thesis by (simp add: dial_peer_with_reconnect_def dial_constants)
  qed
  moreover have "dial_peer_with_reconnect as ! k = 500" if k: "k < length as" and long: "elapsed (as ! k) \<ge> 5000" for k
  proof -
    have "reconnect_delays INITIAL_BACKOFF (take k as @ as ! k # drop (Suc k) as) ! k = 500"
      using k long by (simp only: reconnect_delays_append) (simp add: nth_append Let_def next_backoff_def dial_constants)
    then show ?thesis using k by (simp add: dial_peer_with_reconnect_def id_take_nth_drop [symmetric])
  qed
  ultimately show ?thesis using reconnect_delays_bounds [OF b, of as] by (simp add: dial_peer_with_reconnect_def dial_constants)
qed

theorem reconnect_delays_exact_witness:
  "dial_peer_with_reconnect (replicate 7 \<lparr>at_waited = 0, at_result = Failed 1\<rparr>) ! 6 = 30000
   \<and> dial_peer_with_reconnect (replicate 7 \<lparr>at_waited = 0, at_result = Failed 1\<rparr>) ! 0 = 1000"
  using reconnect_delays_exact [of "replicate 7 \<lparr>at_waited = 0, at_result = Failed 1\<rparr>"]
  by (auto simp: elapsed_def dest!: spec [of _ 0] spec [of _ 6])

text \<open>A stalled peer is never backed off. A dial that times out has taken ten seconds, more than the five that count as a healthy link: the delay goes
  back to half a second after every timeout, and stays there however many attempts time out. The same holds for any failure of a dial that waited five seconds for a slot.\<close>

theorem stalled_peer_never_backs_off:
  assumes "\<forall>a \<in> set as. at_result a = TimedOut \<or> at_waited a \<ge> MIN_HEALTHY_DURATION"
  shows "dial_peer_with_reconnect as = replicate (length as) INITIAL_BACKOFF"
proof -
  have "reconnect_delays b as = replicate (length as) INITIAL_BACKOFF" for b
    using assms by (induction as arbitrary: b) (auto simp: Let_def next_backoff_def elapsed_def dial_constants split: dial_result.splits)
  then show ?thesis by (simp add: dial_peer_with_reconnect_def)
qed

theorem stalled_peer_never_backs_off_witness:
  "dial_peer_with_reconnect (replicate 4 \<lparr>at_waited = 0, at_result = TimedOut\<rparr>) = [500, 500, 500, 500]"
  using stalled_peer_never_backs_off [of "replicate 4 \<lparr>at_waited = 0, at_result = TimedOut\<rparr>"]
  by (simp add: INITIAL_BACKOFF_def numeral_eq_Suc)

end
