(* ===== verification/Entry_Points.thy ===== *)
theory Entry_Points
  imports Node_Runs Startup Peering
begin

text \<open>
  The entry points of the node library (crates/thoth-mesh-node/src/lib.rs): \<open>run_with_tls\<close>, \<open>serve_with_tls\<close> and \<open>spawn_with_tls\<close>
  with their plain variants, the background tasks they spawn, and the accept loop. Binding a socket and opening the database
  are parameters. A spawned task is a value that says what it runs; the steps it takes are those of \<open>node_step\<close> and \<open>dial_step\<close>.
\<close>

section \<open>Options and background tasks\<close>

text \<open>\<open>no_reload\<close>: a channel for reloaded access lists is given. The TTL is in seconds.\<close>

record node_options =
  no_tls :: "tls_config option"
  no_topic_acl :: "topic_acl option"
  no_peer_topic_acl :: "topic_acl option"
  no_peer_topic_filter :: "peer_topic_filter option"
  no_data_dir :: "path option"
  no_persisted_message_ttl :: "u64 option"
  no_dead_letter_topic :: "topic option"
  no_rate_limit :: "rate_limit_config option"
  no_reload :: bool

definition node_options_default :: node_options where
  "node_options_default = \<lparr>no_tls = None, no_topic_acl = None, no_peer_topic_acl = None, no_peer_topic_filter = None,
     no_data_dir = None, no_persisted_message_ttl = None, no_dead_letter_topic = None, no_rate_limit = None, no_reload = False\<rparr>"

datatype 's background =
    RunRehydrate 's
  | RunTtlSweep u64 dead_letter_config nat
  | RunWorkQueue dead_letter_config nat u32 nat
  | RunDiscoveryDialer
  | RunReloadApplier
  | RunMetricsEndpoint rstr "rstr option"
  | RunDial rstr

definition ttl_spawn :: "u64 \<Rightarrow> dead_letter_config \<Rightarrow> 's background" where
  "ttl_spawn ttl cfg = RunTtlSweep ttl cfg SWEEP_INTERVAL"

definition maybe_spawn_ttl_sweeper :: "'s option \<Rightarrow> u64 option \<Rightarrow> dead_letter_config \<Rightarrow> 's background list" where
  "maybe_spawn_ttl_sweeper store ttl cfg =
     (case (store, ttl) of (Some _, Some t) \<Rightarrow> [ttl_spawn t cfg] | _ \<Rightarrow> [])"

definition work_queue_spawn :: "dead_letter_config \<Rightarrow> 's background" where
  "work_queue_spawn cfg =
     RunWorkQueue cfg DEFAULT_ACK_TIMEOUT DEFAULT_MAX_REDELIVERY_ATTEMPTS (sweep_interval DEFAULT_ACK_TIMEOUT)"

definition spawn_reload_applier :: "bool \<Rightarrow> 's background list" where
  "spawn_reload_applier reload = (if reload then [RunReloadApplier] else [])"

definition spawn_seed_peers :: "rstr list \<Rightarrow> 's background list" where
  "spawn_seed_peers seeds = map RunDial seeds"

section \<open>Setting up\<close>

datatype start_error = StartIo io_error | StartTls tls_build_error

definition install_options ::
  "('w, 'z) runtime_scheme \<Rightarrow> ('tcp, 'srv, 'cli, 'name) tls_lib \<Rightarrow> node_options \<Rightarrow> 's node \<Rightarrow> start_error + 's node" where
  "install_options rt lib opts n =
     and_then (case no_tls opts of
                 None \<Rightarrow> Inr n
               | Some tls \<Rightarrow>
                   and_then (map_err StartTls (tls_config_build lib tls)) (\<lambda>(acceptor, connector, own_fingerprint).
                     Inr (n\<lparr>nd_tls_acceptor := Some acceptor, nd_tls_connector := Some connector,
                            nd_allowed_peers := tls_allowed_peers tls,
                            nd_node_id := peer_id_from_fingerprint rt own_fingerprint\<rparr>)))
       (\<lambda>n1. Inr (n1\<lparr>nd_topic_acl := no_topic_acl opts, nd_peer_topic_acl := no_peer_topic_acl opts,
                     nd_peer_topic_filter := no_peer_topic_filter opts, nd_dead_letter_topic := no_dead_letter_topic opts,
                     nd_rate_limiter := map_option rate_limiter_new (no_rate_limit opts)\<rparr>))"

text \<open>The statements that the three entry points share, up to the limiter: the node, and the store if there is one.\<close>

definition build_shared ::
  "('w, 'z) runtime_scheme \<Rightarrow> ('tcp, 'srv, 'cli, 'name) tls_lib \<Rightarrow> (path \<Rightarrow> 's io_result) \<Rightarrow> rstr option \<Rightarrow> node_options \<Rightarrow> 'w
     \<Rightarrow> start_error + ('s option \<times> 's node \<times> 'w)" where
  "build_shared rt lib open_store my_listen_addr opts w =
     (let (node_id, w1) = peer_id_new rt w in
      and_then (map_err StartIo (attach_store (map_option open_store (no_data_dir opts)) (node_new node_id my_listen_addr))) (\<lambda>(store, n1).
      and_then (install_options rt lib opts n1) (\<lambda>n2. Inr (store, n2, w1))))"

definition ready :: "'s node \<Rightarrow> 's node" where
  "ready n = n\<lparr>nd_readiness := mark_ready (nd_readiness n)\<rparr>"

definition rehydrate_node ::
  "('w, 'z) runtime_scheme \<Rightarrow> 's message_store \<Rightarrow> 's option \<Rightarrow> 's node \<Rightarrow> 'w \<Rightarrow> start_error + ('s node \<times> 'w)" where
  "rehydrate_node rt ops store n w =
     (case store of
        None \<Rightarrow> Inr (n, w)
      | Some s \<Rightarrow>
          and_then (map_err StartIo (rehydrate_from_store rt ops s (nd_broker n) w)) (\<lambda>(b, w'). Inr (n\<lparr>nd_broker := b\<rparr>, w')))"

text \<open>The sweeps, the dialler of discovered peers and the applier of reloads.\<close>

definition common_tasks :: "'s option \<Rightarrow> node_options \<Rightarrow> 's node \<Rightarrow> 's background list" where
  "common_tasks store opts n =
     (let cfg = \<lparr>dl_node_id = nd_node_id n, dl_topic = no_dead_letter_topic opts\<rparr>
      in maybe_spawn_ttl_sweeper store (no_persisted_message_ttl opts) cfg @ [work_queue_spawn cfg, RunDiscoveryDialer]
           @ spawn_reload_applier (no_reload opts))"

definition serve_with_tls ::
  "('w, 'z) runtime_scheme \<Rightarrow> 's message_store \<Rightarrow> ('tcp, 'srv, 'cli, 'name) tls_lib \<Rightarrow> (path \<Rightarrow> 's io_result) \<Rightarrow> rstr option
     \<Rightarrow> rstr list \<Rightarrow> node_options \<Rightarrow> 'w \<Rightarrow> start_error + ('s node \<times> 's background list \<times> 'w)" where
  "serve_with_tls rt ops lib open_store my_listen_addr seeds opts w =
     and_then (build_shared rt lib open_store my_listen_addr opts w) (\<lambda>(store, n, w1).
     and_then (rehydrate_node rt ops store n w1) (\<lambda>(n1, w2).
       Inr (ready n1, common_tasks store opts n1 @ spawn_seed_peers seeds, w2)))"

text \<open>
  Sockets: \<open>TcpListener::bind\<close>, and the textual local address, if it has one. \<open>run_with_tls\<close> binds the listener first and the
  metrics port last.
\<close>

record 'l listener_env =
  le_bind :: "rstr \<Rightarrow> 'l io_result"
  le_local_addr :: "'l \<Rightarrow> rstr option"

definition metrics_task :: "'l listener_env \<Rightarrow> rstr option \<Rightarrow> rstr option \<Rightarrow> start_error + 's background list" where
  "metrics_task le metrics_addr token =
     (case metrics_addr of
        None \<Rightarrow> Inr []
      | Some addr \<Rightarrow> and_then (map_err StartIo (le_bind le addr)) (\<lambda>_. Inr [RunMetricsEndpoint addr token]))"

definition run_with_tls ::
  "('w, 'z) runtime_scheme \<Rightarrow> 's message_store \<Rightarrow> ('tcp, 'srv, 'cli, 'name) tls_lib \<Rightarrow> (path \<Rightarrow> 's io_result) \<Rightarrow> 'l listener_env
     \<Rightarrow> rstr \<Rightarrow> rstr list \<Rightarrow> rstr option \<Rightarrow> node_options \<Rightarrow> rstr option \<Rightarrow> 'w \<Rightarrow> start_error + ('l \<times> 's node \<times> 's background list \<times> 'w)" where
  "run_with_tls rt ops lib open_store le addr seeds metrics_addr opts token w =
     and_then (map_err StartIo (le_bind le addr)) (\<lambda>listener.
     and_then (build_shared rt lib open_store (le_local_addr le listener) opts w) (\<lambda>(store, n, w1).
     and_then (rehydrate_node rt ops store n w1) (\<lambda>(n1, w2).
     and_then (metrics_task le metrics_addr token) (\<lambda>metrics.
       Inr (listener, ready n1, common_tasks store opts n1 @ metrics @ spawn_seed_peers seeds, w2)))))"

text \<open>
  \<open>spawn_with_tls\<close> does not wait for the rehydration: a task does it, and marks the node ready after the attempt, whatever its result. The
  result stands for the handles of \<open>Node\<close>, of which \<open>id\<close> is that of the node.
\<close>

definition spawn_with_tls ::
  "('w, 'z) runtime_scheme \<Rightarrow> ('tcp, 'srv, 'cli, 'name) tls_lib \<Rightarrow> (path \<Rightarrow> 's io_result) \<Rightarrow> rstr option
     \<Rightarrow> rstr list \<Rightarrow> node_options \<Rightarrow> 'w \<Rightarrow> start_error + ('s node \<times> 's background list \<times> 'w)" where
  "spawn_with_tls rt lib open_store my_listen_addr seeds opts w =
     and_then (build_shared rt lib open_store my_listen_addr opts w) (\<lambda>(store, n, w1).
       (let (n1, rehydration) = (case store of Some s \<Rightarrow> (n, [RunRehydrate s]) | None \<Rightarrow> (ready n, []))
        in Inr (n1, rehydration @ common_tasks store opts n1 @ spawn_seed_peers seeds, w1)))"

definition rehydrate_task ::
  "('w, 'z) runtime_scheme \<Rightarrow> 's message_store \<Rightarrow> 's \<Rightarrow> 's node \<Rightarrow> 'w \<Rightarrow> 's node \<times> 'w" where
  "rehydrate_task rt ops s n w =
     (case rehydrate_from_store rt ops s (nd_broker n) w of
        Inl _ \<Rightarrow> (ready n, w)
      | Inr (b, w') \<Rightarrow> (ready (n\<lparr>nd_broker := b\<rparr>), w'))"

text \<open>The variants without options; \<open>spawn\<close> expects that nothing can fail.\<close>

definition run ::
  "('w, 'z) runtime_scheme \<Rightarrow> 's message_store \<Rightarrow> ('tcp, 'srv, 'cli, 'name) tls_lib \<Rightarrow> (path \<Rightarrow> 's io_result) \<Rightarrow> 'l listener_env
     \<Rightarrow> rstr \<Rightarrow> rstr list \<Rightarrow> rstr option \<Rightarrow> 'w \<Rightarrow> start_error + ('l \<times> 's node \<times> 's background list \<times> 'w)" where
  "run rt ops lib open_store le addr seeds metrics_addr w =
     run_with_tls rt ops lib open_store le addr seeds metrics_addr node_options_default None w"

definition serve ::
  "('w, 'z) runtime_scheme \<Rightarrow> 's message_store \<Rightarrow> ('tcp, 'srv, 'cli, 'name) tls_lib \<Rightarrow> (path \<Rightarrow> 's io_result) \<Rightarrow> rstr option
     \<Rightarrow> rstr list \<Rightarrow> 'w \<Rightarrow> start_error + ('s node \<times> 's background list \<times> 'w)" where
  "serve rt ops lib open_store my_listen_addr seeds w =
     serve_with_tls rt ops lib open_store my_listen_addr seeds node_options_default w"

definition spawn ::
  "('w, 'z) runtime_scheme \<Rightarrow> ('tcp, 'srv, 'cli, 'name) tls_lib \<Rightarrow> (path \<Rightarrow> 's io_result) \<Rightarrow> rstr option
     \<Rightarrow> rstr list \<Rightarrow> 'w \<Rightarrow> ('s node \<times> 's background list \<times> 'w) outcome" where
  "spawn rt lib open_store my_listen_addr seeds w =
     (case spawn_with_tls rt lib open_store my_listen_addr seeds node_options_default w of Inl _ \<Rightarrow> Panics | Inr r \<Rightarrow> Returns r)"

section \<open>Accepting\<close>

text \<open>The task of an accepted socket: the stream that it hands to \<open>handle_connection\<close>, unless the handshake failed.\<close>

definition secure_accepted ::
  "('tcp, 'srv, 'cli, 'name) tls_lib \<Rightarrow> 's node \<Rightarrow> 'tcp \<Rightarrow> ('tcp, 'srv, 'cli) maybe_tls_stream option" where
  "secure_accepted lib n tcp =
     (case nd_tls_acceptor n of
        Some acceptor \<Rightarrow> (case stream_accept lib acceptor tcp of Inl _ \<Rightarrow> None | Inr s \<Rightarrow> Some s)
      | None \<Rightarrow> Some (Plain tcp))"

text \<open>
  The loop, on the results of \<open>listener.accept()\<close>: the streams of the spawned connections in order, and the error that ended it, if any has come.
\<close>

fun accept_loop ::
  "('tcp, 'srv, 'cli, 'name) tls_lib \<Rightarrow> 's node \<Rightarrow> 'tcp io_result list \<Rightarrow> ('tcp, 'srv, 'cli) maybe_tls_stream list \<times> io_error option" where
  "accept_loop lib n [] = ([], None)"
| "accept_loop lib n (Inl err # _) = ([], Some err)"
| "accept_loop lib n (Inr tcp # rest) =
     (let (ss, e) = accept_loop lib n rest
      in (case secure_accepted lib n tcp of None \<Rightarrow> ss | Some s \<Rightarrow> s # ss, e))"

text \<open>\<open>handle_connection\<close> up to its read loop: the identity is read off the stream before it is split.\<close>

definition handle_connection ::
  "('tcp, 'srv, 'cli, 'name) tls_lib \<Rightarrow> ('tcp, 'srv, 'cli) maybe_tls_stream \<Rightarrow> sender \<Rightarrow> nat \<Rightarrow> 's node \<Rightarrow> connection \<times> 's node" where
  "handle_connection lib s tx disconnect n = connect (peer_fingerprint lib s) tx disconnect n"

section \<open>What never changes\<close>

text \<open>The readiness, the TLS configuration, the identity, the own address and the dead-letter topic: no step of a run writes them.\<close>

definition standing :: "'s node \<Rightarrow> readiness \<times> server_tls option \<times> client_tls option \<times> peer_id \<times> rstr option \<times> topic option" where
  "standing n = (nd_readiness n, nd_tls_acceptor n, nd_tls_connector n, nd_node_id n, nd_my_listen_addr n, nd_dead_letter_topic n)"

lemma standing_update [simp]:
  "standing (n\<lparr>nd_broker := b\<rparr>) = standing n" "standing (n\<lparr>nd_membership := m\<rparr>) = standing n"
  "standing (n\<lparr>nd_interest := i\<rparr>) = standing n" "standing (n\<lparr>nd_peer_links := l\<rparr>) = standing n"
  "standing (n\<lparr>nd_connections := c\<rparr>) = standing n" "standing (n\<lparr>nd_next_id := u\<rparr>) = standing n"
  "standing (n\<lparr>nd_metrics := mt\<rparr>) = standing n" "standing (n\<lparr>nd_discover := d\<rparr>) = standing n"
  "standing (n\<lparr>nd_discovered := ds\<rparr>) = standing n" "standing (n\<lparr>nd_allowed_peers := ap\<rparr>) = standing n"
  "standing (n\<lparr>nd_topic_acl := ta\<rparr>) = standing n" "standing (n\<lparr>nd_peer_topic_acl := pa\<rparr>) = standing n"
  "standing (n\<lparr>nd_peer_topic_filter := pf\<rparr>) = standing n" "standing (n\<lparr>nd_rate_limiter := rl\<rparr>) = standing n"
  "standing (n\<lparr>nd_tasks := ts\<rparr>) = standing n" "standing (n\<lparr>nd_next_task := nt\<rparr>) = standing n"
  "standing (n\<lparr>nd_notified := no\<rparr>) = standing n"
  by (simp_all add: standing_def)

lemma standing_registry [simp]:
  "standing (set_forwarders i fs n) = standing n" "standing (set_is_peer i n) = standing n"
  "standing (registry_unregister i n) = standing n" "standing (abort_task h n) = standing n"
  by (simp_all add: set_forwarders_def set_is_peer_def registry_unregister_def abort_task_def split: option.split)

lemma standing_spawn: "spawn_task k f tx n = (h, n') \<Longrightarrow> standing n' = standing n"
  by (auto simp: spawn_task_def)

lemma standing_stop [simp]: "standing (stop_subscription f tx sub n) = standing n"
  by (cases sub) simp_all

lemma standing_connect: "connect fp tx d n = (cx, n') \<Longrightarrow> standing n' = standing n"
  by (auto simp: connect_def registry_register_def Let_def)

lemma standing_learn: "standing (snd (learn_loop ps n)) = standing n"
  by (induction ps arbitrary: n) (simp_all add: Let_def case_prod_beta)

lemma standing_hold: "hold_link rt p addr cx n w = (cx', n', w') \<Longrightarrow> standing n' = standing n"
  by (auto simp: hold_link_def register_peer_link_def Let_def split: prod.splits option.splits if_splits)

lemma standing_admit: "admit_initial_peer rt info cx n w = (ok, cx', n', w') \<Longrightarrow> standing n' = standing n"
  by (auto simp: admit_initial_peer_def Let_def dest!: standing_hold split: prod.splits if_splits)

lemma standing_hello: "handle_hello rt e addr cx n w = (ok, cx', n', w') \<Longrightarrow> standing n' = standing n"
  by (auto simp: handle_hello_def Let_def dest!: standing_hold split: prod.splits if_splits)

lemma standing_remove: "standing (snd (remove_subscription cx f n)) = standing n"
  by (simp add: remove_subscription_def Let_def split: option.split)

lemma standing_open: "open_subscription cx f ack grp durable p n = Returns (sub, n') \<Longrightarrow> standing n' = standing n"
  by (auto simp: open_subscription_def Let_def dest: standing_spawn split: option.splits if_splits prod.splits)

lemma standing_refuse: "subscribe_refuse rt cx e f n w = (ok, n', w') \<Longrightarrow> standing n' = standing n"
  by (auto simp: subscribe_refuse_def count_acl_rejection_def Let_def split: prod.splits)

lemma standing_commit: "subscribe_commit rt cx e f new n w = (ok, n', w') \<Longrightarrow> standing n' = standing n"
  by (auto simp: subscribe_commit_def Let_def split: prod.splits if_splits)

lemma standing_settle: "subscribe_settle rt cx e f new n w = (ok, n', w') \<Longrightarrow> standing n' = standing n"
  using standing_remove [of cx f n] by (auto simp: subscribe_settle_def dest: standing_refuse standing_commit split: if_splits)

lemma standing_insert: "subscribe_insert cx f ack grp durable p n = Returns (new, n') \<Longrightarrow> standing n' = standing n"
  by (auto simp: subscribe_insert_def Let_def dest: standing_open split: if_splits outcome.splits)

lemma standing_subscribe: "handle_subscribe rt cx e f ack grp durable n w = Returns (ok, n', w') \<Longrightarrow> standing n' = standing n"
  by (auto simp: handle_subscribe_def dest!: standing_insert dest: standing_settle standing_refuse
      split: option.splits if_splits outcome.splits prod.splits)

lemma standing_unsubscribe: "handle_unsubscribe rt cx e f n w = (ok, n', w') \<Longrightarrow> standing n' = standing n"
  using standing_remove [of cx f n] by (auto simp: handle_unsubscribe_def Let_def split: prod.splits if_splits)

lemma standing_publish: "handle_publish rt ops rnd cx e n w = Returns (ok, n', w') \<Longrightarrow> standing n' = standing n"
  by (auto simp: handle_publish_def limiter_allows_def count_acl_rejection_def Let_def
      split: message_kind.splits if_splits prod.splits option.splits)

lemma standing_ack: "standing (handle_ack cx i n) = standing n"
proof -
  have "standing (ack_subscriptions i subs n) = standing n" for subs
    by (induction i subs n rule: ack_subscriptions.induct) (simp_all add: push_ack_def split: option.split)
  then show ?thesis by (simp add: handle_ack_def)
qed

lemma standing_learn_peers: "learn_peers rt ps n w = (n', w') \<Longrightarrow> standing n' = standing n"
  using standing_learn [of ps n] by (auto simp: learn_peers_def split: prod.splits if_splits)

lemma standing_dispatch: "dispatch rt ops rnd e cx n w = Returns (ok, cx', n', w') \<Longrightarrow> standing n' = standing n"
  by (auto simp: dispatch_def standing_ack dest!: standing_subscribe standing_unsubscribe standing_publish standing_hello standing_learn_peers
      split: message_kind.splits outcome.splits prod.splits)

lemma standing_event: "connection_event_step rt ops rnd c ev cx n w = Returns (ok, cx', n', w') \<Longrightarrow> standing n' = standing n"
  by (cases ev) (auto dest: standing_dispatch split: sum.splits prod.splits)

lemma standing_stop_all: "standing (fst (stop_all rt tx subs n w)) = standing n"
  by (induction rt tx subs n w rule: stop_all.induct) (simp_all add: Let_def split: prod.split)

lemma standing_end: "connection_end rt cx n w = (n', w') \<Longrightarrow> standing n' = standing n"
  using standing_stop_all [of rt "cx_outgoing_tx cx" "forwarders_of (cx_id cx) n" "set_forwarders (cx_id cx) [] n" w]
  by (auto simp: connection_end_def shut_down_def drop_context_def Let_def split: prod.splits option.splits)

lemma standing_reconcile: "standing (fst (reconcile_each rt is n w)) = standing n"
proof (induction rt "is" n w rule: reconcile_each.induct)
  case (2 rt i "is" n w)
  have "standing (fst (reconcile_connection rt i n w)) = standing n"
    by (simp add: reconcile_connection_def standing_stop_all Let_def split: option.split)
  with 2 show ?case by (cases "reconcile_connection rt i n w") simp
qed simp

lemma standing_reload: "apply_reload rt a n w = (n', w') \<Longrightarrow> standing n' = standing n"
  using standing_reconcile [of rt "map fst (nd_connections (install_acls a n))" "install_acls a n" w]
  by (auto simp: apply_reload_def reconcile_topic_acls_def install_acls_def Let_def split: prod.splits)

lemma standing_task: "task_step rt ops ev h n w = Returns (n', w') \<Longrightarrow> standing n' = standing n"
  by (auto simp: task_step_def split: option.splits outcome.splits)

lemma standing_drop: "standing (drop_context cx n) = standing n"
  by (simp add: drop_context_def Let_def split: option.split)

lemma node_step_standing: "node_step rt ops rnd c (cs, n, w) (cs', n', w') \<Longrightarrow> standing n' = standing n"
  by (erule node_step.cases)
    (auto simp: standing_drop dest!: standing_connect standing_admit standing_event standing_end standing_reload standing_task)

section \<open>Properties\<close>

lemma attach_store_cases:
  assumes "attach_store (map_option open_store dir) n = Inr (store, n')"
  shows "dir = None \<and> store = None \<and> n' = n \<or> (\<exists>d s. dir = Some d \<and> open_store d = Inr s \<and> store = Some s \<and> n' = n\<lparr>nd_broker := with_store s\<rparr>)"
  using assms by (auto simp: attach_store_def split: option.splits sum.splits)

lemma build_shared_Inr:
  assumes "build_shared rt lib open_store addr opts w = Inr (store, n, w')"
  shows "store = None \<longleftrightarrow> no_data_dir opts = None" and "nd_readiness n = readiness_new"
    and "\<exists>n1. install_options rt lib opts n1 = Inr n \<and> standing n1 = standing (node_new (fst (peer_id_new rt w)) addr)
         \<and> nd_allowed_peers n1 = None \<and> nd_connections n1 = [] \<and> nd_peer_links n1 = []"
proof -
  obtain i w1 where i: "peer_id_new rt w = (i, w1)" by fastforce
  from assms obtain n1 where n1: "attach_store (map_option open_store (no_data_dir opts)) (node_new i addr) = Inr (store, n1)"
    and n: "install_options rt lib opts n1 = Inr n" by (auto simp: build_shared_def i and_then_Inr)
  have "nd_readiness n = nd_readiness n1" using n by (auto simp: install_options_def and_then_Inr split: option.splits)
  moreover have "nd_allowed_peers n1 = None \<and> nd_connections n1 = [] \<and> nd_peer_links n1 = [] \<and> nd_readiness n1 = readiness_new
      \<and> standing n1 = standing (node_new i addr)"
    using attach_store_cases [OF n1] by (auto simp: node_new_def standing_def)
  ultimately show "store = None \<longleftrightarrow> no_data_dir opts = None" "nd_readiness n = readiness_new"
    "\<exists>n1. install_options rt lib opts n1 = Inr n \<and> standing n1 = standing (node_new (fst (peer_id_new rt w)) addr)
         \<and> nd_allowed_peers n1 = None \<and> nd_connections n1 = [] \<and> nd_peer_links n1 = []"
    using n attach_store_cases [OF n1] i by auto
qed

lemma is_ready_simps [simp]: "is_ready (mark_ready r)" "\<not> is_ready readiness_new" "is_ready (nd_readiness (ready n))"
  by (simp_all add: is_ready_def mark_ready_def readiness_new_def ready_def)

definition is_metrics_task :: "'s background \<Rightarrow> bool" where
  "is_metrics_task t \<longleftrightarrow> (case t of RunMetricsEndpoint _ _ \<Rightarrow> True | _ \<Rightarrow> False)"

lemma not_metrics [simp]:
  "filter (\<lambda>t. \<not> is_metrics_task t) (common_tasks store opts n) = common_tasks store opts n"
  "filter (\<lambda>t. \<not> is_metrics_task t) (spawn_seed_peers seeds) = spawn_seed_peers seeds"
  by (auto simp: common_tasks_def maybe_spawn_ttl_sweeper_def ttl_spawn_def work_queue_spawn_def spawn_reload_applier_def
      spawn_seed_peers_def is_metrics_task_def Let_def intro!: filter_True split: option.splits)

lemma metrics_task_filter: "metrics_task le a token = Inr ms \<Longrightarrow> filter (\<lambda>t. \<not> is_metrics_task t) ms = []"
  by (auto simp: metrics_task_def and_then_Inr is_metrics_task_def split: option.splits)

lemma common_tasks_node_id: "nd_node_id n' = nd_node_id n \<Longrightarrow> common_tasks store opts n' = common_tasks store opts n"
  by (simp add: common_tasks_def)

lemma common_tasks_ready [simp]: "common_tasks store opts (ready n) = common_tasks store opts n"
  by (rule common_tasks_node_id) (simp add: ready_def)

lemma rehydrate_node_fields: "rehydrate_node rt ops store n w = Inr (n', w') \<Longrightarrow> standing n' = standing n"
  by (auto simp: rehydrate_node_def and_then_Inr split: option.splits)

lemma standing_node_id: "standing n' = standing n \<Longrightarrow> nd_node_id n' = nd_node_id n"
  by (simp add: standing_def)


text \<open>A node on a new database with TLS material, for the examples.\<close>

definition example_options :: node_options where
  "example_options = node_options_default\<lparr>no_tls := Some example_tls_config, no_data_dir := Some []\<rparr>"

definition example_listener :: "unit listener_env" where
  "example_listener = \<lparr>le_bind = (\<lambda>_. Inr ()), le_local_addr = (\<lambda>_. None)\<rparr>"

lemma example_start:
  "\<exists>n bg w. run_with_tls world_rt (sqlite_message_store example_env) example_tls (\<lambda>_. Inr sqlite_empty) example_listener
     (str ''a'') [] None example_options None world0 = Inr ((), n, bg, w)
   \<and> nd_tls_connector n = Some \<lparr>cl_roots = [[9]], cl_identity = Some ([[7]], [8])\<rparr> \<and> nd_node_id n = PeerId [7] \<and> nd_allowed_peers n = None
   \<and> nd_connections n = [] \<and> nd_topic_acl n = None \<and> nd_interest n = interest_new \<and> nd_next_id n = 0 \<and> w = snd (peer_id_new world_rt world0)"
proof -
  have recent: "sqlite_load_recent example_env k sqlite_empty = Inr []" for k
    using example_env_healthy by (simp add: sqlite_load_recent_def healthy_def sqlite_empty_def)
  have retained: "sqlite_load_retained example_env sqlite_empty = Inr []"
    using example_env_healthy by (simp add: sqlite_load_retained_def healthy_def sqlite_empty_def)
  have allowed: "tls_allowed_peers example_tls_config = None" by (simp add: example_tls_config_def)
  show ?thesis
    by (simp add: run_with_tls_def example_listener_def map_err_def build_shared_def peer_id_new_def world_rt_def world0_def
        example_options_def node_options_default_def attach_store_def install_options_def example_tls_build allowed
        rehydrate_node_def rehydrate_from_store_def sqlite_message_store_def recent retained metrics_task_def
        peer_id_from_fingerprint_def ready_def node_new_def)
qed


interpretation steady_run: invariant_machine "node_step rt ops rnd c" "\<lambda>s. standing (fst (snd s)) = k" for rt ops rnd c k
  by unfold_locales (auto dest: node_step_standing)

lemma run_standing: "(node_step rt ops rnd c)\<^sup>*\<^sup>* (cs, n, w) (cs', n', w') \<Longrightarrow> standing n' = standing n"
  using steady_run.run_inv by fastforce

text \<open>C15. Readiness waits for the rehydration. A node that \<open>spawn_with_tls\<close> starts on a data directory has one task that rehydrates it; before this task has run, whatever
  connections, tasks and reloads do, the node does not report ready, and afterwards it does for ever.\<close>

theorem readiness_waits_for_rehydration:
  assumes "spawn_with_tls rt lib open_store addr seeds opts w0 = Inr (n0, bg, w1)" and "no_data_dir opts \<noteq> None"
    and "(node_step rt ops rnd c)\<^sup>*\<^sup>* (\<lambda>_. None, n0, w1) (cs, n, w)"
  shows "\<not> is_ready (nd_readiness n)
    \<and> (\<exists>s. bg ! 0 = RunRehydrate s
         \<and> (\<forall>n1 w2 cs' n' w'. rehydrate_task rt ops s n w = (n1, w2) \<longrightarrow> (node_step rt ops rnd c)\<^sup>*\<^sup>* (cs, n1, w2) (cs', n', w')
              \<longrightarrow> is_ready (nd_readiness n')))"
proof -
  from assms(1) obtain store n2 where b: "build_shared rt lib open_store addr opts w0 = Inr (store, n2, w1)"
    and r: "(n0, bg) = (case store of Some s \<Rightarrow> (n2, RunRehydrate s # common_tasks store opts n2 @ spawn_seed_peers seeds)
                          | None \<Rightarrow> (ready n2, common_tasks store opts n2 @ spawn_seed_peers seeds))"
    by (auto simp: spawn_with_tls_def and_then_Inr split: option.splits)
  from build_shared_Inr(1) [OF b] assms(2) obtain s where s: "store = Some s" by auto
  with r have n0: "n0 = n2" "bg ! 0 = RunRehydrate s" by simp_all
  have "nd_readiness n = nd_readiness n0" using run_standing [OF assms(3)] by (simp add: standing_def)
  with build_shared_Inr(2) [OF b] n0 have "\<not> is_ready (nd_readiness n)" by simp
  moreover have "is_ready (nd_readiness n')"
    if "rehydrate_task rt ops s n w = (n1, w2)" "(node_step rt ops rnd c)\<^sup>*\<^sup>* (cs, n1, w2) (cs', n', w')" for n1 w2 cs' n' w'
  proof -
    have "is_ready (nd_readiness n1)" using that(1) by (auto simp: rehydrate_task_def split: sum.splits)
    moreover have "nd_readiness n' = nd_readiness n1" using run_standing [OF that(2)] by (simp add: standing_def)
    ultimately show ?thesis by simp
  qed
  ultimately show ?thesis using n0(2) by blast
qed

theorem readiness_waits_for_rehydration_witness:
  "\<exists>n0 bg w1. spawn_with_tls world_rt example_tls (\<lambda>_. Inr sqlite_empty) None [] example_options world0 = Inr (n0, bg, w1)
     \<and> \<not> is_ready (nd_readiness n0) \<and> (\<exists>s. bg ! 0 = RunRehydrate s)"
proof -
  obtain n bg w where "run_with_tls world_rt (sqlite_message_store example_env) example_tls (\<lambda>_. Inr sqlite_empty) example_listener
     (str ''a'') [] None example_options None world0 = Inr ((), n, bg, w)" using example_start by blast
  then obtain store n2 w2 where b: "build_shared world_rt example_tls (\<lambda>_. Inr sqlite_empty) None example_options world0 = Inr (store, n2, w2)"
    by (auto simp: run_with_tls_def and_then_Inr example_listener_def)
  then obtain n0 bg0 w1 where sp: "spawn_with_tls world_rt example_tls (\<lambda>_. Inr sqlite_empty) None [] example_options world0 = Inr (n0, bg0, w1)"
    by (cases store) (auto simp: spawn_with_tls_def)
  have "no_data_dir example_options \<noteq> None" by (simp add: example_options_def)
  from readiness_waits_for_rehydration [OF sp this, where ops = "sqlite_message_store example_env" and rnd = id and c = "pair_codec example_subscribe example_subscribe",
      OF rtranclp.rtrancl_refl] sp
  show ?thesis by blast
qed

text \<open>A started node has what the TLS files of its options give it, and keeps it.\<close>

lemma build_shared_tls:
  assumes "build_shared rt lib open_store addr opts w = Inr (store, n, w')"
  shows "case no_tls opts of
      None \<Rightarrow> nd_tls_acceptor n = None \<and> nd_tls_connector n = None
    | Some t \<Rightarrow> \<exists>sv cl fp. tls_config_build lib t = Inr (sv, cl, fp) \<and> nd_tls_acceptor n = Some sv \<and> nd_tls_connector n = Some cl
        \<and> nd_node_id n = peer_id_from_fingerprint rt fp"
proof -
  from build_shared_Inr(3) [OF assms] obtain n1 where n1: "install_options rt lib opts n1 = Inr n"
    "standing n1 = standing (node_new (fst (peer_id_new rt w)) addr)" by blast
  then have "nd_tls_acceptor n1 = None" "nd_tls_connector n1 = None" by (simp_all add: standing_def node_new_def)
  with n1(1) show ?thesis by (auto simp: install_options_def and_then_Inr split: option.splits)
qed

lemma run_with_tls_standing:
  assumes "run_with_tls rt ops lib open_store le addr seeds metrics_addr opts token w = Inr (l, n, bg, w')"
    and "(node_step rt ops rnd c)\<^sup>*\<^sup>* (cs, n, w1) (cs', n', w2)"
  shows "\<exists>store n0 w0. build_shared rt lib open_store (le_local_addr le l) opts w = Inr (store, n0, w0)
    \<and> nd_tls_acceptor n' = nd_tls_acceptor n0 \<and> nd_tls_connector n' = nd_tls_connector n0 \<and> nd_node_id n' = nd_node_id n0"
proof -
  from assms(1) obtain store n0 w0 n1 where b: "build_shared rt lib open_store (le_local_addr le l) opts w = Inr (store, n0, w0)"
    and h: "rehydrate_node rt ops store n0 w0 = Inr (n1, w')" and n: "n = ready n1"
    by (auto simp: run_with_tls_def and_then_Inr)
  from rehydrate_node_fields [OF h] run_standing [OF assms(2)] b show ?thesis
    by (intro exI [of _ store] exI [of _ n0] exI [of _ w0]) (simp add: standing_def n ready_def)
qed

lemma stream_connect_Inr: "stream_connect lib cl tcp addr = Inr s \<Longrightarrow> \<exists>x. s = TlsClient x"
  by (auto simp: stream_connect_def and_then_def split: sum.split_asm)

text \<open>Reading from and writing to a stream leave it the variant it is.\<close>

definition keeps_session :: "('tcp, 'srv, 'cli) maybe_tls_stream read_exact \<Rightarrow> ('tcp, 'srv, 'cli) maybe_tls_stream write_all \<Rightarrow> bool" where
  "keeps_session rd wr \<longleftrightarrow>
     (\<forall>k s bs s'. rd k s = Inr (bs, s') \<longrightarrow> (\<exists>x. s = TlsClient x) \<longrightarrow> (\<exists>x. s' = TlsClient x))
     \<and> (\<forall>bs s s'. wr bs s = Inr s' \<longrightarrow> (\<exists>x. s = TlsClient x) \<longrightarrow> (\<exists>x. s' = TlsClient x))"

lemma dial_handshake_session:
  assumes "keeps_session rd wr" and "dial_handshake rt c rd wr i addr (TlsClient x) w = (Inr (info, s), w')"
  shows "\<exists>y. s = TlsClient y"
proof -
  have wr: "\<exists>y. s' = TlsClient y" if "write_frame wr bs (TlsClient x) = Inr s'" for bs s' x
    using that assms(1) unfolding keeps_session_def write_frame_def by (fastforce split: option.splits if_splits sum.splits)
  have rd: "\<exists>y. s' = TlsClient y" if "read_frame rd (TlsClient x) = Inr (bs, s')" for bs s' x
    using that assms(1) unfolding keeps_session_def read_frame_def by (fastforce simp: Let_def split: if_splits sum.splits)
  from assms(2) obtain bs s1 bs' where "write_frame wr bs (TlsClient x) = Inr s1" "read_frame rd s1 = Inr (bs', s)"
    by (auto simp: dial_handshake_def hs_send_def recv_hello_def async_same split: prod.splits sum.splits message_kind.splits)
  with wr rd show ?thesis by blast
qed

lemma secure_accepted_tls:
  "nd_tls_acceptor n = Some sv \<Longrightarrow> secure_accepted lib n tcp = Some s \<Longrightarrow> \<exists>x. s = TlsServer x \<and> tl_accept lib sv tcp = Inr x"
  by (auto simp: secure_accepted_def stream_accept_def split: sum.splits)

text \<open>C13. A node with TLS never speaks in the clear. As long as it runs, and whatever reloads happen, every accepted socket that reaches a connection is a server session, a failed handshake
  reaches none, and every dialled link is a client session.\<close>

theorem tls_never_plaintext:
  assumes "run_with_tls rt ops lib open_store le addr seeds metrics_addr opts token w0 = Inr (l, n0, bg, w1)" and "no_tls opts \<noteq> None"
    and "(node_step rt ops rnd c)\<^sup>*\<^sup>* (cs, n0, w2) (cs', n, w)"
  shows "(\<forall>s \<in> set (fst (accept_loop lib n sockets)). \<exists>x sv tcp. s = TlsServer x \<and> Inr tcp \<in> set sockets
        \<and> nd_tls_acceptor n = Some sv \<and> tl_accept lib sv tcp = Inr x)
    \<and> (keeps_session rd wr \<longrightarrow> (\<forall>info s w'. connect_and_handshake rt cd rd wr lib tcp_connect peer n w = (Some (info, s), w') \<longrightarrow> (\<exists>x. s = TlsClient x)))"
proof -
  from run_with_tls_standing [OF assms(1,3)] obtain store m w3 where b: "build_shared rt lib open_store (le_local_addr le l) opts w0 = Inr (store, m, w3)"
    and n: "nd_tls_acceptor n = nd_tls_acceptor m" "nd_tls_connector n = nd_tls_connector m" by blast
  from build_shared_tls [OF b] assms(2) n obtain sv cl where sv: "nd_tls_acceptor n = Some sv" and cl: "nd_tls_connector n = Some cl" by auto
  have "\<forall>s \<in> set (fst (accept_loop lib n sockets)). \<exists>x tcp. s = TlsServer x \<and> Inr tcp \<in> set sockets \<and> tl_accept lib sv tcp = Inr x"
  proof (induction sockets)
    case (Cons r sockets)
    show ?case
    proof (cases r)
      case (Inr tcp)
      then have "set (fst (accept_loop lib n (r # sockets))) \<subseteq> set_option (secure_accepted lib n tcp) \<union> set (fst (accept_loop lib n sockets))"
        by (auto split: prod.splits option.splits)
      with Cons Inr secure_accepted_tls [OF sv, of lib tcp] show ?thesis by fastforce
    qed simp
  qed simp
  moreover have "\<exists>x. s = TlsClient x" if "keeps_session rd wr" "connect_and_handshake rt cd rd wr lib tcp_connect peer n w = (Some (info, s), w')" for info s w'
    using that(2) dial_handshake_session [OF that(1)]
    by (auto simp: connect_and_handshake_def cl dest!: stream_connect_Inr split: sum.splits prod.splits)
  ultimately show ?thesis using sv by blast
qed

theorem tls_never_plaintext_witness:
  "\<exists>n bg w. run_with_tls world_rt (sqlite_message_store example_env) example_tls (\<lambda>_. Inr sqlite_empty) example_listener
     (str ''a'') [] None example_options None world0 = Inr ((), n, bg, w)
   \<and> (\<forall>s \<in> set (fst (accept_loop example_tls n [Inr (), Inr (), Inl UnexpectedEof])). \<exists>x. s = TlsServer x)"
proof -
  obtain n bg w where r: "run_with_tls world_rt (sqlite_message_store example_env) example_tls (\<lambda>_. Inr sqlite_empty) example_listener
     (str ''a'') [] None example_options None world0 = Inr ((), n, bg, w)" using example_start by blast
  have t: "no_tls example_options \<noteq> None" by (simp add: example_options_def)
  from tls_never_plaintext [OF r t, where rnd = id and c = "pair_codec example_subscribe example_subscribe", OF rtranclp.rtrancl_refl,
      of "[Inr (), Inr (), Inl UnexpectedEof]"] r show ?thesis by blast
qed

text \<open>C16. A peer is known under the id it gave itself. When a node with a certificate has linked to another node over TLS, the other node takes it for the principal of that certificate, replaces
  whatever sender its messages claim by the id that the node runs under, and after its handshake holds the link under this id.\<close>

theorem tls_identity_agrees:
  assumes "run_with_tls rt ops lib open_store le addr seeds metrics_addr opts token w0 = Inr (l, n0, bg, w1)" and "no_tls opts \<noteq> None"
    and "(node_step rt ops rnd c)\<^sup>*\<^sup>* (cs, n0, w2) (cs', n, w)"
    and "nd_tls_connector n = Some cl" and "session_with lib cl s"
    and "handle_connection lib (TlsServer s) tx d other = (cx, other')"
  shows "(\<exists>fp. cx_principal cx = Fingerprint fp \<and> peer_id_from_fingerprint rt fp = nd_node_id n)
    \<and> authenticated_sender rt cx claimed = nd_node_id n
    \<and> (\<forall>e addr bs cx' other'' w' w''. from_bytes cd bs = Inr e \<longrightarrow> env_kind e = Hello addr
         \<longrightarrow> connection_event_step rt ops' rnd' cd (FrameRead bs) cx other' w' = Returns (True, cx', other'', w'')
         \<longrightarrow> cx_peer_identity cx' = Some (nd_node_id n) \<and> cx_link cx' = Some (nd_node_id n))"
proof -
  from run_with_tls_standing [OF assms(1,3)] obtain store m w3 where b: "build_shared rt lib open_store (le_local_addr le l) opts w0 = Inr (store, m, w3)"
    and n: "nd_tls_connector n = nd_tls_connector m" "nd_node_id n = nd_node_id m" by blast
  from build_shared_tls [OF b] assms(2,4) n obtain t sv fp where t: "tls_config_build lib t = Inr (sv, cl, fp)"
    and id: "nd_node_id n = peer_id_from_fingerprint rt fp" by auto
  from assms(6) peer_fingerprint_of_node [OF t assms(5)] have cx: "cx_principal cx = Fingerprint fp" "cx_peer_fingerprint cx = Some fp"
    by (auto simp: handle_connection_def connect_def principal_from_fingerprint_def Let_def split: prod.splits)
  have auth: "authenticated_sender rt cx p = nd_node_id n" for p by (simp add: authenticated_sender_def cx id)
  have "cx_peer_identity cx' = Some (nd_node_id n) \<and> cx_link cx' = Some (nd_node_id n)"
    if "from_bytes cd bs = Inr e" "env_kind e = Hello addr"
      "connection_event_step rt ops' rnd' cd (FrameRead bs) cx other' w' = Returns (True, cx', other'', w'')" for e addr bs cx' other'' w' w''
    using that by (auto simp: dispatch_def auth handle_hello_def hold_link_def Let_def split: prod.splits if_splits)
  with auth cx id show ?thesis by auto
qed

theorem tls_identity_agrees_witness:
  "\<exists>n bg w. run_with_tls world_rt (sqlite_message_store example_env) example_tls (\<lambda>_. Inr sqlite_empty) example_listener
     (str ''a'') [] None example_options None world0 = Inr ((), n, bg, w)
   \<and> nd_node_id n = PeerId [7]
   \<and> authenticated_sender world_rt (fst (handle_connection example_tls (TlsServer (Some [[7]])) 3 0 (example_node))) (PeerId [99]) = PeerId [7]"
proof -
  obtain n bg w where r: "run_with_tls world_rt (sqlite_message_store example_env) example_tls (\<lambda>_. Inr sqlite_empty) example_listener
     (str ''a'') [] None example_options None world0 = Inr ((), n, bg, w)"
    and n: "nd_tls_connector n = Some \<lparr>cl_roots = [[9]], cl_identity = Some ([[7]], [8])\<rparr>" "nd_node_id n = PeerId [7]" using example_start by blast
  have t: "no_tls example_options \<noteq> None" by (simp add: example_options_def)
  have s: "session_with example_tls \<lparr>cl_roots = [[9]], cl_identity = Some ([[7]], [8])\<rparr> (Some [[7]])" by (simp add: session_with_def example_tls_def)
  obtain cx o' where h: "handle_connection example_tls (TlsServer (Some [[7]])) 3 0 example_node = (cx, o')" by fastforce
  from tls_identity_agrees [OF r t, where rnd = id and c = "pair_codec example_subscribe example_subscribe", OF rtranclp.rtrancl_refl n(1) s h, of "PeerId [99]"] n(2) r h
  show ?thesis by auto
qed

end
