(* ===== verification/Configuration.thy ===== *)
theory Configuration
  imports Entry_Points
begin

text \<open>
  From the command line and the configuration file to a running node (crates/thoth-mesh-node/src/main.rs,
  config.rs), and the reload on a hangup signal (\<open>ReloadSource::reload\<close>). The file system and the
  parser of TOML are parameters; parsing the command line and logging are not modelled. An error is a value that says which check failed.
\<close>

section \<open>The sources\<close>

datatype file_error = FileNotFound | FileOther rstr

record config =
  cf_addr :: "rstr option"
  cf_log_level :: "rstr option"
  cf_peer :: "rstr list"
  cf_metrics_addr :: "rstr option"
  cf_data_dir :: "path option"
  cf_tls_cert :: "path option"
  cf_tls_key :: "path option"
  cf_tls_ca :: "path option"
  cf_allow_peer :: "rstr list"
  cf_topic_acl :: "rstr list"
  cf_peer_topic_acl :: "rstr list"
  cf_peer_topic_filter :: "rstr list"
  cf_metrics_token_file :: "path option"
  cf_persisted_message_ttl_secs :: "u64 option"
  cf_dead_letter_topic :: "rstr option"
  cf_publish_rate_limit_per_sec :: "u32 option"
  cf_publish_rate_limit_burst :: "u32 option"

definition config_default :: config where
  "config_default = \<lparr>cf_addr = None, cf_log_level = None, cf_peer = [], cf_metrics_addr = None, cf_data_dir = None,
     cf_tls_cert = None, cf_tls_key = None, cf_tls_ca = None, cf_allow_peer = [], cf_topic_acl = [],
     cf_peer_topic_acl = [], cf_peer_topic_filter = [], cf_metrics_token_file = None,
     cf_persisted_message_ttl_secs = None, cf_dead_letter_topic = None, cf_publish_rate_limit_per_sec = None,
     cf_publish_rate_limit_burst = None\<rparr>"

text \<open>The flags of the command line: the same settings, and the path of the file.\<close>

record cli = config +
  cl_config :: "path option"

text \<open>
  \<open>fe_metadata\<close> is the error of \<open>std::fs::metadata\<close>, if any; \<open>Path::exists\<close> is its absence. \<open>fe_sighup\<close> says whether a handler of the
  hangup signal can be installed.
\<close>

record file_env =
  fe_read :: "path \<Rightarrow> file_error + rstr"
  fe_metadata :: "path \<Rightarrow> file_error option"
  fe_toml :: "rstr \<Rightarrow> config option"
  fe_default_path :: "path option"
  fe_sighup :: bool

datatype config_error =
    ConfigUnreadable file_error | ConfigMalformed path
  | TlsNotTogether | AllowPeerNeedsTls | TokenFileNeedsAddr | TtlNeedsDataDir | BurstNeedsRate
  | InvalidAllowPeer rstr parse_fingerprint_error | InvalidTopicAcl rstr topic_acl_parse_error
  | InvalidPeerTopicFilter peer_topic_filter_parse_error
  | TokenFileUnreadable path file_error | TokenFileEmpty path | InvalidDeadLetterTopic rstr topic_error
  | RateZero | BurstZero
  | ConfigGone path file_error | ReloadAllowPeerNeedsTls

definition config_load :: "file_env \<Rightarrow> path option \<Rightarrow> config_error + config" where
  "config_load fe explicit =
     (case (case explicit of Some p \<Rightarrow> Some p | None \<Rightarrow> fe_default_path fe) of
        None \<Rightarrow> Inr config_default
      | Some p \<Rightarrow>
          (case fe_read fe p of
             Inr raw \<Rightarrow> (case fe_toml fe raw of None \<Rightarrow> Inl (ConfigMalformed p) | Some c \<Rightarrow> Inr c)
           | Inl FileNotFound \<Rightarrow> Inr config_default
           | Inl err \<Rightarrow> Inl (ConfigUnreadable err)))"

section \<open>Merging flags and file\<close>

text \<open>\<open>Option::or\<close>.\<close>

definition option_or :: "'a option \<Rightarrow> 'a option \<Rightarrow> 'a option" where
  "option_or a b = (case a of None \<Rightarrow> b | Some x \<Rightarrow> Some x)"

definition merge_list :: "rstr list \<Rightarrow> rstr list \<Rightarrow> rstr list" where
  "merge_list cli file = (if cli = [] then file else cli)"

definition DEFAULT_ADDR :: rstr where
  "DEFAULT_ADDR = str ''127.0.0.1:49500''"

record effective_config =
  ec_addr :: rstr
  ec_log_level :: rstr
  ec_peers :: "rstr list"
  ec_metrics_addr :: "rstr option"
  ec_data_dir :: "path option"
  ec_tls_cert :: "path option"
  ec_tls_key :: "path option"
  ec_tls_ca :: "path option"
  ec_allow_peer :: "rstr list"
  ec_topic_acl :: "rstr list"
  ec_peer_topic_acl :: "rstr list"
  ec_peer_topic_filter :: "rstr list"
  ec_metrics_token_file :: "path option"
  ec_persisted_message_ttl_secs :: "u64 option"
  ec_dead_letter_topic :: "rstr option"
  ec_publish_rate_limit_per_sec :: "u32 option"
  ec_publish_rate_limit_burst :: "u32 option"

definition merge :: "cli \<Rightarrow> config \<Rightarrow> config_error + effective_config" where
  "merge c f =
     (let tls_cert = option_or (cf_tls_cert c) (cf_tls_cert f);
          tls_key = option_or (cf_tls_key c) (cf_tls_key f);
          tls_ca = option_or (cf_tls_ca c) (cf_tls_ca f) in
      if \<not> ((tls_cert \<noteq> None) = (tls_key \<noteq> None) \<and> (tls_key \<noteq> None) = (tls_ca \<noteq> None)) then Inl TlsNotTogether
      else let allow_peer = merge_list (cf_allow_peer c) (cf_allow_peer f) in
      if allow_peer \<noteq> [] \<and> tls_cert = None then Inl AllowPeerNeedsTls
      else let metrics_addr = option_or (cf_metrics_addr c) (cf_metrics_addr f);
               metrics_token_file = option_or (cf_metrics_token_file c) (cf_metrics_token_file f) in
      if metrics_token_file \<noteq> None \<and> metrics_addr = None then Inl TokenFileNeedsAddr
      else let data_dir = option_or (cf_data_dir c) (cf_data_dir f);
               ttl = option_or (cf_persisted_message_ttl_secs c) (cf_persisted_message_ttl_secs f) in
      if ttl \<noteq> None \<and> data_dir = None then Inl TtlNeedsDataDir
      else let per_sec = option_or (cf_publish_rate_limit_per_sec c) (cf_publish_rate_limit_per_sec f);
               burst = option_or (cf_publish_rate_limit_burst c) (cf_publish_rate_limit_burst f) in
      if burst \<noteq> None \<and> per_sec = None then Inl BurstNeedsRate
      else Inr
        \<lparr>ec_addr = (case option_or (cf_addr c) (cf_addr f) of Some a \<Rightarrow> a | None \<Rightarrow> DEFAULT_ADDR),
         ec_log_level = (case option_or (cf_log_level c) (cf_log_level f) of Some l \<Rightarrow> l | None \<Rightarrow> str ''info''),
         ec_peers = merge_list (cf_peer c) (cf_peer f), ec_metrics_addr = metrics_addr, ec_data_dir = data_dir,
         ec_tls_cert = tls_cert, ec_tls_key = tls_key, ec_tls_ca = tls_ca, ec_allow_peer = allow_peer,
         ec_topic_acl = merge_list (cf_topic_acl c) (cf_topic_acl f),
         ec_peer_topic_acl = merge_list (cf_peer_topic_acl c) (cf_peer_topic_acl f),
         ec_peer_topic_filter = merge_list (cf_peer_topic_filter c) (cf_peer_topic_filter f),
         ec_metrics_token_file = metrics_token_file, ec_persisted_message_ttl_secs = ttl,
         ec_dead_letter_topic = option_or (cf_dead_letter_topic c) (cf_dead_letter_topic f),
         ec_publish_rate_limit_per_sec = per_sec, ec_publish_rate_limit_burst = burst\<rparr>)"

section \<open>The access lists\<close>

fun parse_fingerprints :: "rstr list \<Rightarrow> u8 list set \<Rightarrow> config_error + u8 list set" where
  "parse_fingerprints [] acc = Inr acc"
| "parse_fingerprints (raw # raws) acc =
     (case parse_fingerprint raw of
        Inl err \<Rightarrow> Inl (InvalidAllowPeer raw err)
      | Inr fp \<Rightarrow> parse_fingerprints raws (insert fp acc))"

definition parse_allow_peer :: "rstr list \<Rightarrow> config_error + u8 list set option" where
  "parse_allow_peer raws =
     (if raws = [] then Inr None else and_then (parse_fingerprints raws {}) (\<lambda>fps. Inr (Some fps)))"

definition parse_topic_acl :: "rstr \<Rightarrow> rstr list \<Rightarrow> config_error + topic_acl option" where
  "parse_topic_acl flag raws =
     (if raws = [] then Inr None
      else (case topic_acl_parse raws of Inl err \<Rightarrow> Inl (InvalidTopicAcl flag err) | Inr acl \<Rightarrow> Inr (Some acl)))"

definition parse_peer_topic_filter :: "rstr list \<Rightarrow> config_error + peer_topic_filter option" where
  "parse_peer_topic_filter raws =
     (if raws = [] then Inr None
      else (case peer_topic_filter_parse raws of Inl err \<Rightarrow> Inl (InvalidPeerTopicFilter err) | Inr x \<Rightarrow> Inr (Some x)))"

section \<open>Reloading\<close>

record reload_source =
  rs_config_path :: "path option"
  rs_existed_at_startup :: bool
  rs_cli_allow_peer :: "rstr list"
  rs_cli_topic_acl :: "rstr list"
  rs_cli_peer_topic_acl :: "rstr list"
  rs_cli_peer_topic_filter :: "rstr list"
  rs_tls_configured :: bool

definition reload_lists :: "reload_source \<Rightarrow> config \<Rightarrow> config_error + reloadable_acls" where
  "reload_lists src f =
     (let allow_peer = merge_list (rs_cli_allow_peer src) (cf_allow_peer f) in
      if allow_peer \<noteq> [] \<and> \<not> rs_tls_configured src then Inl ReloadAllowPeerNeedsTls
      else and_then (parse_allow_peer allow_peer) (\<lambda>ap.
           and_then (parse_topic_acl (str ''--topic-acl'') (merge_list (rs_cli_topic_acl src) (cf_topic_acl f))) (\<lambda>acl.
           and_then (parse_topic_acl (str ''--peer-topic-acl'') (merge_list (rs_cli_peer_topic_acl src) (cf_peer_topic_acl f))) (\<lambda>pacl.
           and_then (parse_peer_topic_filter (merge_list (rs_cli_peer_topic_filter src) (cf_peer_topic_filter f))) (\<lambda>ptf.
             Inr \<lparr>ra_topic_acl = acl, ra_peer_topic_acl = pacl, ra_allow_peer = ap, ra_peer_topic_filter = ptf\<rparr>)))))"

definition reload :: "file_env \<Rightarrow> reload_source \<Rightarrow> (config_error + reloadable_acls) outcome" where
  "reload fe src =
     (case (if rs_existed_at_startup src
            then (case rs_config_path src of
                    None \<Rightarrow> Panics
                  | Some p \<Rightarrow> Returns (case fe_metadata fe p of Some err \<Rightarrow> Inl (ConfigGone p err) | None \<Rightarrow> Inr ()))
            else Returns (Inr ())) of
        Panics \<Rightarrow> Panics
      | Returns checked \<Rightarrow>
          Returns (and_then checked (\<lambda>_. and_then (config_load fe (rs_config_path src)) (reload_lists src))))"

text \<open>
  One hangup signal: \<open>spawn_sighup_reloader\<close> sends the lists to \<open>spawn_reload_applier\<close>, or keeps the live ones when
  they could not be read.
\<close>

definition sighup :: "('w, 'z) runtime_scheme \<Rightarrow> file_env \<Rightarrow> reload_source \<Rightarrow> 's node \<Rightarrow> 'w \<Rightarrow> ('s node \<times> 'w) outcome" where
  "sighup rt fe src n w =
     (case reload fe src of
        Panics \<Rightarrow> Panics
      | Returns (Inl _) \<Rightarrow> Returns (n, w)
      | Returns (Inr a) \<Rightarrow> Returns (apply_reload rt a n w))"

section \<open>Starting\<close>

definition read_token :: "file_env \<Rightarrow> path option \<Rightarrow> config_error + rstr option" where
  "read_token fe file =
     (case file of
        None \<Rightarrow> Inr None
      | Some p \<Rightarrow>
          (case fe_read fe p of
             Inl err \<Rightarrow> Inl (TokenFileUnreadable p err)
           | Inr raw \<Rightarrow> (let token = trim raw in if token = [] then Inl (TokenFileEmpty p) else Inr (Some token))))"

definition parse_dead_letter_topic :: "rstr option \<Rightarrow> config_error + topic option" where
  "parse_dead_letter_topic raw =
     (case raw of
        None \<Rightarrow> Inr None
      | Some s \<Rightarrow> (case topic_from_str s of Inl err \<Rightarrow> Inl (InvalidDeadLetterTopic s err) | Inr t \<Rightarrow> Inr (Some t)))"

definition rate_limit_of :: "u32 option \<Rightarrow> u32 option \<Rightarrow> config_error + rate_limit_config option" where
  "rate_limit_of per_sec burst =
     (case per_sec of
        None \<Rightarrow> Inr None
      | Some r \<Rightarrow>
          if r = 0 then Inl RateZero
          else if burst = Some 0 then Inl BurstZero
          else Inr (Some \<lparr>rc_per_sec = r, rc_burst = (case burst of None \<Rightarrow> r | Some b \<Rightarrow> b)\<rparr>))"

definition tls_of :: "effective_config \<Rightarrow> u8 list set option \<Rightarrow> tls_config option" where
  "tls_of ec allowed =
     (case (ec_tls_cert ec, ec_tls_key ec, ec_tls_ca ec) of
        (Some cert, Some key, Some ca) \<Rightarrow> Some \<lparr>tls_cert = cert, tls_key = key, tls_ca = ca, tls_allowed_peers = allowed\<rparr>
      | _ \<Rightarrow> None)"

text \<open>\<open>main\<close> up to the start of the node: the options, the scrape token, and the source of later reloads.\<close>

definition main_setup ::
  "file_env \<Rightarrow> cli \<Rightarrow> config_error + (effective_config \<times> node_options \<times> rstr option \<times> reload_source)" where
  "main_setup fe c =
     (let config_path = option_or (cl_config c) (fe_default_path fe);
          existed = (case config_path of None \<Rightarrow> False | Some p \<Rightarrow> fe_metadata fe p = None) in
      and_then (config_load fe config_path) (\<lambda>f.
      and_then (merge c f) (\<lambda>ec.
      and_then (parse_allow_peer (ec_allow_peer ec)) (\<lambda>allowed.
      let tls = tls_of ec allowed in
      and_then (parse_topic_acl (str ''--topic-acl'') (ec_topic_acl ec)) (\<lambda>acl.
      and_then (parse_topic_acl (str ''--peer-topic-acl'') (ec_peer_topic_acl ec)) (\<lambda>pacl.
      and_then (parse_peer_topic_filter (ec_peer_topic_filter ec)) (\<lambda>ptf.
      and_then (read_token fe (ec_metrics_token_file ec)) (\<lambda>token.
      and_then (parse_dead_letter_topic (ec_dead_letter_topic ec)) (\<lambda>dead.
      and_then (rate_limit_of (ec_publish_rate_limit_per_sec ec) (ec_publish_rate_limit_burst ec)) (\<lambda>rate.
        Inr (ec,
          \<lparr>no_tls = tls, no_topic_acl = acl, no_peer_topic_acl = pacl, no_peer_topic_filter = ptf,
           no_data_dir = ec_data_dir ec, no_persisted_message_ttl = ec_persisted_message_ttl_secs ec,
           no_dead_letter_topic = dead, no_rate_limit = rate, no_reload = fe_sighup fe\<rparr>,
          token,
          \<lparr>rs_config_path = config_path, rs_existed_at_startup = existed, rs_cli_allow_peer = cf_allow_peer c,
           rs_cli_topic_acl = cf_topic_acl c, rs_cli_peer_topic_acl = cf_peer_topic_acl c,
           rs_cli_peer_topic_filter = cf_peer_topic_filter c, rs_tls_configured = (tls \<noteq> None)\<rparr>)))))))))))"

datatype main_error = MainConfig config_error | MainStart start_error

definition main ::
  "('w, 'z) runtime_scheme \<Rightarrow> 's message_store \<Rightarrow> ('tcp, 'srv, 'cli, 'name) tls_lib \<Rightarrow> (path \<Rightarrow> 's io_result) \<Rightarrow> 'l listener_env
     \<Rightarrow> file_env \<Rightarrow> cli \<Rightarrow> 'w \<Rightarrow> main_error + (reload_source \<times> 'l \<times> 's node \<times> 's background list \<times> 'w)" where
  "main rt ops lib open_store le fe c w =
     and_then (map_err MainConfig (main_setup fe c)) (\<lambda>(ec, opts, token, src).
     and_then (map_err MainStart (run_with_tls rt ops lib open_store le (ec_addr ec) (ec_peers ec) (ec_metrics_addr ec) opts token w)) (\<lambda>r.
       Inr (src, r)))"

section \<open>A reload replays the start\<close>

lemma merge_list_Nil [simp]: "merge_list [] f = f" "merge_list c [] = c"
  by (simp_all add: merge_list_def)

lemma merge_lists:
  assumes "merge c f = Inr ec"
  shows "ec_allow_peer ec = merge_list (cf_allow_peer c) (cf_allow_peer f)"
    "ec_topic_acl ec = merge_list (cf_topic_acl c) (cf_topic_acl f)"
    "ec_peer_topic_acl ec = merge_list (cf_peer_topic_acl c) (cf_peer_topic_acl f)"
    "ec_peer_topic_filter ec = merge_list (cf_peer_topic_filter c) (cf_peer_topic_filter f)"
    "ec_allow_peer ec \<noteq> [] \<Longrightarrow> ec_tls_cert ec \<noteq> None"
    "(ec_tls_cert ec \<noteq> None) = (ec_tls_key ec \<noteq> None)" "(ec_tls_key ec \<noteq> None) = (ec_tls_ca ec \<noteq> None)"
  using assms unfolding merge_def Let_def by (simp_all split: if_split_asm) (hypsubst, simp)+

lemma main_setup_parts:
  assumes "main_setup fe c = Inr (ec, opts, token, src)"
  shows "\<exists>f allowed. config_load fe (rs_config_path src) = Inr f \<and> merge c f = Inr ec
    \<and> parse_allow_peer (ec_allow_peer ec) = Inr allowed \<and> no_tls opts = tls_of ec allowed
    \<and> parse_topic_acl (str ''--topic-acl'') (ec_topic_acl ec) = Inr (no_topic_acl opts)
    \<and> parse_topic_acl (str ''--peer-topic-acl'') (ec_peer_topic_acl ec) = Inr (no_peer_topic_acl opts)
    \<and> parse_peer_topic_filter (ec_peer_topic_filter ec) = Inr (no_peer_topic_filter opts)"
  using assms by (clarsimp simp: main_setup_def Let_def and_then_Inr)

lemma main_setup_source:
  assumes "main_setup fe c = Inr (ec, opts, token, src)"
  shows "src = \<lparr>rs_config_path = option_or (cl_config c) (fe_default_path fe),
     rs_existed_at_startup = (case option_or (cl_config c) (fe_default_path fe) of None \<Rightarrow> False | Some p \<Rightarrow> fe_metadata fe p = None),
     rs_cli_allow_peer = cf_allow_peer c, rs_cli_topic_acl = cf_topic_acl c, rs_cli_peer_topic_acl = cf_peer_topic_acl c,
     rs_cli_peer_topic_filter = cf_peer_topic_filter c, rs_tls_configured = (no_tls opts \<noteq> None)\<rparr>"
  using assms by (clarsimp simp: main_setup_def Let_def and_then_Inr)

lemma reload_after_setup:
  assumes "main_setup fe c = Inr (ec, opts, token, src)"
  shows "reload fe src = Returns (Inr
    \<lparr>ra_topic_acl = no_topic_acl opts, ra_peer_topic_acl = no_peer_topic_acl opts,
     ra_allow_peer = Option.bind (no_tls opts) tls_allowed_peers, ra_peer_topic_filter = no_peer_topic_filter opts\<rparr>)"
proof -
  from main_setup_parts [OF assms] obtain f allowed where p: "config_load fe (rs_config_path src) = Inr f" "merge c f = Inr ec"
    "parse_allow_peer (ec_allow_peer ec) = Inr allowed" "no_tls opts = tls_of ec allowed"
    "parse_topic_acl (str ''--topic-acl'') (ec_topic_acl ec) = Inr (no_topic_acl opts)"
    "parse_topic_acl (str ''--peer-topic-acl'') (ec_peer_topic_acl ec) = Inr (no_peer_topic_acl opts)"
    "parse_peer_topic_filter (ec_peer_topic_filter ec) = Inr (no_peer_topic_filter opts)" by blast
  note src = main_setup_source [OF assms]
  note m = merge_lists [OF p(2)]
  have tls: "tls_of ec allowed \<noteq> None \<longleftrightarrow> ec_tls_cert ec \<noteq> None" using m(6,7) by (auto simp: tls_of_def split: option.splits)
  have allowed: "Option.bind (tls_of ec allowed) tls_allowed_peers = allowed"
  proof (cases "ec_allow_peer ec = []")
    case True
    then have "allowed = None" using p(3) by (simp add: parse_allow_peer_def)
    then show ?thesis by (auto simp: tls_of_def split: option.splits)
  next
    case False
    then show ?thesis using m(5-7) by (auto simp: tls_of_def split: option.splits)
  qed
  have "reload_lists src f = Inr \<lparr>ra_topic_acl = no_topic_acl opts, ra_peer_topic_acl = no_peer_topic_acl opts,
     ra_allow_peer = allowed, ra_peer_topic_filter = no_peer_topic_filter opts\<rparr>"
    using p m tls by (auto simp: reload_lists_def Let_def src)
  then show ?thesis using p(1,4) allowed by (auto simp: reload_def src split: option.splits)
qed

text \<open>A node without connections that has the lists of its options.\<close>

definition installed :: "node_options \<Rightarrow> 's node \<Rightarrow> bool" where
  "installed opts n \<longleftrightarrow> nd_topic_acl n = no_topic_acl opts \<and> nd_peer_topic_acl n = no_peer_topic_acl opts
     \<and> nd_peer_topic_filter n = no_peer_topic_filter opts \<and> nd_allowed_peers n = Option.bind (no_tls opts) tls_allowed_peers
     \<and> nd_connections n = [] \<and> nd_peer_links n = []"

lemma install_options_installed:
  assumes "install_options rt lib opts n = Inr n'" and "nd_allowed_peers n = None" "nd_connections n = []" "nd_peer_links n = []"
  shows "installed opts n'"
  using assms by (auto simp: install_options_def and_then_Inr installed_def split: option.splits)

lemma run_with_tls_installed:
  assumes "run_with_tls rt ops lib open_store le addr seeds metrics_addr opts token w = Inr (l, n, bg, w')"
  shows "installed opts n"
proof -
  from assms obtain store n0 w0 where b: "build_shared rt lib open_store (le_local_addr le l) opts w = Inr (store, n0, w0)"
    and n: "installed opts n \<longleftrightarrow> installed opts n0"
    by (auto simp: run_with_tls_def and_then_Inr rehydrate_node_def installed_def ready_def split: option.splits)
  from build_shared_Inr(3) [OF b] install_options_installed n show ?thesis by blast
qed

lemma apply_reload_same:
  assumes "nd_topic_acl n = ra_topic_acl a" "nd_peer_topic_acl n = ra_peer_topic_acl a" "nd_allowed_peers n = ra_allow_peer a"
    "nd_peer_topic_filter n = ra_peer_topic_filter a" "nd_connections n = []" "nd_peer_links n = []"
  shows "apply_reload rt a n w = (n, w)"
proof -
  have "install_acls a n = n" using assms by (simp add: install_acls_def)
  then show ?thesis using assms
    by (simp add: apply_reload_def reconcile_topic_acls_def disconnect_unless_def all_links_def Let_def)
qed

text \<open>C27. A reload replays the start: on unchanged files, the reload that a running node performs gives exactly the access
  lists that it started with, from flags or file alike, and leaves the node that \<open>run_with_tls\<close> set up as it is.\<close>

theorem reload_replays_startup:
  assumes "main rt ops lib open_store le fe c w0 = Inr (src, l, n, bg, w)"
  shows "reload fe src = Returns (Inr \<lparr>ra_topic_acl = nd_topic_acl n, ra_peer_topic_acl = nd_peer_topic_acl n,
      ra_allow_peer = nd_allowed_peers n, ra_peer_topic_filter = nd_peer_topic_filter n\<rparr>)
    \<and> sighup rt fe src n w' = Returns (n, w')"
proof -
  from assms obtain ec opts token where m: "main_setup fe c = Inr (ec, opts, token, src)"
    and r: "run_with_tls rt ops lib open_store le (ec_addr ec) (ec_peers ec) (ec_metrics_addr ec) opts token w0 = Inr (l, n, bg, w)"
    by (auto simp: main_def and_then_Inr)
  have "installed opts n" by (rule run_with_tls_installed [OF r])
  then have r: "reload fe src = Returns (Inr \<lparr>ra_topic_acl = nd_topic_acl n, ra_peer_topic_acl = nd_peer_topic_acl n,
      ra_allow_peer = nd_allowed_peers n, ra_peer_topic_filter = nd_peer_topic_filter n\<rparr>)" "nd_connections n = []" "nd_peer_links n = []"
    using reload_after_setup [OF m] by (auto simp: installed_def)
  then show ?thesis by (simp add: sighup_def apply_reload_same)
qed

text \<open>A file that holds one rule, and a command line that names it.\<close>

definition example_files :: file_env where
  "example_files = \<lparr>fe_read = (\<lambda>_. Inr []), fe_metadata = (\<lambda>_. None),
     fe_toml = (\<lambda>_. Some (config_default\<lparr>cf_topic_acl := [example_rule]\<rparr>)), fe_default_path = None, fe_sighup = True\<rparr>"

definition example_cli :: cli where
  "example_cli = config.extend config_default \<lparr>cl_config = Some (str ''node.toml'')\<rparr>"

lemma example_setup:
  "\<exists>ec opts token src. main_setup example_files example_cli = Inr (ec, opts, token, src) \<and> no_tls opts = None
     \<and> ec_metrics_addr ec = None \<and> no_data_dir opts = None \<and> no_topic_acl opts \<noteq> None \<and> rs_existed_at_startup src
     \<and> rs_config_path src = Some (str ''node.toml'')"
  by (simp add: main_setup_def example_files_def example_cli_def config.defs config_default_def config_load_def option_or_def merge_def
      merge_list_def parse_allow_peer_def parse_topic_acl_def topic_acl_parse_def example_rule_entry
      parse_peer_topic_filter_def read_token_def parse_dead_letter_topic_def rate_limit_of_def tls_of_def Let_def)

theorem reload_replays_startup_witness:
  "\<exists>src n bg w. main world_rt (sqlite_message_store example_env) example_tls (\<lambda>_. Inr sqlite_empty) example_listener
       example_files example_cli world0 = Inr (src, (), n, bg, w)
     \<and> nd_topic_acl n \<noteq> None \<and> sighup world_rt example_files src n w = Returns (n, w)"
proof -
  obtain ec opts token src where m: "main_setup example_files example_cli = Inr (ec, opts, token, src)"
    and o: "no_tls opts = None" "no_data_dir opts = None" "no_topic_acl opts \<noteq> None" "ec_metrics_addr ec = None" using example_setup by blast
  obtain n bg w where r: "main world_rt (sqlite_message_store example_env) example_tls (\<lambda>_. Inr sqlite_empty) example_listener
       example_files example_cli world0 = Inr (src, (), n, bg, w)" "nd_topic_acl n = no_topic_acl opts"
    using o by (cases "peer_id_new world_rt world0")
      (auto simp: main_def m run_with_tls_def build_shared_def attach_store_def install_options_def rehydrate_node_def metrics_task_def
        map_err_def example_listener_def ready_def)
  from reload_replays_startup [OF r(1)] r o(3) show ?thesis by fastforce
qed

text \<open>C28. A reload fails closed: whatever the files say later, the reload of a node never panics, and either installs all the
  lists it read or leaves the node untouched. It is left untouched when the file that existed at the start is gone,
  and when peers are to be allowed on a node that was started without TLS.\<close>

theorem reload_fails_closed:
  assumes "main_setup fe c = Inr (ec, opts, token, src)"
  shows "\<exists>n' w'. sighup rt fe' src n w = Returns (n', w')
    \<and> (n' = n \<and> w' = w
       \<or> (\<exists>f a. config_load fe' (rs_config_path src) = Inr f \<and> reload_lists src f = Inr a \<and> apply_reload rt a n w = (n', w')
            \<and> (rs_existed_at_startup src \<longrightarrow> (\<exists>p. rs_config_path src = Some p \<and> fe_metadata fe' p = None))
            \<and> (merge_list (cf_allow_peer c) (cf_allow_peer f) \<noteq> [] \<longrightarrow> no_tls opts \<noteq> None)))"
proof -
  note src = main_setup_source [OF assms]
  have "reload fe' src \<noteq> Panics" by (auto simp: reload_def src split: option.splits)
  then obtain r where r: "reload fe' src = Returns r" by (cases "reload fe' src") auto
  show ?thesis
  proof (cases r)
    case (Inl err)
    then show ?thesis by (simp add: sighup_def r)
  next
    case (Inr a)
    with r obtain f where f: "config_load fe' (rs_config_path src) = Inr f" "reload_lists src f = Inr a"
      "rs_existed_at_startup src \<longrightarrow> (\<exists>p. rs_config_path src = Some p \<and> fe_metadata fe' p = None)"
      by (auto simp: reload_def and_then_Inr split: if_splits option.splits)
    then have "merge_list (cf_allow_peer c) (cf_allow_peer f) \<noteq> [] \<longrightarrow> no_tls opts \<noteq> None"
      by (auto simp: reload_lists_def src Let_def split: if_splits)
    with f show ?thesis by (cases "apply_reload rt a n w") (auto simp: sighup_def r Inr)
  qed
qed

theorem reload_fails_closed_witness:
  "\<exists>ec opts token src. main_setup example_files example_cli = Inr (ec, opts, token, src)
     \<and> sighup world_rt (example_files\<lparr>fe_read := \<lambda>_. Inl FileNotFound, fe_metadata := \<lambda>_. Some FileNotFound\<rparr>) src example_node world0
         = Returns (example_node, world0)"
proof -
  let ?fe = "example_files\<lparr>fe_read := \<lambda>_. Inl FileNotFound, fe_metadata := \<lambda>_. Some FileNotFound\<rparr>"
  obtain ec opts token src where m: "main_setup example_files example_cli = Inr (ec, opts, token, src)"
    and s: "rs_existed_at_startup src" using example_setup by blast
  from reload_fails_closed [OF m, of world_rt ?fe example_node world0] s
  have "sighup world_rt ?fe src example_node world0 = Returns (example_node, world0)" by auto
  with m show ?thesis by blast
qed

text \<open>
  The guard against a file that is gone looks at the start only. A file that was created later, and read by a reload, can be
  removed: the next reload then clears every list that came from it, and the node is open.
\<close>

theorem late_config_file_cleared:
  assumes "main_setup fe c = Inr (ec, opts, token, src)" and "cl_config c = Some p" and "fe_metadata fe p \<noteq> None"
    and "cf_allow_peer c = []" "cf_topic_acl c = []" "cf_peer_topic_acl c = []" "cf_peer_topic_filter c = []"
    and "fe_read fe' p = Inl FileNotFound"
  shows "\<exists>n' w'. sighup rt fe' src n w = Returns (n', w') \<and> nd_topic_acl n' = None \<and> nd_peer_topic_acl n' = None
    \<and> nd_allowed_peers n' = None \<and> nd_peer_topic_filter n' = None"
proof -
  let ?a = "\<lparr>ra_topic_acl = None, ra_peer_topic_acl = None, ra_allow_peer = None, ra_peer_topic_filter = None\<rparr>"
  have "reload fe' src = Returns (Inr ?a)"
    using assms(2-) by (auto simp: main_setup_source [OF assms(1)] reload_def config_load_def option_or_def reload_lists_def
        config_default_def parse_allow_peer_def parse_topic_acl_def parse_peer_topic_filter_def)
  moreover obtain n' w' where "apply_reload rt ?a n w = (n', w')" by fastforce
  ultimately show ?thesis using apply_reload_effect [of rt ?a n w n' w'] by (simp add: sighup_def)
qed

end
