(* ===== verification/Wire.thy ===== *)
theory Wire
  imports Framing
begin

text \<open>
  The two ends of a connection's byte stream (\<open>write_loop\<close>, \<open>send_envelope\<close>, \<open>is_clean_disconnect\<close> and the reading part of
  \<open>run_connection\<close> in crates/thoth-mesh-node/src/connection.rs): the writer task that drains the outgoing queue, and the
  frames that the far end decodes until the stream ends.
\<close>

section \<open>The writer\<close>

definition send_envelope :: "codec \<Rightarrow> 's write_all \<Rightarrow> envelope \<Rightarrow> 's \<Rightarrow> 's option" where
  "send_envelope c wr e s =
     (case to_bytes c e of
        Inl _ \<Rightarrow> None
      | Inr bs \<Rightarrow> (case async_write_frame wr bs s of Inl _ \<Rightarrow> None | Inr s' \<Rightarrow> Some s'))"

text \<open>The writer task on everything its queue yields: it stops at the first message it cannot write.\<close>

fun write_loop :: "codec \<Rightarrow> 's write_all \<Rightarrow> envelope list \<Rightarrow> 's \<Rightarrow> 's" where
  "write_loop c wr [] s = s"
| "write_loop c wr (e # es) s = (case send_envelope c wr e s of None \<Rightarrow> s | Some s' \<Rightarrow> write_loop c wr es s')"

section \<open>The reader\<close>

definition is_clean_disconnect :: "framing_error \<Rightarrow> bool" where
  "is_clean_disconnect err = (case err of FramingIo UnexpectedEof \<Rightarrow> True | _ \<Rightarrow> False)"

datatype read_end = CleanDisconnect | ReadError framing_error | MalformedEnvelope decode_error

lemma read_frame_shorter: "async_read_frame slice_read bs = Inr (p, rest) \<Longrightarrow> length rest < length bs"
  by (auto simp: async_read_frame_def slice_read_def Let_def split: if_splits sum.splits)

text \<open>What the read loop of a connection decodes from the bytes of a stream, and why it ends.\<close>

function read_loop :: "codec \<Rightarrow> u8 list \<Rightarrow> envelope list \<times> read_end" where
  "read_loop c bs =
     (case async_read_frame slice_read bs of
        Inl err \<Rightarrow> ([], if is_clean_disconnect err then CleanDisconnect else ReadError err)
      | Inr (p, rest) \<Rightarrow>
          (case from_bytes c p of
             Inl err \<Rightarrow> ([], MalformedEnvelope err)
           | Inr e \<Rightarrow> (let (es, r) = read_loop c rest in (e # es, r))))"
  by pat_completeness auto
termination by (relation "measure (length \<circ> snd)") (auto intro: read_frame_shorter)

declare read_loop.simps [simp del]

section \<open>Messages on the wire\<close>

text \<open>The frames of a list of messages.\<close>

definition sendable :: "codec \<Rightarrow> envelope \<Rightarrow> bool" where
  "sendable c e \<longleftrightarrow> (\<exists>bs. to_bytes c e = Inr bs \<and> length bs \<le> 16777216)"

definition frame :: "codec \<Rightarrow> envelope \<Rightarrow> u8 list" where
  "frame c e = (case to_bytes c e of Inl _ \<Rightarrow> [] | Inr bs \<Rightarrow> u32_to_be_bytes (of_nat (length bs)) @ bs)"

definition frames :: "codec \<Rightarrow> envelope list \<Rightarrow> u8 list" where
  "frames c es = concat (map (frame c) es)"

lemma frames_simps [simp]: "frames c [] = []" "frames c (e # es) = frame c e @ frames c es"
  "frames c (es @ es') = frames c es @ frames c es'"
  by (simp_all add: frames_def)

lemma send_envelope_duplex:
  "send_envelope c duplex_write e (inp, out) = (if sendable c e then Some (inp, out @ frame c e) else None)"
proof (cases "to_bytes c e")
  case (Inr bs)
  show ?thesis
  proof (cases "length bs \<le> 16777216")
    case True
    with Inr show ?thesis by (simp add: send_envelope_def sendable_def frame_def async_same write_frame_duplex)
  next
    case False
    then obtain len where "write_frame duplex_write bs (inp, out) = Inl (FrameTooLarge len MAX_FRAME_LEN)"
      using write_frame_large [of bs duplex_write "(inp, out)"] by auto
    with Inr False show ?thesis by (simp add: send_envelope_def sendable_def async_same)
  qed
qed (simp add: send_envelope_def sendable_def)

lemma write_loop_frames:
  "write_loop c duplex_write es (inp, out) = (inp, out @ frames c (takeWhile (sendable c) es))"
  by (induction es arbitrary: out) (simp_all add: send_envelope_duplex)

lemma read_frame_frame:
  assumes "codec_round_trip c" and "sendable c e"
  obtains bs where "read_frame slice_read (frame c e @ rest) = Inr (bs, rest)" "from_bytes c bs = Inr e"
proof -
  obtain bs where bs: "to_bytes c e = Inr bs" "length bs \<le> 16777216" using assms(2) by (auto simp: sendable_def)
  then have "from_bytes c bs = Inr e" using from_bytes_to_bytes [OF assms(1)] by blast
  with bs show ?thesis by (intro that [of bs]) (simp_all add: frame_def read_frame_written)
qed

lemma read_loop_frames:
  assumes "codec_round_trip c" and "\<forall>e \<in> set es. sendable c e"
  shows "read_loop c (frames c es) = (es, CleanDisconnect)"
  using assms(2)
proof (induction es)
  case Nil
  then show ?case by (simp add: read_loop.simps [of c "[]"] async_read_frame_def slice_read_def is_clean_disconnect_def)
next
  case (Cons e es)
  then obtain bs where "read_frame slice_read (frame c e @ frames c es) = Inr (bs, frames c es)" "from_bytes c bs = Inr e"
    using read_frame_frame [OF assms(1), of e "frames c es"] by auto
  then show ?case using Cons by (subst read_loop.simps) (simp add: async_same)
qed

section \<open>Properties\<close>

text \<open>A queue reaches the far end in order: what the reader of a connection decodes from the bytes that the writer task wrote is exactly the queued messages, up to
  the first one that cannot be encoded or exceeds the frame limit, in order and without loss, and then a clean end of the stream.\<close>

theorem queue_reaches_far_end:
  assumes "codec_round_trip c"
  shows "read_loop c (snd (write_loop c duplex_write queue (inp, []))) = (takeWhile (sendable c) queue, CleanDisconnect)"
  using read_loop_frames [OF assms, of "takeWhile (sendable c) queue"]
  by (auto simp: write_loop_frames dest: set_takeWhileD)

theorem queue_reaches_far_end_witness:
  "let a = \<lparr>env_version = 1, env_id = MessageId [8], env_sender = PeerId [9], env_kind = StatusRequest\<rparr>;
       b = \<lparr>env_version = 1, env_id = MessageId [9], env_sender = PeerId [9], env_kind = TopicsRequest\<rparr>
   in read_loop (pair_codec a b) (snd (write_loop (pair_codec a b) duplex_write [a, b] ([], []))) = ([a, b], CleanDisconnect)"
proof -
  define a where "a = \<lparr>env_version = 1, env_id = MessageId [8], env_sender = PeerId [9], env_kind = StatusRequest\<rparr>"
  define b where "b = \<lparr>env_version = 1, env_id = MessageId [9], env_sender = PeerId [9], env_kind = TopicsRequest\<rparr>"
  have "sendable (pair_codec a b) a" "sendable (pair_codec a b) b" by (simp_all add: sendable_def to_bytes_def pair_codec_def)
  then show ?thesis using queue_reaches_far_end [OF pair_codec_round_trip [of a b], of "[a, b]" "[]"]
    unfolding Let_def a_def [symmetric] b_def [symmetric] by simp
qed

end
