(* ===== verification/Client.thy ===== *)
theory Client
  imports Configuration Wire
begin

text \<open>
  The command-line client (crates/thoth-mesh-cli/src/lib.rs): the exchanges of a command with a node over a stream.
  \<open>read_exact\<close> and \<open>write_all\<close> of the stream and the codec are parameters, as in the framing. Loops that
  receive until something arrives may run forever, which is the value \<open>None\<close>. The commands themselves are in \<open>Commands\<close>.
\<close>

section \<open>Arguments\<close>

datatype cli_error =
    InvalidTopicArg rstr topic_error | InvalidFilterArg rstr topic_filter_error | CertNeedsKey
  | PermissionDenied rstr | NoReply
  | SendEncode encode_error | SendFraming framing_error | RecvFraming framing_error | RecvDecode decode_error
  | ConfigFile file_error | ConfigParse path | TlsMaterial tls_error | ConnectFailed io_error | TlsConnectFailed tls_connect_error
  | StdinFailed io_error | StdoutFailed

datatype output_mode = TextOutput | RawOutput

datatype command =
    CmdPublish rstr rstr bool "rstr option"
  | CmdRequest rstr rstr "rstr option" output_mode u64
  | CmdSubscribe "rstr list" output_mode bool "rstr option" bool
  | CmdStatus | CmdTopics | CmdCompletions

definition parse_topic :: "rstr \<Rightarrow> cli_error + topic" where
  "parse_topic s = (case topic_from_str s of Inl err \<Rightarrow> Inl (InvalidTopicArg s err) | Inr t \<Rightarrow> Inr t)"

definition parse_filter :: "rstr \<Rightarrow> cli_error + topic_filter" where
  "parse_filter s = (case filter_from_str s of Inl err \<Rightarrow> Inl (InvalidFilterArg s err) | Inr f \<Rightarrow> Inr f)"

fun parse_filters :: "rstr list \<Rightarrow> cli_error + topic_filter list" where
  "parse_filters [] = Inr []"
| "parse_filters (s # ss) = and_then (parse_filter s) (\<lambda>f. and_then (parse_filters ss) (\<lambda>fs. Inr (f # fs)))"

text \<open>The check of the arguments before anything is dialled.\<close>

definition validate_command :: "command \<Rightarrow> cli_error + unit" where
  "validate_command cmd =
     (case cmd of
        CmdPublish topic _ _ _ \<Rightarrow> and_then (parse_topic topic) (\<lambda>_. Inr ())
      | CmdRequest topic _ _ _ _ \<Rightarrow> and_then (parse_topic topic) (\<lambda>_. Inr ())
      | CmdSubscribe filters _ _ _ _ \<Rightarrow> and_then (parse_filters filters) (\<lambda>_. Inr ())
      | _ \<Rightarrow> Inr ())"

record client_config =
  cc_addr :: "rstr option"
  cc_tls_ca :: "path option"
  cc_tls_cert :: "path option"
  cc_tls_key :: "path option"

record connection_options =
  co_addr :: rstr
  co_tls_ca :: "path option"
  co_tls_cert :: "path option"
  co_tls_key :: "path option"

definition connection_options_merge :: "client_config \<Rightarrow> client_config \<Rightarrow> cli_error + connection_options" where
  "connection_options_merge cli file =
     (let cert = option_or (cc_tls_cert cli) (cc_tls_cert file);
          key = option_or (cc_tls_key cli) (cc_tls_key file) in
      if (cert \<noteq> None) \<noteq> (key \<noteq> None) then Inl CertNeedsKey
      else Inr \<lparr>co_addr = (case option_or (cc_addr cli) (cc_addr file) of Some a \<Rightarrow> a | None \<Rightarrow> DEFAULT_ADDR),
                co_tls_ca = option_or (cc_tls_ca cli) (cc_tls_ca file), co_tls_cert = cert, co_tls_key = key\<rparr>)"

section \<open>Sending and receiving\<close>

definition client_send :: "codec \<Rightarrow> 's write_all \<Rightarrow> envelope \<Rightarrow> 's \<Rightarrow> cli_error + 's" where
  "client_send c wr e s =
     (case to_bytes c e of
        Inl err \<Rightarrow> Inl (SendEncode err)
      | Inr bs \<Rightarrow> (case async_write_frame wr bs s of Inl err \<Rightarrow> Inl (SendFraming err) | Inr s' \<Rightarrow> Inr s'))"

definition client_recv :: "codec \<Rightarrow> 's read_exact \<Rightarrow> 's \<Rightarrow> cli_error + (envelope \<times> 's)" where
  "client_recv c rd s =
     (case async_read_frame rd s of
        Inl err \<Rightarrow> Inl (RecvFraming err)
      | Inr (bs, s') \<Rightarrow> (case from_bytes c bs of Inl err \<Rightarrow> Inl (RecvDecode err) | Inr e \<Rightarrow> Inr (e, s')))"

section \<open>Subscribing\<close>

fun send_subscribes ::
  "('w, 'z) runtime_scheme \<Rightarrow> codec \<Rightarrow> 's write_all \<Rightarrow> peer_id \<Rightarrow> bool \<Rightarrow> rstr option \<Rightarrow> bool \<Rightarrow> topic_filter list
     \<Rightarrow> message_id set \<Rightarrow> 's \<Rightarrow> 'w \<Rightarrow> (cli_error + (message_id set \<times> 's)) \<times> 'w" where
  "send_subscribes rt c wr sender ack grp durable [] pending s w = (Inr (pending, s), w)"
| "send_subscribes rt c wr sender ack grp durable (f # fs) pending s w =
     (let (e, w') = envelope_new rt sender (Subscribe f ack grp durable) w in
      (case client_send c wr e s of
         Inl err \<Rightarrow> (Inl err, w')
       | Inr s' \<Rightarrow> send_subscribes rt c wr sender ack grp durable fs (insert (env_id e) pending) s' w'))"

text \<open>One message while replies are awaited: an acknowledgement, a refusal, a message to keep, or nothing of interest.\<close>

definition await_message ::
  "envelope \<Rightarrow> message_id set \<Rightarrow> envelope list \<Rightarrow> cli_error + (message_id set \<times> envelope list)" where
  "await_message e pending backlog =
     (case env_kind e of
        Ack i \<Rightarrow> Inr (pending - {i}, backlog)
      | Error (Some i) message \<Rightarrow> if i \<in> pending then Inl (PermissionDenied message) else Inr (pending, backlog)
      | Publish _ _ _ _ _ _ \<Rightarrow> Inr (pending, backlog @ [e])
      | _ \<Rightarrow> Inr (pending, backlog))"

partial_function (option) await_acks ::
  "codec \<Rightarrow> 's read_exact \<Rightarrow> message_id set \<Rightarrow> envelope list \<Rightarrow> 's \<Rightarrow> (cli_error + (envelope list \<times> 's)) option" where
  "await_acks c rd pending backlog s =
     (if pending = {} then Some (Inr (backlog, s))
      else (case client_recv c rd s of
              Inl err \<Rightarrow> Some (Inl err)
            | Inr (e, s') \<Rightarrow>
                (case await_message e pending backlog of
                   Inl err \<Rightarrow> Some (Inl err)
                 | Inr (pending', backlog') \<Rightarrow> await_acks c rd pending' backlog' s')))"

definition subscribe_all ::
  "('w, 'z) runtime_scheme \<Rightarrow> codec \<Rightarrow> 's read_exact \<Rightarrow> 's write_all \<Rightarrow> peer_id \<Rightarrow> topic_filter list \<Rightarrow> bool \<Rightarrow> rstr option
     \<Rightarrow> bool \<Rightarrow> 's \<Rightarrow> 'w \<Rightarrow> (cli_error + (envelope list \<times> 's)) option \<times> 'w" where
  "subscribe_all rt c rd wr sender filters ack grp durable s w =
     (case send_subscribes rt c wr sender ack grp durable filters {} s w of
        (Inl err, w') \<Rightarrow> (Some (Inl err), w')
      | (Inr (pending, s'), w') \<Rightarrow> (await_acks c rd pending [] s', w'))"

section \<open>Requests\<close>

definition hex_lower :: "nat \<Rightarrow> rchar" where
  "hex_lower n = (if n < 10 then 48 + n else 87 + n)"

text \<open>\<open>format!("reply.{}", ...)\<close>, with two hexadecimal digits per byte of a fresh id.\<close>

definition reply_name :: "message_id \<Rightarrow> rstr" where
  "reply_name i = str ''reply.'' @ concat (map (\<lambda>b. [hex_lower (unat b div 16), hex_lower (unat b mod 16)]) (message_id_as_bytes i))"

text \<open>A request up to the wait for its reply: the subscription to a fresh reply topic, then the publish.\<close>

definition request_send ::
  "('w, 'z) runtime_scheme \<Rightarrow> codec \<Rightarrow> 's read_exact \<Rightarrow> 's write_all \<Rightarrow> peer_id \<Rightarrow> topic \<Rightarrow> u8 list \<Rightarrow> rstr option \<Rightarrow> 's \<Rightarrow> 'w
     \<Rightarrow> (cli_error + (envelope \<times> 's)) option outcome \<times> 'w" where
  "request_send rt c rd wr sender topic payload content_type s w =
     (let (i, w1) = message_id_new rt w in
      (case topic_from_str (reply_name i) of
         Inl _ \<Rightarrow> (Panics, w1)
       | Inr reply_to \<Rightarrow>
           (case subscribe_all rt c rd wr sender [filter_of_topic reply_to] False None False s w1 of
              (None, w2) \<Rightarrow> (Returns None, w2)
            | (Some (Inl err), w2) \<Rightarrow> (Returns (Some (Inl err)), w2)
            | (Some (Inr (_, s1)), w2) \<Rightarrow>
                (let (e, w3) = envelope_new rt sender (Publish topic payload False content_type (Some reply_to) None) w2 in
                 (Returns (Some (case client_send c wr e s1 of Inl err \<Rightarrow> Inl err | Inr s2 \<Rightarrow> Inr (e, s2))), w3)))))"

definition replies_to :: "message_id \<Rightarrow> envelope \<Rightarrow> bool" where
  "replies_to i e \<longleftrightarrow> (case env_kind e of Publish _ _ _ _ _ (Some j) \<Rightarrow> j = i | _ \<Rightarrow> False)"

text \<open>
  The wait for the reply, on what arrives and when. A message that arrives at the deadline or later is late; nothing
  more arriving is a timeout too.
\<close>

fun await_response :: "message_id \<Rightarrow> nat \<Rightarrow> nat \<Rightarrow> (nat \<times> (cli_error + envelope)) list \<Rightarrow> cli_error + envelope" where
  "await_response i deadline now [] = Inl NoReply"
| "await_response i deadline now ((t, r) # rest) =
     (if deadline \<le> now then Inl NoReply
      else if deadline \<le> t then Inl NoReply
      else (case r of
              Inl err \<Rightarrow> Inl err
            | Inr e \<Rightarrow> if replies_to i e then Inr e else await_response i deadline (max now t) rest))"

section \<open>Queries\<close>

text \<open>The loops of \<open>request_status\<close> and \<open>request_topics\<close>, which differ in the reply they pick.\<close>

partial_function (option) await_reply ::
  "codec \<Rightarrow> 's read_exact \<Rightarrow> (message_kind \<Rightarrow> 'a option) \<Rightarrow> 's \<Rightarrow> (cli_error + ('a \<times> 's)) option" where
  "await_reply c rd pick s =
     (case client_recv c rd s of
        Inl err \<Rightarrow> Some (Inl err)
      | Inr (e, s') \<Rightarrow> (case pick (env_kind e) of Some x \<Rightarrow> Some (Inr (x, s')) | None \<Rightarrow> await_reply c rd pick s'))"

definition pick_status :: "message_id \<Rightarrow> message_kind \<Rightarrow> (peer_id \<times> rstr option \<times> peer_summary list \<times> metrics_summary) option" where
  "pick_status i k =
     (case k of StatusReply j node_id addr peers m \<Rightarrow> if j = i then Some (node_id, addr, peers, m) else None | _ \<Rightarrow> None)"

definition pick_topics :: "message_id \<Rightarrow> message_kind \<Rightarrow> topic_summary list option" where
  "pick_topics i k = (case k of TopicsReply j topics \<Rightarrow> if j = i then Some topics else None | _ \<Rightarrow> None)"

definition query ::
  "('w, 'z) runtime_scheme \<Rightarrow> codec \<Rightarrow> 's read_exact \<Rightarrow> 's write_all \<Rightarrow> peer_id \<Rightarrow> message_kind \<Rightarrow> (message_id \<Rightarrow> message_kind \<Rightarrow> 'a option)
     \<Rightarrow> 's \<Rightarrow> 'w \<Rightarrow> (cli_error + ('a \<times> 's)) option \<times> 'w" where
  "query rt c rd wr sender kind pick s w =
     (let (e, w') = envelope_new rt sender kind w in
      (case client_send c wr e s of
         Inl err \<Rightarrow> (Some (Inl err), w')
       | Inr s' \<Rightarrow> (await_reply c rd (pick (env_id e)) s', w')))"

definition request_status ::
  "('w, 'z) runtime_scheme \<Rightarrow> codec \<Rightarrow> 's read_exact \<Rightarrow> 's write_all \<Rightarrow> peer_id \<Rightarrow> 's \<Rightarrow> 'w
     \<Rightarrow> (cli_error + ((peer_id \<times> rstr option \<times> peer_summary list \<times> metrics_summary) \<times> 's)) option \<times> 'w" where
  "request_status rt c rd wr sender s w = query rt c rd wr sender StatusRequest pick_status s w"

definition request_topics ::
  "('w, 'z) runtime_scheme \<Rightarrow> codec \<Rightarrow> 's read_exact \<Rightarrow> 's write_all \<Rightarrow> peer_id \<Rightarrow> 's \<Rightarrow> 'w
     \<Rightarrow> (cli_error + (topic_summary list \<times> 's)) option \<times> 'w" where
  "request_topics rt c rd wr sender s w = query rt c rd wr sender TopicsRequest pick_topics s w"

section \<open>Exchanges on the wire\<close>

lemma client_recv_frame:
  assumes "codec_round_trip c" and "sendable c e"
  shows "client_recv c duplex_read (frame c e @ rest, out) = Inr (e, (rest, out))"
  by (rule read_frame_frame [OF assms, of rest]) (simp add: client_recv_def async_same read_frame_duplex)

lemma client_send_envelope: "send_envelope c wr e s = (case client_send c wr e s of Inl _ \<Rightarrow> None | Inr s' \<Rightarrow> Some s')"
  by (simp add: send_envelope_def client_send_def split: sum.splits)

lemma client_send_Inr: "client_send c duplex_write e (inp, out) = Inr s \<longleftrightarrow> sendable c e \<and> s = (inp, out @ frame c e)"
  using client_send_envelope [of c duplex_write e "(inp, out)"] send_envelope_duplex [of c e inp out]
  by (cases "client_send c duplex_write e (inp, out)") (auto split: if_splits)

lemmas client_send_sendable = client_send_Inr [THEN iffD2, OF conjI, OF _ refl]

lemma send_subscribes_Inr:
  assumes "send_subscribes rt c duplex_write sender ack grp durable fs P (inp, out) w = (Inr (P', s), w')"
  shows "\<exists>subs. map env_kind subs = map (\<lambda>f. Subscribe f ack grp durable) fs \<and> P' = P \<union> env_id ` set subs
    \<and> s = (inp, out @ frames c subs)"
  using assms
proof (induction fs arbitrary: P out w)
  case (Cons f fs)
  obtain e w1 where e: "envelope_new rt sender (Subscribe f ack grp durable) w = (e, w1)" by fastforce
  then obtain s1 where s1: "client_send c duplex_write e (inp, out) = Inr s1"
    using Cons.prems by (auto split: sum.splits)
  with e Cons.prems client_send_Inr [of c e inp out s1]
  have "send_subscribes rt c duplex_write sender ack grp durable fs (insert (env_id e) P) (inp, out @ frame c e) w1 = (Inr (P', s), w')"
    by simp
  from Cons.IH [OF this] obtain subs where "map env_kind subs = map (\<lambda>f. Subscribe f ack grp durable) fs"
    "P' = insert (env_id e) P \<union> env_id ` set subs" "s = (inp, (out @ frame c e) @ frames c subs)" by blast
  then show ?case using envelope_new_fields [OF e] by (intro exI [of _ "e # subs"]) simp
qed simp

text \<open>The requests that have not been acknowledged by a list of messages.\<close>

definition unanswered :: "message_id set \<Rightarrow> envelope list \<Rightarrow> message_id set" where
  "unanswered P es = {i \<in> P. \<forall>e \<in> set es. env_kind e \<noteq> Ack i}"

definition refuses :: "message_id set \<Rightarrow> envelope \<Rightarrow> bool" where
  "refuses P e \<longleftrightarrow> (\<exists>i m. env_kind e = Error (Some i) m \<and> i \<in> P)"

lemma await_message_kept:
  assumes "\<not> refuses P e"
  shows "await_message e P bl = Inr (unanswered P [e], bl @ filter is_publish [e])"
  using assms by (auto simp: await_message_def refuses_def unanswered_def is_publish_def split: message_kind.splits option.splits)

lemma await_acks_frames:
  assumes "codec_round_trip c" and "\<forall>e \<in> set es. sendable c e \<and> \<not> refuses P e"
    and "\<forall>k < length es. unanswered P (take k es) \<noteq> {}" and "unanswered P es = {}"
  shows "await_acks c duplex_read P bl (frames c es @ rest, out) = Some (Inr (bl @ filter is_publish es, (rest, out)))"
  using assms(2-)
proof (induction es arbitrary: P bl)
  case Nil
  then show ?case by (subst await_acks.simps) (simp add: unanswered_def)
next
  case (Cons e es)
  let ?P = "unanswered P [e]"
  have ne: "P \<noteq> {}" using Cons.prems(2) by (auto simp: unanswered_def)
  have un: "unanswered ?P es' = unanswered P (e # es')" for es' by (auto simp: unanswered_def)
  have "await_acks c duplex_read P bl (frames c (e # es) @ rest, out)
      = await_acks c duplex_read ?P (bl @ filter is_publish [e]) (frames c es @ rest, out)"
    using ne Cons.prems(1) client_recv_frame [OF assms(1), of e "frames c es @ rest" out] await_message_kept [of P e bl]
    by (subst await_acks.simps) simp
  also have "\<dots> = Some (Inr ((bl @ filter is_publish [e]) @ filter is_publish es, (rest, out)))"
  proof (rule Cons.IH)
    show "\<forall>e \<in> set es. sendable c e \<and> \<not> refuses ?P e" using Cons.prems(1) by (auto simp: refuses_def unanswered_def)
    show "\<forall>k < length es. unanswered ?P (take k es) \<noteq> {}" 
      using Cons.prems(2) [rule_format, of "Suc _"] by (simp add: un)
    show "unanswered ?P es = {}" using Cons.prems(3) by (simp add: un)
  qed
  finally show ?case by simp
qed

section \<open>Properties\<close>

text \<open>Subscribing to several filters loses no message. When the requests were written and the node answers, the client returns as soon as the
  last acknowledgement has arrived, whatever else arrives in between, with exactly the published messages that arrived by then, in order, and with nothing
  after them consumed; what it wrote is one request per filter.\<close>

theorem subscribe_all_loses_nothing:
  assumes "codec_round_trip c" and "\<forall>e \<in> set es. sendable c e \<and> \<not> refuses P e"
    and "send_subscribes rt c duplex_write sender ack grp durable fs {} (frames c es @ rest, out) w = (Inr (P, s), w')"
    and "\<forall>k < length es. unanswered P (take k es) \<noteq> {}" and "unanswered P es = {}"
  shows "\<exists>subs. subscribe_all rt c duplex_read duplex_write sender fs ack grp durable (frames c es @ rest, out) w
      = (Some (Inr (filter is_publish es, (rest, out @ frames c subs))), w')
    \<and> map env_kind subs = map (\<lambda>f. Subscribe f ack grp durable) fs"
proof -
  from send_subscribes_Inr [OF assms(3)] obtain subs where subs: "map env_kind subs = map (\<lambda>f. Subscribe f ack grp durable) fs"
    "s = (frames c es @ rest, out @ frames c subs)" by blast
  with await_acks_frames [OF assms(1,2,4,5), of "[]" rest "out @ frames c subs"] assms(3) show ?thesis
    by (auto simp: subscribe_all_def)
qed

text \<open>A codec that knows the messages of a table, by their position.\<close>

definition table_codec :: "envelope list \<Rightarrow> codec" where
  "table_codec es =
     \<lparr>cbor_encode = (\<lambda>e. map_option (\<lambda>i. [of_nat i]) (position (\<lambda>x. x = e) es)),
      cbor_decode = (\<lambda>bs. case bs of [b] \<Rightarrow> if unat b < length es then Some (es ! unat b) else None | _ \<Rightarrow> None)\<rparr>"

lemma table_codec_round_trip: "length es \<le> 256 \<Longrightarrow> codec_round_trip (table_codec es)"
  by (auto simp: codec_round_trip_def table_codec_def unat_of_nat dest!: position_Some)

lemma table_codec_sendable: "e \<in> set es \<Longrightarrow> sendable (table_codec es) e"
  by (cases "position (\<lambda>x. x = e) es") (auto simp: sendable_def to_bytes_def table_codec_def position_None)

theorem subscribe_all_loses_nothing_witness:
  "let f = TopicFilter [97];
       sub = fst (envelope_new world_rt (PeerId [1]) (Subscribe f False None False) world0);
       pub = \<lparr>env_version = 1, env_id = MessageId [8], env_sender = PeerId [9], env_kind = Publish (Topic [97]) [1] False None None None\<rparr>;
       ok = \<lparr>env_version = 1, env_id = MessageId [9], env_sender = PeerId [9], env_kind = Ack (env_id sub)\<rparr>;
       c = table_codec [sub, pub, ok]
   in \<exists>subs w'. subscribe_all world_rt c duplex_read duplex_write (PeerId [1]) [f] False None False (frames c [pub, ok] @ [], []) world0
        = (Some (Inr ([pub], ([], [] @ frames c subs))), w')"
proof -
  define f where "f = TopicFilter [97]"
  obtain sub w1 where sub: "envelope_new world_rt (PeerId [1]) (Subscribe f False None False) world0 = (sub, w1)" by fastforce
  define pub where "pub = \<lparr>env_version = 1, env_id = MessageId [8], env_sender = PeerId [9], env_kind = Publish (Topic [97]) [1] False None None None\<rparr>"
  define ok where "ok = \<lparr>env_version = 1, env_id = MessageId [9], env_sender = PeerId [9], env_kind = Ack (env_id sub)\<rparr>"
  define c where "c = table_codec [sub, pub, ok]"
  have c: "codec_round_trip c" "\<forall>e \<in> set [pub, ok]. sendable c e \<and> \<not> refuses {env_id sub} e" "sendable c sub"
    by (auto simp: c_def table_codec_sendable refuses_def pub_def ok_def intro: table_codec_round_trip)
  have "send_subscribes world_rt c duplex_write (PeerId [1]) False None False [f] {} (frames c [pub, ok] @ [], []) world0
      = (Inr ({env_id sub}, (frames c [pub, ok] @ [], [] @ frame c sub)), w1)"
    using client_send_sendable [OF c(3)] by (simp add: sub)
  moreover have "\<forall>k < length [pub, ok]. unanswered {env_id sub} (take k [pub, ok]) \<noteq> {}"
    by (auto simp: unanswered_def less_Suc_eq pub_def)
  moreover have "unanswered {env_id sub} [pub, ok] = {}" by (auto simp: unanswered_def ok_def)
  moreover have "filter is_publish [pub, ok] = [pub]" by (simp add: is_publish_def pub_def ok_def)
  ultimately show ?thesis
    using subscribe_all_loses_nothing [where P = "{env_id sub}" and rest = "[]" and out = "[]" and es = "[pub, ok]", OF c(1,2)]
    unfolding Let_def f_def [symmetric] sub fst_conv pub_def [symmetric] ok_def [symmetric] c_def [symmetric] by metis
qed

lemma reply_name_valid:
  assumes "length (message_id_as_bytes i) = 16"
  shows "topic_from_str (reply_name i) = Inr (Topic (reply_name i))"
proof -
  let ?hex = "concat (map (\<lambda>b. [hex_lower (unat b div 16), hex_lower (unat b mod 16)]) (message_id_as_bytes i))"
  have digit: "is_valid_topic_char (hex_lower n) \<and> hex_lower n < 128" if "n < 16" for n
    using that by (auto simp: hex_lower_def is_valid_topic_char_def is_ascii_alphanumeric_def is_ascii_digit_def is_ascii_lower_def is_ascii_upper_def)
  have nibble: "unat b div 16 < 16" for b :: u8 using unat_u8 [of b] by simp
  have hex: "\<forall>x \<in> set ?hex. is_valid_topic_char x \<and> x < 128" using digit nibble by auto
  have pre: "\<forall>x \<in> set (str ''reply.''). is_valid_topic_char x \<and> x < 128"
    by (simp add: str_def is_valid_topic_char_def is_ascii_alphanumeric_def is_ascii_lower_def)
  have "length (reply_name i) = 38" using assms by (simp add: reply_name_def str_def length_concat comp_def sum_list_triv)
  moreover have "\<forall>x \<in> set (reply_name i). is_valid_topic_char x \<and> x < 128" using hex pre by (auto simp: reply_name_def)
  ultimately show ?thesis
    using str_len_ascii [of "reply_name i"] by (auto simp: topic_from_str_Inr wf_topic_iff MAX_TOPIC_LEN_def)
qed

text \<open>A request returns the first reply in time and nothing else. On messages in the order of their arrival, the wait gives the first message before the deadline
  that replies to the request, unless reading failed before it; without one it reports a timeout. Building the reply topic never panics.\<close>

theorem request_gets_first_reply:
  assumes "sorted (map fst arrivals)" and "now < deadline" and "\<And>w. length (fst (rt_now_v7 rt w)) = 16"
  shows "await_response i deadline now arrivals =
      (case find (\<lambda>(t, r). case r of Inl _ \<Rightarrow> True | Inr e \<Rightarrow> replies_to i e) (takeWhile (\<lambda>(t, _). t < deadline) arrivals) of
         None \<Rightarrow> Inl NoReply | Some (_, r) \<Rightarrow> r)
    \<and> fst (request_send rt c rd wr sender t payload ct s w) \<noteq> Panics"
proof -
  have "await_response i deadline now arrivals =
      (case find (\<lambda>(t, r). case r of Inl _ \<Rightarrow> True | Inr e \<Rightarrow> replies_to i e) (takeWhile (\<lambda>(t, _). t < deadline) arrivals) of
         None \<Rightarrow> Inl NoReply | Some (_, r) \<Rightarrow> r)"
    using assms(1,2) by (induction arrivals arbitrary: now) (auto split: sum.splits)
  moreover obtain j w1 where j: "message_id_new rt w = (j, w1)" by fastforce
  then have "length (message_id_as_bytes j) = 16"
    using assms(3) [of w] by (auto simp: message_id_new_def message_id_as_bytes_def split: prod.splits)
  then have "fst (request_send rt c rd wr sender t payload ct s w) \<noteq> Panics"
    by (simp add: request_send_def j reply_name_valid Let_def split: prod.splits option.splits sum.splits)
  ultimately show ?thesis by blast
qed

theorem request_gets_first_reply_witness:
  "await_response (MessageId [7]) 5 0
     [(1, Inr \<lparr>env_version = 1, env_id = MessageId [8], env_sender = PeerId [9], env_kind = Ack (MessageId [6])\<rparr>),
      (3, Inr \<lparr>env_version = 1, env_id = MessageId [9], env_sender = PeerId [9], env_kind = Publish (Topic [97]) [] False None None (Some (MessageId [7]))\<rparr>)]
   = Inr \<lparr>env_version = 1, env_id = MessageId [9], env_sender = PeerId [9], env_kind = Publish (Topic [97]) [] False None None (Some (MessageId [7]))\<rparr>"
proof -
  let ?a = "[(1 :: nat, Inr \<lparr>env_version = 1, env_id = MessageId [8], env_sender = PeerId [9], env_kind = Ack (MessageId [6])\<rparr>),
      (3, Inr \<lparr>env_version = 1, env_id = MessageId [9], env_sender = PeerId [9], env_kind = Publish (Topic [97]) [] False None None (Some (MessageId [7]))\<rparr>)]"
  have "sorted (map fst ?a)" "(0 :: nat) < 5" "\<And>w. length (fst (rt_now_v7 world_rt w)) = 16" by (simp_all add: world_rt_def)
  from request_gets_first_reply [OF this, of "MessageId [7]"] show ?thesis by (simp add: replies_to_def)
qed

end
