(* ===== verification/Utf8.thy ===== *)
theory Utf8
  imports Prelude
begin

text \<open>
  Text and bytes: \<open>str::as_bytes\<close> and \<open>String::from_utf8_lossy\<close> of the standard library, which the client and the metrics
  endpoint use. Decoding what was encoded gives the text back; bytes that are no text become replacement characters.
\<close>

section \<open>Encoding\<close>

definition utf8_char :: "rchar \<Rightarrow> u8 list" where
  "utf8_char c =
     (if c < 128 then [of_nat c]
      else if c < 2048 then [of_nat (192 + c div 64), of_nat (128 + c mod 64)]
      else if c < 65536 then [of_nat (224 + c div 4096), of_nat (128 + c div 64 mod 64), of_nat (128 + c mod 64)]
      else [of_nat (240 + c div 262144), of_nat (128 + c div 4096 mod 64), of_nat (128 + c div 64 mod 64), of_nat (128 + c mod 64)])"

definition as_bytes :: "rstr \<Rightarrow> u8 list" where
  "as_bytes s = concat (map utf8_char s)"

lemma length_as_bytes: "length (as_bytes s) = str_len s"
  by (induction s) (simp_all add: as_bytes_def str_len_def utf8_char_def utf8_width_def)

lemma as_bytes_append [simp]: "as_bytes (s @ t) = as_bytes s @ as_bytes t"
  by (simp add: as_bytes_def)

text \<open>The code points that a \<open>char\<close> can be.\<close>

definition is_scalar :: "rchar \<Rightarrow> bool" where
  "is_scalar c \<longleftrightarrow> c < 55296 \<or> 57344 \<le> c \<and> c < 1114112"

section \<open>Decoding\<close>

definition is_cont :: "nat \<Rightarrow> bool" where
  "is_cont b \<longleftrightarrow> 128 \<le> b \<and> b < 192"

text \<open>
  The next character of a byte sequence that is not empty, with the number of bytes it takes, or \<open>None\<close> with the length of the
  part that is replaced. A byte past the end counts as 0, which continues nothing.
\<close>

definition byte_at :: "u8 list \<Rightarrow> nat \<Rightarrow> nat" where
  "byte_at bs i = (if i < length bs then unat (bs ! i) else 0)"

definition second_ok :: "nat \<Rightarrow> nat \<Rightarrow> bool" where
  "second_ok a b \<longleftrightarrow>
     (if a = 224 then 160 \<le> b \<and> b < 192 else if a = 237 then 128 \<le> b \<and> b < 160
      else if a = 240 then 144 \<le> b \<and> b < 192 else if a = 244 then 128 \<le> b \<and> b < 144 else is_cont b)"

definition utf8_next :: "u8 list \<Rightarrow> rchar option \<times> nat" where
  "utf8_next bs =
     (let a = byte_at bs 0; b = byte_at bs 1; c = byte_at bs 2; d = byte_at bs 3 in
      if a < 128 then (Some a, 1)
      else if 194 \<le> a \<and> a < 224 then
        (if \<not> is_cont b then (None, 1) else (Some ((a - 192) * 64 + (b - 128)), 2))
      else if 224 \<le> a \<and> a < 240 then
        (if \<not> second_ok a b then (None, 1)
         else if \<not> is_cont c then (None, 2)
         else (Some ((a - 224) * 4096 + (b - 128) * 64 + (c - 128)), 3))
      else if 240 \<le> a \<and> a < 245 then
        (if \<not> second_ok a b then (None, 1)
         else if \<not> is_cont c then (None, 2)
         else if \<not> is_cont d then (None, 3)
         else (Some ((a - 240) * 262144 + (b - 128) * 4096 + (c - 128) * 64 + (d - 128)), 4))
      else (None, 1))"

definition REPLACEMENT :: rchar where
  "REPLACEMENT = 65533"

lemma utf8_next_pos: "0 < snd (utf8_next bs)"
  by (simp add: utf8_next_def Let_def)

function from_utf8_lossy :: "u8 list \<Rightarrow> rstr" where
  "from_utf8_lossy [] = []"
| "from_utf8_lossy (b # bs) =
     (let (c, n) = utf8_next (b # bs)
      in (case c of None \<Rightarrow> REPLACEMENT | Some x \<Rightarrow> x) # from_utf8_lossy (drop n (b # bs)))"
  by pat_completeness auto
termination
proof (relation "measure length")
  fix b :: u8 and bs x c n
  assume "x = utf8_next (b # bs)" "(c, n) = x"
  then have "0 < n" using utf8_next_pos [of "b # bs"] by (metis snd_conv)
  then show "(drop n (b # bs), b # bs) \<in> measure length" by simp
qed simp

declare from_utf8_lossy.simps(2) [simp del]

section \<open>The round trip\<close>

lemma byte_at_simps [simp]:
  "byte_at (b # bs) 0 = unat b" "byte_at (b # bs) (Suc i) = byte_at bs i"
  by (simp_all add: byte_at_def)

lemma unat_byte: "n < 256 \<Longrightarrow> unat (of_nat n :: u8) = n"
  by (simp add: unat_of_nat)

lemma sextets:
  obtains p q r where "c = p * 4096 + q * 64 + r" "q < 64" "r < (64 :: nat)"
    "c div 4096 = p" "c div 64 mod 64 = q" "c mod 64 = r"
proof -
  have "c div 64 * 64 + c mod 64 = c" "c div 4096 * 64 + c div 64 mod 64 = c div 64"
    using div_mult_mod_eq [of "c div 64" 64] by (simp_all add: div_mult2_eq [of c 64 64, simplified])
  then have "c = c div 4096 * 4096 + c div 64 mod 64 * 64 + c mod 64" by linarith
  then show ?thesis using that [of "c div 4096" "c div 64 mod 64" "c mod 64"] by simp
qed

lemma utf8_next_encoded:
  assumes "is_scalar c"
  shows "utf8_next (utf8_char c @ rest) = (Some c, length (utf8_char c))"
proof -
  have range: "c < 1114112" using assms by (auto simp: is_scalar_def)
  then consider "c < 128" | "128 \<le> c" "c < 2048" | "2048 \<le> c" "c < 65536" | "65536 \<le> c" "c < 1114112"
    by linarith
  then show ?thesis
  proof cases
    case 1
    then show ?thesis by (simp add: utf8_next_def utf8_char_def unat_byte)
  next
    case 2
    then have "2 \<le> c div 64" "c div 64 < 32" by linarith+
    with 2 show ?thesis by (simp add: utf8_next_def utf8_char_def unat_byte is_cont_def Let_def numeral_2_eq_2 numeral_3_eq_3 del: of_nat_add)
  next
    case 3
    obtain p q r where c: "c = p * 4096 + q * 64 + r" "q < 64" "r < 64" "c div 4096 = p" "c div 64 mod 64 = q" "c mod 64 = r"
      by (rule sextets)
    have p: "p < 16" using 3(2) c(1) by linarith
    have "second_ok (224 + p) (128 + q)"
      using assms c(1-3) 3 by (auto simp: second_ok_def is_cont_def is_scalar_def)
    with 3 c(2-6) p show ?thesis
      by (simp add: utf8_next_def utf8_char_def unat_byte is_cont_def Let_def numeral_2_eq_2 numeral_3_eq_3 c(1) [symmetric] del: of_nat_add)
  next
    case 4
    obtain p q r where c: "c = p * 4096 + q * 64 + r" "q < 64" "r < 64" "c div 4096 = p" "c div 64 mod 64 = q" "c mod 64 = r"
      by (rule sextets)
    define o1 o2 where o: "o1 = p div 64" "o2 = p mod 64"
    have p: "p = o1 * 64 + o2" "o2 < 64" by (simp_all add: o)
    have d: "c div 262144 = o1" "c div 4096 mod 64 = o2" using c(4) o by (simp_all add: div_mult2_eq [of c 4096 64, simplified])
    have "o1 < 5" using 4(2) c(1) p by linarith
    moreover have "second_ok (240 + o1) (128 + o2)"
      using c(1-3) p 4 by (auto simp: second_ok_def is_cont_def)
    moreover have "o1 * 262144 + o2 * 4096 + q * 64 + r = c" using c(1) p by simp
    ultimately show ?thesis using 4 c(2,3,5,6) p(2)
      by (simp add: utf8_next_def utf8_char_def unat_byte is_cont_def Let_def numeral_2_eq_2 numeral_3_eq_3 d del: of_nat_add)
  qed
qed

lemma from_utf8_lossy_encoded:
  assumes "is_scalar c"
  shows "from_utf8_lossy (utf8_char c @ rest) = c # from_utf8_lossy rest"
proof -
  obtain b bs where b: "utf8_char c = b # bs" by (cases "utf8_char c") (auto simp: utf8_char_def split: if_splits)
  have n: "utf8_next (b # bs @ rest) = (Some c, Suc (length bs))" using utf8_next_encoded [OF assms, of rest] unfolding b by simp
  have "from_utf8_lossy (b # bs @ rest) = c # from_utf8_lossy (drop (Suc (length bs)) (b # bs @ rest))"
    unfolding from_utf8_lossy.simps(2) [of b "bs @ rest"] n by simp
  then show ?thesis unfolding b by simp
qed

lemma from_utf8_lossy_as_bytes: "\<forall>c \<in> set s. is_scalar c \<Longrightarrow> from_utf8_lossy (as_bytes s) = s"
  by (induction s) (simp_all add: as_bytes_def from_utf8_lossy_encoded)

lemma as_bytes_inj:
  assumes "\<forall>c \<in> set s. is_scalar c" and "\<forall>c \<in> set t. is_scalar c" and "as_bytes s = as_bytes t"
  shows "s = t"
  using from_utf8_lossy_as_bytes [OF assms(1)] from_utf8_lossy_as_bytes [OF assms(2)] unfolding assms(3) by (rule trans [OF sym])

end
