(* ===== verification/Commands.thy ===== *)
theory Commands
  imports Client Utf8
begin

text \<open>
  The commands of the client, from the parsed command line to what is printed (crates/thoth-mesh-cli/src/lib.rs: \<open>run\<close> and the
  functions it calls; config.rs). The parser of the command line and the generator of completions are parameters, as are the socket,
  the standard input, the arrival of messages in time and the moment of an interrupt.
\<close>

section \<open>The terminal\<close>

text \<open>
  What was written to the standard output and the standard error. \<open>println!\<close> panics when the output is closed, where \<open>write_all\<close>
  returns an error; the standard error is taken to be open.
\<close>

record terminal =
  tm_stdout :: "u8 list"
  tm_stderr :: "u8 list"
  tm_closed :: bool

definition println :: "rstr \<Rightarrow> terminal \<Rightarrow> unit outcome \<times> terminal" where
  "println s tm = (if tm_closed tm then (Panics, tm) else (Returns (), tm\<lparr>tm_stdout := tm_stdout tm @ as_bytes (s @ [10])\<rparr>))"

definition eprintln :: "rstr \<Rightarrow> terminal \<Rightarrow> terminal" where
  "eprintln s tm = tm\<lparr>tm_stderr := tm_stderr tm @ as_bytes (s @ [10])\<rparr>"

definition write_stdout :: "u8 list \<Rightarrow> terminal \<Rightarrow> (cli_error + unit) \<times> terminal" where
  "write_stdout bs tm = (if tm_closed tm then (Inl StdoutFailed, tm) else (Inr (), tm\<lparr>tm_stdout := tm_stdout tm @ bs\<rparr>))"

fun println_all :: "rstr list \<Rightarrow> terminal \<Rightarrow> unit outcome \<times> terminal" where
  "println_all [] tm = (Returns (), tm)"
| "println_all (s # ss) tm = (case println s tm of (Panics, tm') \<Rightarrow> (Panics, tm') | (Returns _, tm') \<Rightarrow> println_all ss tm')"

text \<open>\<open>{:<32}\<close>.\<close>

definition pad32 :: "rstr \<Rightarrow> rstr" where
  "pad32 s = s @ replicate (32 - length s) 32"

section \<open>Payloads and messages\<close>

text \<open>\<open>stdin\<close> is the result of reading the standard input to its end.\<close>

definition read_payload :: "rstr \<Rightarrow> io_error + u8 list \<Rightarrow> cli_error + u8 list" where
  "read_payload arg stdin =
     (if arg = str ''-'' then map_err StdinFailed stdin else Inr (as_bytes arg))"

definition content_hint :: "rstr option \<Rightarrow> rstr" where
  "content_hint ct = (case ct of Some c \<Rightarrow> str '' ('' @ c @ str '')'' | None \<Rightarrow> [])"

definition print_if_publish :: "envelope \<Rightarrow> output_mode \<Rightarrow> terminal \<Rightarrow> (cli_error + message_id option) outcome \<times> terminal" where
  "print_if_publish e mode tm =
     (case env_kind e of
        Publish t payload _ ct _ _ \<Rightarrow>
          (case mode of
             TextOutput \<Rightarrow>
               (case println (str ''['' @ topic_str t @ str '']'' @ content_hint ct @ str '' '' @ from_utf8_lossy payload) tm of
                  (Panics, tm') \<Rightarrow> (Panics, tm') | (Returns _, tm') \<Rightarrow> (Returns (Inr (Some (env_id e))), tm'))
           | RawOutput \<Rightarrow>
               (let tm1 = eprintln (str ''['' @ topic_str t @ str '']'' @ content_hint ct @ str '' '' @ decimal (length payload) @ str '' bytes'') tm
                in (case write_stdout payload tm1 of
                      (Inl err, tm') \<Rightarrow> (Returns (Inl err), tm') | (Inr _, tm') \<Rightarrow> (Returns (Inr (Some (env_id e))), tm'))))
      | _ \<Rightarrow> (Returns (Inr None), tm))"

definition print_and_maybe_ack ::
  "('w, 'z) runtime_scheme \<Rightarrow> codec \<Rightarrow> 's write_all \<Rightarrow> peer_id \<Rightarrow> envelope \<Rightarrow> output_mode \<Rightarrow> bool \<Rightarrow> 's \<Rightarrow> terminal \<Rightarrow> 'w
     \<Rightarrow> (cli_error + 's) outcome \<times> terminal \<times> 'w" where
  "print_and_maybe_ack rt c wr sender e mode ack s tm w =
     (case print_if_publish e mode tm of
        (Panics, tm') \<Rightarrow> (Panics, tm', w)
      | (Returns (Inl err), tm') \<Rightarrow> (Returns (Inl err), tm', w)
      | (Returns (Inr None), tm') \<Rightarrow> (Returns (Inr s), tm', w)
      | (Returns (Inr (Some i)), tm') \<Rightarrow>
          if ack then (let (r, w') = envelope_new rt sender (Ack i) w in (Returns (client_send c wr r s), tm', w'))
          else (Returns (Inr s), tm', w))"

section \<open>Subscribing\<close>

fun print_all ::
  "('w, 'z) runtime_scheme \<Rightarrow> codec \<Rightarrow> 's write_all \<Rightarrow> peer_id \<Rightarrow> output_mode \<Rightarrow> bool \<Rightarrow> envelope list \<Rightarrow> 's \<Rightarrow> terminal \<Rightarrow> 'w
     \<Rightarrow> (cli_error + 's) outcome \<times> terminal \<times> 'w" where
  "print_all rt c wr sender mode ack [] s tm w = (Returns (Inr s), tm, w)"
| "print_all rt c wr sender mode ack (e # es) s tm w =
     (case print_and_maybe_ack rt c wr sender e mode ack s tm w of
        (Returns (Inr s'), tm', w') \<Rightarrow> print_all rt c wr sender mode ack es s' tm' w'
      | r \<Rightarrow> r)"

text \<open>The live loop, up to an interrupt after \<open>k\<close> messages.\<close>

fun live_loop ::
  "('w, 'z) runtime_scheme \<Rightarrow> codec \<Rightarrow> 's read_exact \<Rightarrow> 's write_all \<Rightarrow> peer_id \<Rightarrow> output_mode \<Rightarrow> bool \<Rightarrow> nat \<Rightarrow> 's \<Rightarrow> terminal \<Rightarrow> 'w
     \<Rightarrow> (cli_error + 's) outcome \<times> terminal \<times> 'w" where
  "live_loop rt c rd wr sender mode ack 0 s tm w = (Returns (Inr s), tm, w)"
| "live_loop rt c rd wr sender mode ack (Suc k) s tm w =
     (case client_recv c rd s of
        Inl err \<Rightarrow> (Returns (Inl err), tm, w)
      | Inr (e, s') \<Rightarrow>
          (case print_and_maybe_ack rt c wr sender e mode ack s' tm w of
             (Returns (Inr s2), tm', w') \<Rightarrow> live_loop rt c rd wr sender mode ack k s2 tm' w'
           | r \<Rightarrow> r))"

text \<open>\<open>join(", ")\<close>.\<close>

fun join_str :: "rstr \<Rightarrow> rstr list \<Rightarrow> rstr" where
  "join_str sep [] = []"
| "join_str sep [s] = s"
| "join_str sep (s # ss) = s @ sep @ join_str sep ss"

definition banner :: "topic_filter list \<Rightarrow> rstr" where
  "banner filters =
     str ''Subscribed to '' @ join_str (str '', '') (map filter_str filters) @ str ''. Waiting for messages (Ctrl-C to stop)...''"

definition print_banner :: "output_mode \<Rightarrow> rstr \<Rightarrow> terminal \<Rightarrow> unit outcome \<times> terminal" where
  "print_banner mode text tm = (case mode of TextOutput \<Rightarrow> println text tm | RawOutput \<Rightarrow> (Returns (), eprintln text tm))"

definition subscribe_and_print ::
  "('w, 'z) runtime_scheme \<Rightarrow> codec \<Rightarrow> 's read_exact \<Rightarrow> 's write_all \<Rightarrow> peer_id \<Rightarrow> topic_filter list \<Rightarrow> output_mode \<Rightarrow> bool \<Rightarrow> rstr option
     \<Rightarrow> bool \<Rightarrow> nat \<Rightarrow> 's \<Rightarrow> terminal \<Rightarrow> 'w \<Rightarrow> (cli_error + 's) option outcome \<times> terminal \<times> 'w" where
  "subscribe_and_print rt c rd wr sender filters mode ack grp durable k s tm w =
     (case subscribe_all rt c rd wr sender filters ack grp durable s w of
        (None, w1) \<Rightarrow> (Returns None, tm, w1)
      | (Some (Inl err), w1) \<Rightarrow> (Returns (Some (Inl err)), tm, w1)
      | (Some (Inr (backlog, s1)), w1) \<Rightarrow>
          (case print_banner mode (banner filters) tm of
             (Panics, tm1) \<Rightarrow> (Panics, tm1, w1)
           | (Returns _, tm1) \<Rightarrow>
               (case print_all rt c wr sender mode ack backlog s1 tm1 w1 of
                  (Panics, tm2, w2) \<Rightarrow> (Panics, tm2, w2)
                | (Returns (Inl err), tm2, w2) \<Rightarrow> (Returns (Some (Inl err)), tm2, w2)
                | (Returns (Inr s2), tm2, w2) \<Rightarrow>
                    (case live_loop rt c rd wr sender mode ack k s2 tm2 w2 of
                       (Panics, tm3, w3) \<Rightarrow> (Panics, tm3, w3)
                     | (Returns r, tm3, w3) \<Rightarrow> (Returns (Some r), tm3, w3)))))"

section \<open>Requests, status and topics\<close>

text \<open>\<open>request\<close>: \<open>arrivals\<close> gives the messages that arrive on a stream, with the time of each; the clock is that of the runtime, in seconds.\<close>

definition request ::
  "('w, 'z) runtime_scheme \<Rightarrow> codec \<Rightarrow> 's read_exact \<Rightarrow> 's write_all \<Rightarrow> ('s \<Rightarrow> (nat \<times> (cli_error + envelope)) list) \<Rightarrow> peer_id \<Rightarrow> topic
     \<Rightarrow> u8 list \<Rightarrow> rstr option \<Rightarrow> nat \<Rightarrow> 's \<Rightarrow> 'w \<Rightarrow> (cli_error + envelope) option outcome \<times> 'w" where
  "request rt c rd wr arrivals sender topic payload content_type timeout s w =
     (case request_send rt c rd wr sender topic payload content_type s w of
        (Panics, w1) \<Rightarrow> (Panics, w1)
      | (Returns None, w1) \<Rightarrow> (Returns None, w1)
      | (Returns (Some (Inl err)), w1) \<Rightarrow> (Returns (Some (Inl err)), w1)
      | (Returns (Some (Inr (e, s1))), w1) \<Rightarrow>
          (let now = rt_instant_now rt w1 in (Returns (Some (await_response (env_id e) (now + timeout) now (arrivals s1))), w1)))"

definition request_and_print ::
  "('w, 'z) runtime_scheme \<Rightarrow> codec \<Rightarrow> 's read_exact \<Rightarrow> 's write_all \<Rightarrow> ('s \<Rightarrow> (nat \<times> (cli_error + envelope)) list) \<Rightarrow> peer_id \<Rightarrow> topic
     \<Rightarrow> u8 list \<Rightarrow> rstr option \<Rightarrow> output_mode \<Rightarrow> nat \<Rightarrow> 's \<Rightarrow> terminal \<Rightarrow> 'w \<Rightarrow> (cli_error + unit) option outcome \<times> terminal \<times> 'w" where
  "request_and_print rt c rd wr arrivals sender topic payload content_type mode timeout s tm w =
     (case request rt c rd wr arrivals sender topic payload content_type timeout s w of
        (Panics, w1) \<Rightarrow> (Panics, tm, w1)
      | (Returns None, w1) \<Rightarrow> (Returns None, tm, w1)
      | (Returns (Some (Inl err)), w1) \<Rightarrow> (Returns (Some (Inl err)), tm, w1)
      | (Returns (Some (Inr answer)), w1) \<Rightarrow>
          (case print_if_publish answer mode tm of
             (Panics, tm1) \<Rightarrow> (Panics, tm1, w1)
           | (Returns (Inl err), tm1) \<Rightarrow> (Returns (Some (Inl err)), tm1, w1)
           | (Returns (Inr _), tm1) \<Rightarrow> (Returns (Some (Inr ())), tm1, w1)))"

text \<open>The lines of a status; \<open>dbg\<close> is the \<open>Debug\<close> text of a peer id, which the uuid crate formats.\<close>

definition metric_lines :: "metrics_summary \<Rightarrow> (rstr \<times> u64) list" where
  "metric_lines m =
     [(str ''peers_connected'', ms_peers_connected m), (str ''messages_published'', ms_messages_published m),
      (str ''forwarder_lag_total'', ms_forwarder_lag_total m), (str ''topic_acl_rejections_total'', ms_topic_acl_rejections_total m),
      (str ''metrics_auth_rejections_total'', ms_metrics_auth_rejections_total m),
      (str ''peer_topic_acl_rejections_total'', ms_peer_topic_acl_rejections_total m),
      (str ''replayed_messages_total'', ms_replayed_messages_total m), (str ''lag_recovered_total'', ms_lag_recovered_total m),
      (str ''topic_evictions_total'', ms_topic_evictions_total m), (str ''pattern_evictions_total'', ms_pattern_evictions_total m),
      (str ''membership_evictions_total'', ms_membership_evictions_total m),
      (str ''peer_directory_evictions_total'', ms_peer_directory_evictions_total m),
      (str ''redelivered_messages_total'', ms_redelivered_messages_total m),
      (str ''delivery_ack_timeouts_total'', ms_delivery_ack_timeouts_total m),
      (str ''persist_failures_total'', ms_persist_failures_total m), (str ''expired_messages_total'', ms_expired_messages_total m),
      (str ''dead_lettered_messages_total'', ms_dead_lettered_messages_total m),
      (str ''publish_rate_limit_rejections_total'', ms_publish_rate_limit_rejections_total m),
      (str ''rate_limit_principal_evictions_total'', ms_rate_limit_principal_evictions_total m)]"

definition status_lines ::
  "(peer_id \<Rightarrow> rstr) \<Rightarrow> peer_id \<times> rstr option \<times> peer_summary list \<times> metrics_summary \<Rightarrow> rstr list" where
  "status_lines dbg answer =
     (let (node_id, listen_addr, peers, m) = answer in
      [str ''Node '' @ dbg node_id,
       (case listen_addr of Some a \<Rightarrow> str ''Listening on '' @ a | None \<Rightarrow> str ''Not accepting inbound connections''),
       [10] @ str ''Connected peers ('' @ decimal (length peers) @ str ''):'']
      @ map (\<lambda>p. str ''  '' @ dbg (ps_peer_id p) @ str ''  '' @ (case ps_listen_addr p of Some a \<Rightarrow> a | None \<Rightarrow> str ''(no listen address)'')) peers
      @ [[10] @ str ''Metrics:'']
      @ map (\<lambda>(name, v). str ''  '' @ pad32 name @ str '' '' @ decimal (unat v)) (metric_lines m))"

definition topics_lines :: "topic_summary list \<Rightarrow> rstr list" where
  "topics_lines topics =
     (if topics = [] then [str ''No active topics.'']
      else (str ''Active topics ('' @ decimal (length topics) @ str ''):'')
        # map (\<lambda>t. str ''  '' @ pad32 (topic_str (ts_topic t)) @ str '' subscribers='' @ decimal (unat (ts_subscribers t))
                    @ str '' messages_buffered='' @ decimal (unat (ts_messages_buffered t))) topics)"

definition print_reply ::
  "('a \<Rightarrow> rstr list) \<Rightarrow> (cli_error + ('a \<times> 's)) option \<times> 'w \<Rightarrow> terminal \<Rightarrow> (cli_error + unit) option outcome \<times> terminal \<times> 'w" where
  "print_reply text r tm =
     (case r of
        (None, w1) \<Rightarrow> (Returns None, tm, w1)
      | (Some (Inl err), w1) \<Rightarrow> (Returns (Some (Inl err)), tm, w1)
      | (Some (Inr (x, _)), w1) \<Rightarrow>
          (case println_all (text x) tm of
             (Panics, tm1) \<Rightarrow> (Panics, tm1, w1) | (Returns _, tm1) \<Rightarrow> (Returns (Some (Inr ())), tm1, w1)))"

definition status_and_print ::
  "('w, 'z) runtime_scheme \<Rightarrow> codec \<Rightarrow> 's read_exact \<Rightarrow> 's write_all \<Rightarrow> (peer_id \<Rightarrow> rstr) \<Rightarrow> peer_id \<Rightarrow> 's \<Rightarrow> terminal \<Rightarrow> 'w
     \<Rightarrow> (cli_error + unit) option outcome \<times> terminal \<times> 'w" where
  "status_and_print rt c rd wr dbg sender s tm w = print_reply (status_lines dbg) (request_status rt c rd wr sender s w) tm"

definition topics_and_print ::
  "('w, 'z) runtime_scheme \<Rightarrow> codec \<Rightarrow> 's read_exact \<Rightarrow> 's write_all \<Rightarrow> peer_id \<Rightarrow> 's \<Rightarrow> terminal \<Rightarrow> 'w
     \<Rightarrow> (cli_error + unit) option outcome \<times> terminal \<times> 'w" where
  "topics_and_print rt c rd wr sender s tm w = print_reply topics_lines (request_topics rt c rd wr sender s w) tm"

section \<open>Connecting\<close>

text \<open>
  \<open>ce_toml\<close> parses a file, \<open>ce_completions\<close> generates the script for the shell on the standard output, \<open>ce_stdin\<close> the standard input, \<open>ce_interrupt\<close> how many messages arrive before an
  interrupt, \<open>ce_arrivals\<close> what arrives on a stream and when.
\<close>

record ('tcp, 'srv, 'cli) client_env =
  ce_read :: "path \<Rightarrow> file_error + rstr"
  ce_toml :: "rstr \<Rightarrow> client_config option"
  ce_default_path :: "path option"
  ce_tcp_connect :: "rstr \<Rightarrow> io_error + 'tcp"
  ce_completions :: "terminal \<Rightarrow> unit outcome \<times> terminal"
  ce_stdin :: "io_error + u8 list"
  ce_interrupt :: nat
  ce_arrivals :: "('tcp, 'srv, 'cli) maybe_tls_stream \<Rightarrow> (nat \<times> (cli_error + envelope)) list"
  ce_debug :: "peer_id \<Rightarrow> rstr"

definition client_config_load :: "('tcp, 'srv, 'cli) client_env \<Rightarrow> path option \<Rightarrow> cli_error + client_config" where
  "client_config_load env explicit =
     (let empty = \<lparr>cc_addr = None, cc_tls_ca = None, cc_tls_cert = None, cc_tls_key = None\<rparr> in
      (case (case explicit of Some p \<Rightarrow> Some p | None \<Rightarrow> ce_default_path env) of
         None \<Rightarrow> Inr empty
       | Some p \<Rightarrow>
           (case ce_read env p of
              Inr raw \<Rightarrow> (case ce_toml env raw of None \<Rightarrow> Inl (ConfigParse p) | Some f \<Rightarrow> Inr f)
            | Inl FileNotFound \<Rightarrow> Inr empty
            | Inl err \<Rightarrow> Inl (ConfigFile err))))"

text \<open>\<open>certs.first().map(fingerprint)\<close> of the own chain.\<close>

definition own_fingerprint_of :: "('tcp, 'srv, 'cli, 'name) tls_lib \<Rightarrow> (cert list \<times> private_key) option \<Rightarrow> u8 list option" where
  "own_fingerprint_of lib identity = (case identity of Some (leaf # _, _) \<Rightarrow> Some (fingerprint lib leaf) | _ \<Rightarrow> None)"

definition build_connector ::
  "('tcp, 'srv, 'cli, 'name) tls_lib \<Rightarrow> connection_options \<Rightarrow> cli_error + (client_tls option \<times> u8 list option)" where
  "build_connector lib opts =
     (case co_tls_ca opts of
        None \<Rightarrow> Inr (None, None)
      | Some ca_path \<Rightarrow>
          and_then (map_err TlsMaterial (load_certs lib ca_path)) (\<lambda>ca.
          and_then (case (co_tls_cert opts, co_tls_key opts) of
                      (Some cert_path, Some key_path) \<Rightarrow>
                        and_then (map_err TlsMaterial (load_certs lib cert_path)) (\<lambda>certs.
                        and_then (map_err TlsMaterial (load_private_key lib key_path)) (\<lambda>key. Inr (Some (certs, key))))
                    | _ \<Rightarrow> Inr None) (\<lambda>identity.
          let own_fingerprint = own_fingerprint_of lib identity in
          and_then (map_err TlsMaterial (client_config lib ca identity)) (\<lambda>config. Inr (Some config, own_fingerprint)))))"

text \<open>The stream of a command and the sender of its messages.\<close>

definition open_connection ::
  "('tcp, 'srv, 'cli, 'name) tls_lib \<Rightarrow> ('tcp, 'srv, 'cli) client_env \<Rightarrow> connection_options
     \<Rightarrow> cli_error + (('tcp, 'srv, 'cli) maybe_tls_stream \<times> u8 list option)" where
  "open_connection lib env opts =
     and_then (build_connector lib opts) (\<lambda>(connector, own_fingerprint).
     and_then (map_err ConnectFailed (ce_tcp_connect env (co_addr opts))) (\<lambda>tcp.
     and_then (case connector of
                 Some cl \<Rightarrow> map_err TlsConnectFailed (stream_connect lib cl tcp (co_addr opts))
               | None \<Rightarrow> Inr (Plain tcp)) (\<lambda>s. Inr (s, own_fingerprint))))"

definition client_sender :: "('w, 'z) runtime_scheme \<Rightarrow> u8 list option \<Rightarrow> 'w \<Rightarrow> peer_id \<times> 'w" where
  "client_sender rt own_fingerprint w =
     (case own_fingerprint of Some fp \<Rightarrow> (peer_id_from_fingerprint rt fp, w) | None \<Rightarrow> peer_id_new rt w)"

section \<open>Running a command\<close>

definition print_completions :: "('tcp, 'srv, 'cli) client_env \<Rightarrow> terminal \<Rightarrow> (cli_error + unit) option outcome \<times> terminal" where
  "print_completions env tm =
     (case ce_completions env tm of (Panics, tm') \<Rightarrow> (Panics, tm') | (Returns _, tm') \<Rightarrow> (Returns (Some (Inr ())), tm'))"

definition returned :: "cli_error + 'a \<Rightarrow> (cli_error + unit) option outcome" where
  "returned r = Returns (Some (case r of Inl err \<Rightarrow> Inl err | Inr _ \<Rightarrow> Inr ()))"

definition execute ::
  "('w, 'z) runtime_scheme \<Rightarrow> codec \<Rightarrow> ('tcp, 'srv, 'cli) maybe_tls_stream read_exact \<Rightarrow> ('tcp, 'srv, 'cli) maybe_tls_stream write_all
     \<Rightarrow> ('tcp, 'srv, 'cli) client_env \<Rightarrow> command \<Rightarrow> peer_id \<Rightarrow> ('tcp, 'srv, 'cli) maybe_tls_stream \<Rightarrow> terminal \<Rightarrow> 'w
     \<Rightarrow> (cli_error + unit) option outcome \<times> terminal \<times> 'w" where
  "execute rt c rd wr env cmd sender s tm w =
     (case cmd of
        CmdPublish t p retain ct \<Rightarrow>
          (case and_then (parse_topic t) (\<lambda>topic. and_then (read_payload p (ce_stdin env)) (\<lambda>payload. Inr (topic, payload))) of
             Inl err \<Rightarrow> (Returns (Some (Inl err)), tm, w)
           | Inr (topic, payload) \<Rightarrow>
               (let (e, w1) = envelope_new rt sender (Publish topic payload retain ct None None) w
                in (returned (client_send c wr e s), tm, w1)))
      | CmdRequest t p ct mode timeout \<Rightarrow>
          (case and_then (parse_topic t) (\<lambda>topic. and_then (read_payload p (ce_stdin env)) (\<lambda>payload. Inr (topic, payload))) of
             Inl err \<Rightarrow> (Returns (Some (Inl err)), tm, w)
           | Inr (topic, payload) \<Rightarrow>
               request_and_print rt c rd wr (ce_arrivals env) sender topic payload ct mode (unat timeout) s tm w)
      | CmdSubscribe fs mode ack grp durable \<Rightarrow>
          (case parse_filters fs of
             Inl err \<Rightarrow> (Returns (Some (Inl err)), tm, w)
           | Inr filters \<Rightarrow>
               (case subscribe_and_print rt c rd wr sender filters mode ack grp durable (ce_interrupt env) s tm w of
                  (Panics, tm1, w1) \<Rightarrow> (Panics, tm1, w1)
                | (Returns None, tm1, w1) \<Rightarrow> (Returns None, tm1, w1)
                | (Returns (Some r), tm1, w1) \<Rightarrow> (returned r, tm1, w1)))
      | CmdStatus \<Rightarrow> status_and_print rt c rd wr (ce_debug env) sender s tm w
      | CmdTopics \<Rightarrow> topics_and_print rt c rd wr sender s tm w
      | CmdCompletions \<Rightarrow> (Panics, tm, w))"

definition run_client ::
  "('w, 'z) runtime_scheme \<Rightarrow> codec \<Rightarrow> ('tcp, 'srv, 'cli) maybe_tls_stream read_exact \<Rightarrow> ('tcp, 'srv, 'cli) maybe_tls_stream write_all
     \<Rightarrow> ('tcp, 'srv, 'cli, 'name) tls_lib \<Rightarrow> ('tcp, 'srv, 'cli) client_env \<Rightarrow> path option \<Rightarrow> client_config \<Rightarrow> command \<Rightarrow> terminal \<Rightarrow> 'w
     \<Rightarrow> (cli_error + unit) option outcome \<times> terminal \<times> 'w" where
  "run_client rt c rd wr lib env config_path flags cmd tm w =
     (if cmd = CmdCompletions
      then (let (r, tm1) = print_completions env tm in (r, tm1, w))
      else (case and_then (validate_command cmd) (\<lambda>_. and_then (client_config_load env config_path) (\<lambda>file.
                   and_then (connection_options_merge flags file) (open_connection lib env))) of
              Inl err \<Rightarrow> (Returns (Some (Inl err)), tm, w)
            | Inr (s, own_fingerprint) \<Rightarrow>
                (let (sender, w1) = client_sender rt own_fingerprint w in execute rt c rd wr env cmd sender s tm w1)))"

section \<open>What is printed and acknowledged\<close>

text \<open>What one published message adds to the standard output, and the acknowledgements of a list of them.\<close>

definition printed :: "output_mode \<Rightarrow> envelope \<Rightarrow> u8 list" where
  "printed mode e =
     (case env_kind e of
        Publish t payload _ ct _ _ \<Rightarrow>
          (case mode of
             TextOutput \<Rightarrow> as_bytes (str ''['' @ topic_str t @ str '']'' @ content_hint ct @ str '' '' @ from_utf8_lossy payload @ [10])
           | RawOutput \<Rightarrow> payload)
      | _ \<Rightarrow> [])"

fun ack_envelopes :: "('w, 'z) runtime_scheme \<Rightarrow> peer_id \<Rightarrow> envelope list \<Rightarrow> 'w \<Rightarrow> envelope list \<times> 'w" where
  "ack_envelopes rt sender [] w = ([], w)"
| "ack_envelopes rt sender (e # es) w =
     (let (a, w1) = envelope_new rt sender (Ack (env_id e)) w; (as, w2) = ack_envelopes rt sender es w1 in (a # as, w2))"

lemma ack_envelopes_kinds: "map env_kind (fst (ack_envelopes rt sender es w)) = map (\<lambda>e. Ack (env_id e)) es"
proof (induction es arbitrary: w)
  case (Cons e es)
  obtain a w1 where a: "envelope_new rt sender (Ack (env_id e)) w = (a, w1)" by fastforce
  with Cons [of w1] envelope_new_fields(2) [OF a] show ?case by (cases "ack_envelopes rt sender es w1") simp
qed simp

lemma ack_envelopes_append:
  "ack_envelopes rt sender (es @ es') w =
     (let (as, w1) = ack_envelopes rt sender es w; (as', w2) = ack_envelopes rt sender es' w1 in (as @ as', w2))"
  by (induction es arbitrary: w) (simp_all add: Let_def split: prod.split)

text \<open>The acknowledgements are sent only on request.\<close>

definition acks_of :: "('w, 'z) runtime_scheme \<Rightarrow> peer_id \<Rightarrow> bool \<Rightarrow> envelope list \<Rightarrow> 'w \<Rightarrow> envelope list \<times> 'w" where
  "acks_of rt sender ack es w = (if ack then ack_envelopes rt sender (filter is_publish es) w else ([], w))"

lemma acks_of_append:
  assumes "acks_of rt sender ack (es @ es') w = (as, w2)"
  obtains as1 w1 as2 where "acks_of rt sender ack es w = (as1, w1)" "acks_of rt sender ack es' w1 = (as2, w2)" "as = as1 @ as2"
  using assms that by (auto simp: acks_of_def ack_envelopes_append Let_def split: if_splits prod.splits)

lemma print_one:
  assumes "\<not> tm_closed tm" and "acks_of rt sender ack [e] w = (as, w')" and "\<forall>a \<in> set as. sendable c a"
  shows "\<exists>tm'. print_and_maybe_ack rt c duplex_write sender e mode ack (inp, out) tm w = (Returns (Inr (inp, out @ frames c as)), tm', w')
    \<and> tm_stdout tm' = tm_stdout tm @ printed mode e \<and> \<not> tm_closed tm'"
proof (cases "env_kind e")
  case (Publish t payload retain ct rto irt)
  then have "\<exists>tm'. print_if_publish e mode tm = (Returns (Inr (Some (env_id e))), tm') \<and> tm_stdout tm' = tm_stdout tm @ printed mode e \<and> \<not> tm_closed tm'"
    using assms(1) by (cases mode) (simp_all add: print_if_publish_def println_def write_stdout_def eprintln_def printed_def Let_def)
  moreover have "is_publish e" using Publish by (simp add: is_publish_def)
  ultimately show ?thesis using assms(2,3)
    by (auto simp: print_and_maybe_ack_def acks_of_def client_send_Inr Let_def split: if_splits prod.splits)
qed (use assms in \<open>auto simp: print_and_maybe_ack_def print_if_publish_def printed_def acks_of_def is_publish_def split: if_splits\<close>)

lemma print_all_exact:
  assumes "\<not> tm_closed tm" and "acks_of rt sender ack es w = (as, w')" and "\<forall>a \<in> set as. sendable c a"
  shows "\<exists>tm'. print_all rt c duplex_write sender mode ack es (inp, out) tm w = (Returns (Inr (inp, out @ frames c as)), tm', w')
    \<and> tm_stdout tm' = tm_stdout tm @ concat (map (printed mode) es) \<and> \<not> tm_closed tm'"
  using assms
proof (induction es arbitrary: tm w as out)
  case Nil
  then show ?case by (auto simp: acks_of_def split: if_splits)
next
  case (Cons e es)
  obtain as1 w1 as2 where a: "acks_of rt sender ack [e] w = (as1, w1)" "acks_of rt sender ack es w1 = (as2, w')" "as = as1 @ as2"
    using acks_of_append [of rt sender ack "[e]" es w as w'] Cons.prems(2) by auto
  from print_one [OF Cons.prems(1) a(1), of c mode inp out] Cons.prems(3) a(3) obtain tm1 where
    p: "print_and_maybe_ack rt c duplex_write sender e mode ack (inp, out) tm w = (Returns (Inr (inp, out @ frames c as1)), tm1, w1)"
    "tm_stdout tm1 = tm_stdout tm @ printed mode e" "\<not> tm_closed tm1" by auto
  from Cons.IH [OF p(3) a(2), of "out @ frames c as1"] Cons.prems(3) a(3) p show ?case by auto
qed

lemma live_loop_exact:
  assumes "codec_round_trip c" and "\<forall>e \<in> set es. sendable c e" and "\<not> tm_closed tm" and "acks_of rt sender ack es w = (as, w')"
    and "\<forall>a \<in> set as. sendable c a"
  shows "\<exists>tm'. live_loop rt c duplex_read duplex_write sender mode ack (length es) (frames c es @ rest, out) tm w
      = (Returns (Inr (rest, out @ frames c as)), tm', w')
    \<and> tm_stdout tm' = tm_stdout tm @ concat (map (printed mode) es) \<and> \<not> tm_closed tm'"
  using assms(2-)
proof (induction es arbitrary: tm w as out)
  case Nil
  then show ?case by (auto simp: acks_of_def split: if_splits)
next
  case (Cons e es)
  obtain as1 w1 as2 where a: "acks_of rt sender ack [e] w = (as1, w1)" "acks_of rt sender ack es w1 = (as2, w')" "as = as1 @ as2"
    using acks_of_append [of rt sender ack "[e]" es w as w'] Cons.prems(3) by auto
  from print_one [OF Cons.prems(2) a(1), of c mode "frames c es @ rest" out] Cons.prems(4) a(3) obtain tm1 where
    p: "print_and_maybe_ack rt c duplex_write sender e mode ack (frames c es @ rest, out) tm w = (Returns (Inr (frames c es @ rest, out @ frames c as1)), tm1, w1)"
    "tm_stdout tm1 = tm_stdout tm @ printed mode e" "\<not> tm_closed tm1" by auto
  have r: "client_recv c duplex_read (frame c e @ frames c es @ rest, out) = Inr (e, (frames c es @ rest, out))"
    using Cons.prems(1) by (intro client_recv_frame [OF assms(1)]) simp
  from Cons.IH [OF _ p(3) a(2), of "out @ frames c as1"] Cons.prems(1,4) a(3) p r show ?case by auto
qed

section \<open>Properties\<close>

text \<open>C30. A subscription prints and acknowledges every message once. When the requests were written and accepted, everything published on the connection up to the interrupt, the messages that
  came before the last acceptance included, is printed in the order of arrival and nothing else is; with \<open>--ack\<close> each of these messages, and only these, is acknowledged
  once, in that order; in raw mode the standard output is exactly the payloads.\<close>

theorem subscribe_prints_and_acks:
  assumes "codec_round_trip c" and "\<forall>e \<in> set es. sendable c e \<and> \<not> refuses P e"
    and "send_subscribes rt c duplex_write sender ack grp durable fs {} (frames c es @ frames c live @ rest, out) w = (Inr (P, s), w1)"
    and "\<forall>k < length es. unanswered P (take k es) \<noteq> {}" and "unanswered P es = {}"
    and "\<forall>e \<in> set live. sendable c e" and "\<not> tm_closed tm"
    and "acks_of rt sender ack (filter is_publish (es @ live)) w1 = (as, w2)" and "\<forall>a \<in> set as. sendable c a"
  shows "\<exists>subs tm'. subscribe_and_print rt c duplex_read duplex_write sender fs mode ack grp durable (length live)
        (frames c es @ frames c live @ rest, out) tm w = (Returns (Some (Inr (rest, out @ frames c subs @ frames c as))), tm', w2)
    \<and> map env_kind subs = map (\<lambda>f. Subscribe f ack grp durable) fs
    \<and> map env_kind as = (if ack then map (\<lambda>e. Ack (env_id e)) (filter is_publish (es @ live)) else [])
    \<and> tm_stdout tm' = tm_stdout tm @ (if mode = TextOutput then as_bytes (banner fs @ [10]) else [])
        @ concat (map (printed mode) (filter is_publish (es @ live)))"
proof -
  from send_subscribes_Inr [OF assms(3)] obtain subs where subs: "map env_kind subs = map (\<lambda>f. Subscribe f ack grp durable) fs"
    "s = (frames c es @ frames c live @ rest, out @ frames c subs)" by blast
  with await_acks_frames [OF assms(1,2,4,5), of "[]" "frames c live @ rest" "out @ frames c subs"] assms(3)
  have sub: "subscribe_all rt c duplex_read duplex_write sender fs ack grp durable (frames c es @ frames c live @ rest, out) w
      = (Some (Inr (filter is_publish es, (frames c live @ rest, out @ frames c subs))), w1)"
    by (auto simp: subscribe_all_def)
  let ?b = "if mode = TextOutput then as_bytes (banner fs @ [10]) else []"
  obtain tm1 where b: "print_banner mode (banner fs) tm = (Returns (), tm1)" "tm_stdout tm1 = tm_stdout tm @ ?b" "\<not> tm_closed tm1"
    using assms(7) by (cases mode) (simp_all add: print_banner_def println_def eprintln_def)
  have ff: "acks_of rt sender ack (filter is_publish xs) v = acks_of rt sender ack xs v" for xs v by (simp add: acks_of_def)
  obtain as1 v as2 where a: "acks_of rt sender ack (filter is_publish es) w1 = (as1, v)" "acks_of rt sender ack live v = (as2, w2)" "as = as1 @ as2"
    using acks_of_append [of rt sender ack "filter is_publish es" "filter is_publish live" w1 as w2] assms(8) by (auto simp: ff)
  from print_all_exact [OF b(3) a(1), of c mode "frames c live @ rest" "out @ frames c subs"] assms(9) a(3) obtain tm2 where
    p: "print_all rt c duplex_write sender mode ack (filter is_publish es) (frames c live @ rest, out @ frames c subs) tm1 w1
        = (Returns (Inr (frames c live @ rest, (out @ frames c subs) @ frames c as1)), tm2, v)"
    "tm_stdout tm2 = tm_stdout tm1 @ concat (map (printed mode) (filter is_publish es))" "\<not> tm_closed tm2" by auto
  from live_loop_exact [OF assms(1,6) p(3) a(2), of mode rest "(out @ frames c subs) @ frames c as1"] assms(9) a(3) obtain tm3 where
    l: "live_loop rt c duplex_read duplex_write sender mode ack (length live) (frames c live @ rest, (out @ frames c subs) @ frames c as1) tm2 v
        = (Returns (Inr (rest, ((out @ frames c subs) @ frames c as1) @ frames c as2)), tm3, w2)"
    "tm_stdout tm3 = tm_stdout tm2 @ concat (map (printed mode) live)" by auto
  have silent: "concat (map (printed mode) live) = concat (map (printed mode) (filter is_publish live))"
    by (induction live) (auto simp: printed_def is_publish_def split: message_kind.splits)
  have "map env_kind as = (if ack then map (\<lambda>e. Ack (env_id e)) (filter is_publish (es @ live)) else [])"
    using assms(8) ack_envelopes_kinds [of rt sender "filter is_publish (filter is_publish (es @ live))" w1] by (auto simp: acks_of_def split: if_splits)
  with sub b p l subs(1) silent a(3) show ?thesis by (auto simp: subscribe_and_print_def)
qed

theorem subscribe_prints_and_acks_witness:
  "let f = TopicFilter [97];
       sub = fst (envelope_new world_rt (PeerId [1]) (Subscribe f True None False) world0);
       w1 = snd (envelope_new world_rt (PeerId [1]) (Subscribe f True None False) world0);
       ok = \<lparr>env_version = 1, env_id = MessageId [9], env_sender = PeerId [9], env_kind = Ack (env_id sub)\<rparr>;
       pub = \<lparr>env_version = 1, env_id = MessageId [8], env_sender = PeerId [9], env_kind = Publish (Topic [97]) [104, 105] False None None None\<rparr>;
       a = fst (envelope_new world_rt (PeerId [1]) (Ack (MessageId [8])) w1);
       c = table_codec [sub, ok, pub, a]
   in \<exists>subs tm' w'. subscribe_and_print world_rt c duplex_read duplex_write (PeerId [1]) [f] RawOutput True None False (length [pub])
        (frames c [ok] @ frames c [pub] @ [], []) \<lparr>tm_stdout = [], tm_stderr = [], tm_closed = False\<rparr> world0
        = (Returns (Some (Inr ([], [] @ frames c subs @ frames c [a]))), tm', w') \<and> tm_stdout tm' = [104, 105]"
proof -
  define f where "f = TopicFilter [97]"
  obtain sub w1 where sub: "envelope_new world_rt (PeerId [1]) (Subscribe f True None False) world0 = (sub, w1)" by fastforce
  obtain a w2 where a: "envelope_new world_rt (PeerId [1]) (Ack (MessageId [8])) w1 = (a, w2)" by fastforce
  define ok where "ok = \<lparr>env_version = 1, env_id = MessageId [9], env_sender = PeerId [9], env_kind = Ack (env_id sub)\<rparr>"
  define pub where "pub = \<lparr>env_version = 1, env_id = MessageId [8], env_sender = PeerId [9], env_kind = Publish (Topic [97]) [104, 105] False None None None\<rparr>"
  define c where "c = table_codec [sub, ok, pub, a]"
  let ?tm = "\<lparr>tm_stdout = [], tm_stderr = [], tm_closed = False\<rparr> :: terminal"
  have c: "codec_round_trip c" "\<forall>e \<in> set [ok]. sendable c e \<and> \<not> refuses {env_id sub} e" "sendable c sub" "\<forall>e \<in> set [pub]. sendable c e"
    "\<forall>e \<in> set [a]. sendable c e"
    by (auto simp: c_def table_codec_sendable refuses_def ok_def intro: table_codec_round_trip)
  have s: "send_subscribes world_rt c duplex_write (PeerId [1]) True None False [f] {} (frames c [ok] @ frames c [pub] @ [], []) world0
      = (Inr ({env_id sub}, (frames c [ok] @ frames c [pub] @ [], [] @ frame c sub)), w1)"
    using client_send_sendable [OF c(3)] by (simp add: sub)
  have u: "\<forall>k < length [ok]. unanswered {env_id sub} (take k [ok]) \<noteq> {}" "unanswered {env_id sub} [ok] = {}"
    by (auto simp: unanswered_def ok_def)
  have p: "filter is_publish ([ok] @ [pub]) = [pub]" by (simp add: is_publish_def pub_def ok_def)
  have acks: "acks_of world_rt (PeerId [1]) True (filter is_publish ([ok] @ [pub])) w1 = ([a], w2)"
    unfolding p by (simp add: acks_of_def is_publish_def pub_def a)
  have out: "printed RawOutput pub = [104, 105]" by (simp add: printed_def pub_def)
  from subscribe_prints_and_acks [OF c(1,2) s u c(4) _ acks c(5), of ?tm RawOutput] show ?thesis
    unfolding p out Let_def f_def [symmetric] sub fst_conv snd_conv a ok_def [symmetric] pub_def [symmetric] c_def [symmetric] by (auto simp: out)
qed

text \<open>Text survives the journey from one client's command line to another's screen: the payload that a client reads from an argument other than \<open>-\<close> is printed in text mode as that very argument,
  behind the topic in brackets; a payload from the standard input is written unchanged in raw mode.\<close>

theorem payload_round_trip:
  assumes "read_payload arg stdin = Inr payload" and "\<forall>x \<in> set arg. is_scalar x" and "env_kind e = Publish t payload retain ct rto irt"
    and "\<not> tm_closed tm"
  shows "(arg \<noteq> str ''-'' \<longrightarrow> (\<exists>tm'. print_if_publish e TextOutput tm = (Returns (Inr (Some (env_id e))), tm')
          \<and> tm_stdout tm' = tm_stdout tm @ as_bytes (str ''['' @ topic_str t @ str '']'' @ content_hint ct @ str '' '' @ arg @ [10])))
    \<and> (arg = str ''-'' \<longrightarrow> (\<exists>tm' bytes. print_if_publish e RawOutput tm = (Returns (Inr (Some (env_id e))), tm')
          \<and> stdin = Inr bytes \<and> tm_stdout tm' = tm_stdout tm @ bytes))"
  using assms from_utf8_lossy_as_bytes [OF assms(2)]
  by (auto simp: print_if_publish_def println_def write_stdout_def eprintln_def read_payload_def map_err_Inr)

theorem payload_round_trip_witness:
  "\<exists>tm'. print_if_publish \<lparr>env_version = 1, env_id = MessageId [8], env_sender = PeerId [9], env_kind = Publish (Topic [97]) (as_bytes [233]) False None None None\<rparr>
       TextOutput \<lparr>tm_stdout = [], tm_stderr = [], tm_closed = False\<rparr> = (Returns (Inr (Some (MessageId [8]))), tm')
     \<and> tm_stdout tm' = as_bytes [91, 97, 93, 32, 233, 10]"
proof -
  define e where "e = \<lparr>env_version = 1, env_id = MessageId [8], env_sender = PeerId [9], env_kind = Publish (Topic [97]) (as_bytes [233]) False None None None\<rparr>"
  define tm where "tm = (\<lparr>tm_stdout = [], tm_stderr = [], tm_closed = False\<rparr> :: terminal)"
  have "read_payload [233] (Inl UnexpectedEof) = Inr (as_bytes [233])" "\<forall>x \<in> set [233]. is_scalar x"
    "env_kind e = Publish (Topic [97]) (as_bytes [233]) False None None None" "\<not> tm_closed tm"
    by (simp_all add: read_payload_def str_def is_scalar_def e_def tm_def)
  from payload_round_trip [OF this] show ?thesis
    unfolding e_def [symmetric] tm_def [symmetric] by (auto simp: str_def content_hint_def e_def tm_def)
qed



section \<open>The timeout of a request\<close>

lemma await_acks_never:
  assumes "\<And>s. \<exists>e s'. client_recv c rd s = Inr (e, s') \<and> env_kind e = StatusRequest" and "P \<noteq> {}"
  shows "await_acks c rd P bl s = None"
proof -
  have "P' = {}" if ret: "await_acks c rd P' bl s = Some y" for P' y
  proof -
    have "c = c \<longrightarrow> rd = rd \<longrightarrow> P' = {}"
    proof (rule await_acks.raw_induct [where P = "\<lambda>c' rd' P' bl' s' y. c' = c \<longrightarrow> rd' = rd \<longrightarrow> P' = {}", OF _ ret], intro impI)
      fix f c' rd' P' bl' s' y
      assume ih: "\<And>c' rd' P' bl' s' y. f c' rd' P' bl' s' = Some y \<Longrightarrow> c' = c \<longrightarrow> rd' = rd \<longrightarrow> P' = {}"
        and body: "(if P' = {} then Some (Inr (bl', s')) else case client_recv c' rd' s' of Inl err \<Rightarrow> Some (Inl err)
            | Inr (e, s'') \<Rightarrow> (case await_message e P' bl' of Inl err \<Rightarrow> Some (Inl err) | Inr (P2, bl2) \<Rightarrow> f c' rd' P2 bl2 s'')) = Some y"
        and eq: "c' = c" "rd' = rd"
      obtain e s2 where "client_recv c rd s' = Inr (e, s2)" "env_kind e = StatusRequest" using assms(1) by blast
      with body eq ih [of c rd P' bl' s2 y] show "P' = {}" by (auto simp: await_message_def split: if_splits)
    qed
    then show ?thesis by simp
  qed
  then show ?thesis using assms(2) by (cases "await_acks c rd P bl s") auto
qed

text \<open>
  The timeout of \<open>request\<close> starts with the wait for the reply. The wait for the acceptance of the subscription before it is not bounded: on a connection that keeps delivering other
  messages the command runs for ever, however short its timeout.
\<close>

theorem request_timeout_not_total:
  assumes "\<And>s. \<exists>e s'. client_recv c rd s = Inr (e, s') \<and> env_kind e = StatusRequest" and "\<And>e s. \<exists>s'. client_send c wr e s = Inr s'"
    and "\<And>w. length (fst (rt_now_v7 rt w)) = 16"
  shows "fst (request rt c rd wr arrivals sender topic payload content_type timeout s w) = Returns None"
proof -
  obtain i w1 where i: "message_id_new rt w = (i, w1)" by fastforce
  then have "length (message_id_as_bytes i) = 16"
    using assms(3) [of w] by (auto simp: message_id_new_def message_id_as_bytes_def split: prod.splits)
  from reply_name_valid [OF this] have t: "topic_from_str (reply_name i) = Inr (Topic (reply_name i))" .
  obtain e w2 where e: "envelope_new rt sender (Subscribe (filter_of_topic (Topic (reply_name i))) False None False) w1 = (e, w2)" by fastforce
  obtain s1 where "client_send c wr e s = Inr s1" using assms(2) by blast
  with e await_acks_never [of c rd "{env_id e}" "[]" s1, OF assms(1)]
  have "subscribe_all rt c rd wr sender [filter_of_topic (Topic (reply_name i))] False None False s w1 = (None, w2)"
    by (simp add: subscribe_all_def)
  then show ?thesis by (simp add: request_def request_send_def i t)
qed

end
