(* ===== verification/Metrics_Server.thy ===== *)
theory Metrics_Server
  imports Node Utf8
begin

unbundle bit_operations_syntax

text \<open>
  The HTTP responder of the metrics port (crates/thoth-mesh-node/src/metrics_server.rs). \<open>read_line\<close> of the connection is a parameter; the theorems are on a request
  text. An answer is the text that is written before the connection closes.
\<close>

section \<open>Strings\<close>

text \<open>\<open>str::split_once\<close>, \<open>str::strip_prefix\<close>, \<open>str::split_whitespace\<close>.\<close>

definition split_once :: "rchar \<Rightarrow> rstr \<Rightarrow> (rstr \<times> rstr) option" where
  "split_once c s = map_option (\<lambda>i. (take i s, drop (Suc i) s)) (position (\<lambda>x. x = c) s)"

definition strip_prefix :: "rstr \<Rightarrow> rstr \<Rightarrow> rstr option" where
  "strip_prefix p s = (if take (length p) s = p then Some (drop (length p) s) else None)"

definition split_whitespace :: "rstr \<Rightarrow> rstr list" where
  "split_whitespace s = filter (\<lambda>x. x \<noteq> []) (split_on 32 (map (\<lambda>c. if is_whitespace c then 32 else c) s))"

section \<open>The comparison of tokens\<close>

definition constant_time_eq :: "u8 list \<Rightarrow> u8 list \<Rightarrow> bool" where
  "constant_time_eq a b =
     (if length a \<noteq> length b then False
      else foldl (\<lambda>diff (x, y). diff OR (x XOR y)) (0 :: u8) (zip a b) = 0)"

lemma or_eq_0: "(a :: u8) OR b = 0 \<longleftrightarrow> a = 0 \<and> b = 0"
  by (auto simp: bit_eq_iff bit_or_iff)

lemma xor_eq_0: "(a :: u8) XOR b = 0 \<longleftrightarrow> a = b"
  by (auto simp: bit_eq_iff bit_xor_iff)

lemma diff_zero:
  "length a = length b \<Longrightarrow> foldl (\<lambda>diff (x, y). diff OR (x XOR y)) (d :: u8) (zip a b) = 0 \<longleftrightarrow> d = 0 \<and> a = b"
  by (induction a b arbitrary: d rule: list_induct2) (auto simp: or_eq_0 xor_eq_0)

lemma constant_time_eq_iff: "constant_time_eq a b \<longleftrightarrow> a = b"
  by (auto simp: constant_time_eq_def diff_zero)

section \<open>The responses\<close>

definition CRLF :: rstr where
  "CRLF = [13, 10]"

definition write_response :: "nat \<Rightarrow> rstr \<Rightarrow> rstr \<Rightarrow> rstr \<Rightarrow> rstr" where
  "write_response status reason extra_headers body =
     str ''HTTP/1.1 '' @ decimal status @ [32] @ reason @ CRLF @ str ''Content-Type: text/plain'' @ CRLF
     @ str ''Content-Length: '' @ decimal (str_len body) @ CRLF @ str ''Connection: close'' @ CRLF
     @ extra_headers @ CRLF @ body"

definition scrape_response :: "rstr \<Rightarrow> rstr" where
  "scrape_response body =
     str ''HTTP/1.1 200 OK'' @ CRLF @ str ''Content-Type: text/plain; version=0.0.4'' @ CRLF
     @ str ''Content-Length: '' @ decimal (str_len body) @ CRLF @ str ''Connection: close'' @ CRLF @ CRLF @ body"

definition live_response :: rstr where
  "live_response = write_response 200 (str ''OK'') [] (str ''ok'' @ [10])"

definition ready_response :: "readiness \<Rightarrow> rstr" where
  "ready_response r =
     (if is_ready r then write_response 200 (str ''OK'') [] (str ''ready'' @ [10])
      else write_response 503 (str ''Service Unavailable'') [] (str ''not ready'' @ [10]))"

definition unauthorized_response :: rstr where
  "unauthorized_response =
     write_response 401 (str ''Unauthorized'') (str ''WWW-Authenticate: Bearer'' @ CRLF) (str ''unauthorized'' @ [10])"

section \<open>A request\<close>

type_synonym 'r read_line = "'r \<Rightarrow> io_error + (rstr \<times> 'r)"

definition request_path :: "rstr \<Rightarrow> rstr" where
  "request_path request_line =
     (let target = (case split_whitespace request_line of _ # t # _ \<Rightarrow> t | _ \<Rightarrow> [])
      in (case split_once 63 target of None \<Rightarrow> target | Some (p, _) \<Rightarrow> p))"

definition blank :: "rstr \<Rightarrow> bool" where
  "blank line \<longleftrightarrow> line = [] \<or> line = CRLF \<or> line = [10]"

text \<open>The value of an \<open>Authorization\<close> header line.\<close>

definition authorization_of :: "rstr \<Rightarrow> rstr option" where
  "authorization_of line =
     (case split_once 58 line of
        None \<Rightarrow> None
      | Some (name, v) \<Rightarrow> if eq_ignore_ascii_case name (str ''authorization'') then Some (trim v) else None)"

text \<open>The loop over the header lines; a connection that never sends a blank line and never ends is the value \<open>None\<close>.\<close>

partial_function (option) read_headers ::
  "'r read_line \<Rightarrow> 'r \<Rightarrow> rstr option \<Rightarrow> (io_error + (rstr option \<times> 'r)) option" where
  "read_headers rd r authorization =
     (case rd r of
        Inl err \<Rightarrow> Some (Inl err)
      | Inr (line, r') \<Rightarrow>
          if blank line then Some (Inr (authorization, r'))
          else read_headers rd r' (case authorization_of line of None \<Rightarrow> authorization | Some v \<Rightarrow> Some v))"

definition authorized :: "rstr option \<Rightarrow> rstr \<Rightarrow> bool" where
  "authorized authorization expected =
     (case Option.bind authorization (strip_prefix (str ''Bearer '')) of
        None \<Rightarrow> False
      | Some presented \<Rightarrow> constant_time_eq (as_bytes presented) (as_bytes expected))"

definition respond ::
  "readiness \<Rightarrow> rstr option \<Rightarrow> rstr \<Rightarrow> rstr option \<Rightarrow> membership \<Rightarrow> 's broker \<Rightarrow> peer_directory \<Rightarrow> rate_limiter option
     \<Rightarrow> metrics \<Rightarrow> rstr \<times> metrics" where
  "respond ready token path authorization mb b d rl m =
     (if path = str ''/livez'' then (live_response, m)
      else if path = str ''/readyz'' then (ready_response ready, m)
      else if (case token of None \<Rightarrow> False | Some expected \<Rightarrow> \<not> authorized authorization expected)
      then (unauthorized_response, record_metrics_auth_rejection m)
      else (scrape_response (render_prometheus mb b d m rl), m))"

definition handle_request ::
  "'r read_line \<Rightarrow> readiness \<Rightarrow> rstr option \<Rightarrow> membership \<Rightarrow> 's broker \<Rightarrow> peer_directory \<Rightarrow> rate_limiter option
     \<Rightarrow> metrics \<Rightarrow> 'r \<Rightarrow> (io_error + (rstr \<times> metrics)) option" where
  "handle_request rd ready token mb b d rl m r =
     (case rd r of
        Inl err \<Rightarrow> Some (Inl err)
      | Inr (request_line, r') \<Rightarrow>
          (case read_headers rd r' None of
             None \<Rightarrow> None
           | Some (Inl err) \<Rightarrow> Some (Inl err)
           | Some (Inr (authorization, _)) \<Rightarrow>
               Some (Inr (respond ready token (request_path request_line) authorization mb b d rl m))))"

section \<open>The endpoint\<close>

text \<open>The accept loop, on the results of \<open>listener.accept()\<close>: the connections whose tasks it spawned, and the error that ended it, if any has come.\<close>

fun serve_metrics :: "(io_error + 'r) list \<Rightarrow> 'r list \<times> io_error option" where
  "serve_metrics [] = ([], None)"
| "serve_metrics (Inl err # _) = ([], Some err)"
| "serve_metrics (Inr socket # rest) = (let (sockets, err) = serve_metrics rest in (socket # sockets, err))"

text \<open>The spawned tasks in the order in which they answer; the membership, the broker and the rest may change from one to the next. A task that fails is logged, one that waits for ever counts nothing.\<close>

type_synonym 's scrape_view = "readiness \<times> membership \<times> 's broker \<times> peer_directory \<times> rate_limiter option"

fun scrape_tasks ::
  "'r read_line \<Rightarrow> rstr option \<Rightarrow> ('r \<times> 's scrape_view) list \<Rightarrow> metrics \<Rightarrow> rstr option list \<times> metrics" where
  "scrape_tasks rd token [] m = ([], m)"
| "scrape_tasks rd token ((socket, ready, mb, b, d, rl) # rest) m =
     (case handle_request rd ready token mb b d rl m socket of
        Some (Inr (answer, m')) \<Rightarrow> (let (answers, m'') = scrape_tasks rd token rest m' in (Some answer # answers, m''))
      | _ \<Rightarrow> (let (answers, m'') = scrape_tasks rd token rest m in (None # answers, m'')))"

section \<open>Requests as texts\<close>

text \<open>\<open>read_line\<close> on a connection that carries a text and then ends.\<close>

definition first_line :: "rstr \<Rightarrow> rstr \<times> rstr" where
  "first_line s = (case position (\<lambda>x. x = 10) s of None \<Rightarrow> (s, []) | Some i \<Rightarrow> (take (Suc i) s, drop (Suc i) s))"

definition text_line :: "rstr read_line" where
  "text_line s = Inr (first_line s)"

lemma first_line_Nil [simp]: "first_line [] = ([], [])"
  by (simp add: first_line_def)

lemma first_line_shorter: "s \<noteq> [] \<Longrightarrow> length (snd (first_line s)) < length s"
  by (cases "position (\<lambda>x. x = 10) s") (auto simp: first_line_def dest: position_Some)

function text_lines :: "rstr \<Rightarrow> rstr list" where
  "text_lines s = (if s = [] then [] else fst (first_line s) # text_lines (snd (first_line s)))"
  by pat_completeness auto
termination by (relation "measure length") (auto intro: first_line_shorter)

declare text_lines.simps [simp del]

text \<open>What the headers of a request say: those before the first blank line, of which the last one with a name counts.\<close>

definition header_lines :: "rstr \<Rightarrow> rstr list" where
  "header_lines request = takeWhile (\<lambda>l. \<not> blank l) (tl (text_lines request))"

definition last_authorization :: "rstr list \<Rightarrow> rstr option" where
  "last_authorization ls = (case List.map_filter authorization_of ls of [] \<Rightarrow> None | vs \<Rightarrow> Some (last vs))"

lemma blank_Nil [simp]: "blank []"
  by (simp add: blank_def)

lemma read_headers_text:
  "\<exists>r. read_headers text_line s a = Some (Inr
     (case last_authorization (takeWhile (\<lambda>l. \<not> blank l) (text_lines s)) of None \<Rightarrow> a | Some v \<Rightarrow> Some v, r))"
proof (induction s arbitrary: a rule: text_lines.induct)
  case (1 s)
  show ?case
  proof (cases "s = [] \<or> blank (fst (first_line s))")
    case True
    then show ?thesis
      by (subst read_headers.simps, subst text_lines.simps)
        (auto simp: text_line_def last_authorization_def List.map_filter_def split: prod.splits)
  next
    case False
    then have step: "read_headers text_line s a = read_headers text_line (snd (first_line s))
        (case authorization_of (fst (first_line s)) of None \<Rightarrow> a | Some v \<Rightarrow> Some v)"
      by (subst read_headers.simps) (auto simp: text_line_def split: prod.splits)
    have ls: "takeWhile (\<lambda>l. \<not> blank l) (text_lines s)
        = fst (first_line s) # takeWhile (\<lambda>l. \<not> blank l) (text_lines (snd (first_line s)))"
      using False by (subst text_lines.simps) simp
    from 1 [of "case authorization_of (fst (first_line s)) of None \<Rightarrow> a | Some v \<Rightarrow> Some v"] False step ls
    show ?thesis by (auto simp: last_authorization_def List.map_filter_def split: option.splits list.splits)
  qed
qed

lemma strip_prefix_Some: "strip_prefix p s = Some v \<longleftrightarrow> s = p @ v"
  by (auto simp: strip_prefix_def) (metis append_take_drop_id)

lemma authorized_iff: "authorized a t \<longleftrightarrow> (\<exists>v. a = Some (str ''Bearer '' @ v) \<and> as_bytes v = as_bytes t)"
  by (auto simp: authorized_def constant_time_eq_iff strip_prefix_Some bind_eq_Some_conv split: option.splits)
     (metis bind.bind_lunit not_None_eq strip_prefix_Some)

lemma handle_request_text:
  "handle_request text_line ready token mb b d rl m request = Some (Inr
     (respond ready token (request_path (fst (first_line request))) (last_authorization (header_lines request)) mb b d rl m))"
proof -
  have "header_lines request = takeWhile (\<lambda>l. \<not> blank l) (text_lines (snd (first_line request)))"
    by (cases "request = []") (simp_all add: header_lines_def text_lines.simps [of request] text_lines.simps [of "[]"])
  then obtain r where "read_headers text_line (snd (first_line request)) None = Some (Inr (last_authorization (header_lines request), r))"
    using read_headers_text [of "snd (first_line request)" None] by (auto split: option.splits)
  then show ?thesis by (cases "first_line request") (simp add: handle_request_def text_line_def)
qed

section \<open>Properties\<close>

text \<open>C29. The scrape is gated exactly by the token. A request for anything but a health check gets the metrics if and only if no token is
  configured or its last authorization header presents the token, byte for byte, as a bearer token; otherwise it gets a 401 and is counted.
  The health checks answer everyone and count nothing.\<close>

theorem scrape_gate_exact:
  fixes token :: "rstr option" and request :: rstr
  defines "path \<equiv> request_path (fst (first_line request))"
  defines "admitted \<equiv> token = None
    \<or> (\<exists>t v. token = Some t \<and> last_authorization (header_lines request) = Some (str ''Bearer '' @ v) \<and> as_bytes v = as_bytes t)"
  shows "\<exists>answer m'. handle_request text_line ready token mb b d rl m request = Some (Inr (answer, m'))
    \<and> (path = str ''/livez'' \<longrightarrow> answer = live_response \<and> m' = m)
    \<and> (path = str ''/readyz'' \<longrightarrow> answer = ready_response ready \<and> m' = m)
    \<and> (path \<notin> {str ''/livez'', str ''/readyz''} \<longrightarrow>
         (if admitted then answer = scrape_response (render_prometheus mb b d m rl) \<and> m' = m
          else answer = unauthorized_response \<and> m' = record_metrics_auth_rejection m))"
proof -
  have ne: "str ''/livez'' \<noteq> str ''/readyz''" by (simp add: str_def)
  have gate: "(case token of None \<Rightarrow> False | Some e \<Rightarrow> \<not> authorized (last_authorization (header_lines request)) e) \<longleftrightarrow> \<not> admitted"
    by (auto simp: admitted_def authorized_iff split: option.splits)
  show ?thesis using ne by (auto simp: handle_request_text respond_def path_def [symmetric] gate)
qed

text \<open>The request \<open>GET /m\<close> with the header \<open>authorization: Bearer t\<close>.\<close>

definition example_request :: rstr where
  "example_request = str ''GET /m HTTP/1.1'' @ CRLF @ str ''authorization: Bearer t'' @ CRLF @ CRLF"

theorem scrape_gate_exact_witness:
  "(\<exists>answer. handle_request text_line readiness_new (Some (str ''t'')) membership_new (broker_new :: unit broker) peer_directory_new None metrics_new
      example_request = Some (Inr (answer, metrics_new)))
   \<and> handle_request text_line readiness_new (Some (str ''u'')) membership_new (broker_new :: unit broker) peer_directory_new None metrics_new
      example_request = Some (Inr (unauthorized_response, record_metrics_auth_rejection metrics_new))"
proof -
  have path: "request_path (fst (first_line example_request)) = str ''/m''"
    by (simp add: request_path_def first_line_def example_request_def CRLF_def str_def split_whitespace_def is_whitespace_def split_once_def)
  have auth: "last_authorization (header_lines example_request) = Some (str ''Bearer '' @ str ''t'')"
    by (simp add: header_lines_def example_request_def CRLF_def str_def text_lines.simps first_line_def blank_def last_authorization_def
        List.map_filter_def authorization_of_def split_once_def eq_ignore_ascii_case_def to_ascii_lowercase_def to_ascii_lower_def
        is_ascii_upper_def trim_def is_whitespace_def)
  have ne: "str ''/m'' \<noteq> str ''/livez''" "str ''/m'' \<noteq> str ''/readyz''" "as_bytes (str ''t'') \<noteq> as_bytes (str ''u'')"
    by (simp_all add: str_def as_bytes_def utf8_char_def)
  from scrape_gate_exact [of readiness_new "Some (str ''t'')" membership_new "broker_new :: unit broker" peer_directory_new None metrics_new example_request]
    scrape_gate_exact [of readiness_new "Some (str ''u'')" membership_new "broker_new :: unit broker" peer_directory_new None metrics_new example_request]
  show ?thesis by (auto simp: path auth ne)
qed



section \<open>Concurrent scrapes\<close>

lemma serve_metrics_accepts:
  "serve_metrics results = (map projr (takeWhile (\<lambda>a. \<not> isl a) results), case dropWhile (\<lambda>a. \<not> isl a) results of Inl err # _ \<Rightarrow> Some err | _ \<Rightarrow> None)"
  by (induction results rule: serve_metrics.induct) simp_all

text \<open>A request that was refused, and one that was not answered at all.\<close>

definition request_of :: "'r read_line \<Rightarrow> 'r \<Rightarrow> (rstr \<times> rstr option) option" where
  "request_of rd r =
     (case rd r of
        Inl _ \<Rightarrow> None
      | Inr (line, r') \<Rightarrow> (case read_headers rd r' None of Some (Inr (a, _)) \<Rightarrow> Some (request_path line, a) | _ \<Rightarrow> None))"

definition refused :: "rstr option \<Rightarrow> (rstr \<times> rstr option) option \<Rightarrow> bool" where
  "refused token req \<longleftrightarrow> (case (token, req) of
     (Some t, Some (path, a)) \<Rightarrow> path \<notin> {str ''/livez'', str ''/readyz''} \<and> \<not> authorized a t | _ \<Rightarrow> False)"

lemma handle_request_metrics:
  "handle_request rd ready token mb b d rl m r = Some (Inr (answer, m')) \<Longrightarrow>
     m' = (if refused token (request_of rd r) then record_metrics_auth_rejection m else m)"
  by (auto simp: handle_request_def request_of_def refused_def respond_def split: sum.splits option.splits if_splits prod.splits)

lemma handle_request_no_answer:
  "(\<forall>x. handle_request rd ready token mb b d rl m r \<noteq> Some (Inr x)) \<Longrightarrow> \<not> refused token (request_of rd r)"
  by (auto simp: handle_request_def request_of_def refused_def simp del: split_paired_All split: sum.splits option.splits prod.splits)

text \<open>Scrapes do not disturb each other: in whatever order the tasks answer, and whatever happens to some of them, every refused request is counted once and nothing else is.\<close>

theorem scrapes_counted_once:
  "snd (scrape_tasks rd token tasks m) =
     (record_metrics_auth_rejection ^^ length (filter (\<lambda>(r, _). refused token (request_of rd r)) tasks)) m"
proof (induction tasks arbitrary: m)
  case (Cons task rest)
  obtain r ready mb b d rl where task: "task = (r, ready, mb, b, d, rl)" by (metis prod.exhaust)
  let ?h = "handle_request rd ready token mb b d rl m r"
  show ?case
  proof (cases "\<exists>x. ?h = Some (Inr x)")
    case True
    then obtain answer m' where h: "?h = Some (Inr (answer, m'))" by (metis prod.exhaust)
    have "snd (scrape_tasks rd token (task # rest) m) = snd (scrape_tasks rd token rest m')" by (simp add: task h split: prod.split)
    with Cons [of m'] handle_request_metrics [OF h] show ?thesis by (simp add: task funpow_swap1)
  next
    case False
    then have "snd (scrape_tasks rd token (task # rest) m) = snd (scrape_tasks rd token rest m)"
      by (cases ?h) (auto simp: task simp del: split_paired_Ex split: prod.splits sum.splits)
    with False Cons [of m] handle_request_no_answer [of rd ready token mb b d rl m r] show ?thesis by (simp add: task del: split_paired_Ex)
  qed
qed simp

end
