(* ===== verification/Typing.thy ===== *)
theory Typing
  imports Entry_Points
begin

text \<open>
  Names stay well-formed. A \<open>Topic\<close> and a \<open>TopicFilter\<close> are strings that were validated when they were parsed or
  deserialized; this theory shows that in every run of a node all the names it keeps, in the broker's registries, the subscriptions, the
  interest and the tasks, are such strings, whatever arrives on its connections. So the \<open>expect\<close> of \<open>as_topic\<close> never fails in a run.
\<close>

section \<open>Names of messages\<close>

fun topics_in :: "message_kind \<Rightarrow> topic set" where
  "topics_in (Publish t _ _ _ reply_to _) = insert t (set_option reply_to)"
| "topics_in (TopicsReply _ ts) = ts_topic ` set ts"
| "topics_in _ = {}"

fun filters_in :: "message_kind \<Rightarrow> topic_filter set" where
  "filters_in (Subscribe f _ _ _) = {f}"
| "filters_in (Unsubscribe f) = {f}"
| "filters_in _ = {}"

text \<open>The derived \<open>Deserialize\<close> of a message builds the topics and filters in it with theirs.\<close>

definition codec_deserializes :: "codec \<Rightarrow> bool" where
  "codec_deserializes c \<longleftrightarrow> (\<forall>bs e. cbor_decode c bs = Some e \<longrightarrow>
     (\<forall>t \<in> topics_in (env_kind e). \<exists>r :: unit + rstr. topic_deserialize r = Inr t)
     \<and> (\<forall>f \<in> filters_in (env_kind e). \<exists>r :: unit + rstr. filter_deserialize r = Inr f))"

definition wf_kind :: "message_kind \<Rightarrow> bool" where
  "wf_kind k \<longleftrightarrow> (\<forall>t \<in> topics_in k. wf_topic t) \<and> (\<forall>f \<in> filters_in k. wf_filter f)"

lemma decoded_wf: "codec_deserializes c \<Longrightarrow> from_bytes c bs = Inr e \<Longrightarrow> wf_kind (env_kind e)"
  by (auto simp: codec_deserializes_def from_bytes_def wf_kind_def topic_deserialize_Inr filter_deserialize_Inr split: option.splits)

section \<open>Names of the broker\<close>

definition wf_broker :: "'s broker \<Rightarrow> bool" where
  "wf_broker b \<longleftrightarrow> (\<forall>t \<in> keys (tm_map (br_topics b)). wf_topic t) \<and> (\<forall>f \<in> keys (tm_map (br_patterns b)). wf_filter f)
     \<and> (\<forall>k \<in> keys (br_groups b). wf_filter (fst k))"

lemma wf_broker_cong:
  "br_topics b' = br_topics b \<Longrightarrow> br_patterns b' = br_patterns b \<Longrightarrow> br_groups b' = br_groups b \<Longrightarrow> wf_broker b' \<longleftrightarrow> wf_broker b"
  by (simp add: wf_broker_def)

lemma wf_broker_default: "wf_broker broker_default" "wf_broker broker_new" "wf_broker (with_store s)"
  by (simp_all add: wf_broker_def broker_new_def with_store_def broker_default_def topic_map_empty_def)

lemma get_or_insert_keys:
  assumes "get_or_insert rt k tm h ev w = (a, tm', h', ev', w')"
  shows "keys (tm_map tm') \<subseteq> insert k (keys (tm_map tm))"
  using assms
proof (cases rule: get_or_insert_cases)
  case old
  then show ?thesis by (auto simp: tm_touch_def split: option.splits)
next
  case (new ch)
  from new(5) show ?thesis by (cases rule: evict_cases) auto
qed

lemma wf_topic_channel_of: "topic_channel_of rt t b w = (a, b', w') \<Longrightarrow> wf_topic t \<Longrightarrow> wf_broker b \<Longrightarrow> wf_broker b'"
  by (auto simp: topic_channel_of_def wf_broker_def dest!: get_or_insert_keys split: prod.splits)

lemma wf_pattern_channel_of: "pattern_channel_of rt f b w = (a, b', w') \<Longrightarrow> wf_filter f \<Longrightarrow> wf_broker b \<Longrightarrow> wf_broker b'"
  by (auto simp: pattern_channel_of_def wf_broker_def dest!: get_or_insert_keys split: prod.splits)

lemma wf_broker_channels [simp]: "wf_broker (b\<lparr>br_channels := h\<rparr>) \<longleftrightarrow> wf_broker b"
  by (simp add: wf_broker_def)

lemma wf_subscribe:
  assumes "broker_subscribe rt f b w = (r, b', w')" and "wf_filter f" and "wf_broker b"
  shows "wf_broker b'"
proof (cases "as_topic f")
  case (Some t)
  then have "wf_topic t" using assms(2) by (auto simp: wf_literal_topic)
  with assms show ?thesis unfolding broker_subscribe_def Some by (auto simp: subscribe_exact_def Let_def dest: wf_topic_channel_of split: prod.splits)
next
  case None
  with assms show ?thesis unfolding broker_subscribe_def None by (auto simp: subscribe_pattern_def Let_def dest: wf_pattern_channel_of split: prod.splits)
qed

lemma wf_subscribe_durable: "subscribe_durable rt ops f p b w = (r, b', w') \<Longrightarrow> wf_filter f \<Longrightarrow> wf_broker b \<Longrightarrow> wf_broker b'"
  by (auto simp: subscribe_durable_def Let_def dest: wf_subscribe split: option.splits outcome.splits sum.splits prod.splits)

lemma wf_record_delivered [simp]: "wf_broker (record_delivered ops p t i b) \<longleftrightarrow> wf_broker b"
  by (simp add: record_delivered_def wf_broker_def split: option.split)

lemma keys_groups_publish: "groups_publish rt t e gs w = (n, gs', w') \<Longrightarrow> keys gs' = keys gs"
  using groups_publish_keys [of rt t e gs w] by (metis fst_conv keys_def list.set_map snd_conv)

lemma wf_publish:
  assumes "broker_publish rt ops t e b w = (n, b', w')" and "wf_topic t" and "wf_broker b"
  shows "wf_broker b'"
proof -
  have seen: "wf_broker (snd (publish_seen e b))" using assms(3) by (auto simp: publish_seen_def wf_broker_def split: prod.split bool.split)
  have persist: "wf_broker (publish_persist ops e b0) \<longleftrightarrow> wf_broker b0" for b0
    by (simp add: publish_persist_def wf_broker_def Let_def split: option.split prod.split)
  have exact: "wf_broker b2" if "publish_exact rt t e b1 v = (k, b2, v')" "wf_broker b1" for b1 v k b2 v'
    using that assms(2) by (auto simp: publish_exact_def Let_def dest: wf_topic_channel_of split: prod.splits)
  have patterns: "wf_broker b2" if "publish_patterns rt t e b1 v = (k, b2, v')" "wf_broker b1" for b1 v k b2 v'
    using that by (auto simp: publish_patterns_def split: prod.splits)
  have groups: "wf_broker b2" if "publish_groups rt t e b1 v = (k, b2, v')" "wf_broker b1" for b1 v k b2 v'
    using that by (auto simp: publish_groups_def wf_broker_def dest!: keys_groups_publish split: prod.splits)
  show ?thesis
    using assms(1) seen by (auto simp: broker_publish_def Let_def persist dest!: exact patterns groups split: prod.splits if_splits)
qed

lemma wf_dead_letter: "dead_letter rt ops cfg e b w = (r, b', w') \<Longrightarrow> wf_broker b \<Longrightarrow> wf_broker b'"
  by (auto simp: dead_letter_def topic_from_str_Inr Let_def dest: wf_publish split: option.splits message_kind.splits sum.splits prod.splits)

lemma wf_dead_letter_all: "dead_letter_all rt ops cfg es n b w = (r, b', w') \<Longrightarrow> wf_broker b \<Longrightarrow> wf_broker b'"
  by (induction es arbitrary: n b w) (auto dest: wf_dead_letter split: prod.splits)

lemma keys_sweep: "sweep_group_leases rt now timeout mx gs w = Returns (es, gs', w') \<Longrightarrow> keys gs' = keys gs"
proof -
  have "map fst gs' = map fst gs" if "sweep_group_leases rt now timeout mx gs w = Returns (es, gs', w')" for es gs' w
    using that by (induction gs arbitrary: w es gs') (fastforce split: outcome.splits)+
  then show "sweep_group_leases rt now timeout mx gs w = Returns (es, gs', w') \<Longrightarrow> keys gs' = keys gs" by (metis keys_def list.set_map)
qed

lemma wf_group_key: "map_of (br_groups b) (f, g) = Some x \<Longrightarrow> wf_broker b \<Longrightarrow> wf_filter f"
  by (auto simp: wf_broker_def dest!: map_of_Some_keys)

lemma wf_groups:
  "wf_filter f \<Longrightarrow> wf_broker b \<Longrightarrow> wf_broker (broker_join_group f g tx ack b)"
  "wf_broker b \<Longrightarrow> wf_broker (broker_leave_group f g tx b)"
  "wf_broker b \<Longrightarrow> wf_broker (broker_ack_group_delivery f g i b)"
  "broker_sweep_group_leases rt now timeout mx b w = Returns (es, b', w') \<Longrightarrow> wf_broker b \<Longrightarrow> wf_broker b'"
proof -
  show "wf_filter f \<Longrightarrow> wf_broker b \<Longrightarrow> wf_broker (broker_join_group f g tx ack b)"
    by (auto simp: broker_join_group_def wf_broker_def join_group_def Let_def)
  show "wf_broker b \<Longrightarrow> wf_broker (broker_leave_group f g tx b)" "wf_broker b \<Longrightarrow> wf_broker (broker_ack_group_delivery f g i b)"
    using wf_group_key [of b f g]
    by (auto simp: broker_leave_group_def broker_ack_group_delivery_def wf_broker_def leave_group_def ack_group_delivery_def split: option.splits)
  show "broker_sweep_group_leases rt now timeout mx b w = Returns (es, b', w') \<Longrightarrow> wf_broker b \<Longrightarrow> wf_broker b'"
    by (auto simp: broker_sweep_group_leases_def wf_broker_def dest!: keys_sweep split: outcome.splits)
qed

lemma wf_ttl_sweep: "ttl_sweep_once rt ops now ttl cfg b m w = (b', m', w') \<Longrightarrow> wf_broker b \<Longrightarrow> wf_broker b'"
  by (auto simp: ttl_sweep_once_def Let_def wf_broker_cong [of "b\<lparr>br_store := s\<rparr>" b for s] dest: wf_dead_letter_all
      split: option.splits prod.splits outcome.splits sum.splits if_splits)

lemma wf_work_queue_sweep:
  "work_queue_sweep_once rt ops cfg timeout mx b m w = Returns (b', m', w') \<Longrightarrow> wf_broker b \<Longrightarrow> wf_broker b'"
  by (auto simp: work_queue_sweep_once_def Let_def dest!: wf_groups(4) dest: wf_dead_letter_all split: outcome.splits prod.splits if_splits)

section \<open>Names of the node\<close>

definition wf_filters :: "(topic_filter, 'v) hmap \<Rightarrow> bool" where
  "wf_filters m \<longleftrightarrow> (\<forall>f \<in> keys m. wf_filter f)"

definition wf_node :: "'s node \<Rightarrow> bool" where
  "wf_node n \<longleftrightarrow> wf_broker (nd_broker n) \<and> wf_filters (in_counts (nd_interest n))
     \<and> (\<forall>i en. map_of (nd_connections n) i = Some en \<longrightarrow> wf_filters (ce_forwarders en))
     \<and> (\<forall>h tk. map_of (nd_tasks n) h = Some tk \<longrightarrow> wf_filter (tk_filter tk))"

lemma wf_filters_simps [simp]:
  "wf_filters []" "wf_filters (AList.update f v m) \<longleftrightarrow> wf_filter f \<and> wf_filters m"
  "wf_filters m \<Longrightarrow> wf_filters (AList.delete f m)" "wf_filters m \<Longrightarrow> wf_filters (filter P m)"
  by (auto simp: wf_filters_def keys_def [of "filter P m"] keys_def [of m] keys_def [of "[]"])

lemma wf_filtersD: "wf_filters m \<Longrightarrow> map_of m f = Some v \<Longrightarrow> wf_filter f"
  by (auto simp: wf_filters_def dest: map_of_Some_keys)

lemma wf_node_parts:
  "wf_node n \<Longrightarrow> wf_broker (nd_broker n)" "wf_node n \<Longrightarrow> wf_filters (in_counts (nd_interest n))"
  "wf_node n \<Longrightarrow> wf_filters (forwarders_of i n)" "wf_node n \<Longrightarrow> map_of (nd_tasks n) h = Some tk \<Longrightarrow> wf_filter (tk_filter tk)"
  by (auto simp: wf_node_def forwarders_of_def split: option.split)

lemma wf_node_update [simp]:
  "wf_node (n\<lparr>nd_membership := m\<rparr>) \<longleftrightarrow> wf_node n" "wf_node (n\<lparr>nd_peer_links := l\<rparr>) \<longleftrightarrow> wf_node n"
  "wf_node (n\<lparr>nd_next_id := u\<rparr>) \<longleftrightarrow> wf_node n" "wf_node (n\<lparr>nd_metrics := mt\<rparr>) \<longleftrightarrow> wf_node n"
  "wf_node (n\<lparr>nd_discover := d\<rparr>) \<longleftrightarrow> wf_node n" "wf_node (n\<lparr>nd_discovered := ds\<rparr>) \<longleftrightarrow> wf_node n"
  "wf_node (n\<lparr>nd_allowed_peers := ap\<rparr>) \<longleftrightarrow> wf_node n" "wf_node (n\<lparr>nd_topic_acl := ta\<rparr>) \<longleftrightarrow> wf_node n"
  "wf_node (n\<lparr>nd_peer_topic_acl := pa\<rparr>) \<longleftrightarrow> wf_node n" "wf_node (n\<lparr>nd_peer_topic_filter := pf\<rparr>) \<longleftrightarrow> wf_node n"
  "wf_node (n\<lparr>nd_rate_limiter := rl\<rparr>) \<longleftrightarrow> wf_node n" "wf_node (n\<lparr>nd_next_task := nt\<rparr>) \<longleftrightarrow> wf_node n"
  "wf_node (n\<lparr>nd_notified := no\<rparr>) \<longleftrightarrow> wf_node n" "wf_node (n\<lparr>nd_readiness := rd\<rparr>) \<longleftrightarrow> wf_node n"
  "wf_node (n\<lparr>nd_node_id := ni\<rparr>) \<longleftrightarrow> wf_node n" "wf_node (n\<lparr>nd_dead_letter_topic := dl\<rparr>) \<longleftrightarrow> wf_node n"
  "wf_node (n\<lparr>nd_tls_acceptor := ac\<rparr>) \<longleftrightarrow> wf_node n" "wf_node (n\<lparr>nd_tls_connector := co\<rparr>) \<longleftrightarrow> wf_node n"
  by (simp_all add: wf_node_def)

lemma wf_node_set:
  "wf_node n \<Longrightarrow> wf_broker b \<Longrightarrow> wf_node (n\<lparr>nd_broker := b\<rparr>)"
  "wf_node n \<Longrightarrow> wf_filters (in_counts i) \<Longrightarrow> wf_node (n\<lparr>nd_interest := i\<rparr>)"
  by (simp_all add: wf_node_def)

lemma wf_registry:
  "wf_node n \<Longrightarrow> wf_filters fs \<Longrightarrow> wf_node (set_forwarders i fs n)" "wf_node n \<Longrightarrow> wf_node (set_is_peer i n)"
  "wf_node n \<Longrightarrow> wf_node (registry_unregister i n)" "wf_node n \<Longrightarrow> wf_node (abort_task h n)"
  "wf_node n \<Longrightarrow> spawn_task k f tx n = (h, n') \<Longrightarrow> wf_filter f \<Longrightarrow> wf_node n'"
  "wf_node n \<Longrightarrow> connect fp tx d n = (cx, n') \<Longrightarrow> wf_node n'"
  by (auto simp: wf_node_def set_forwarders_def set_is_peer_def registry_unregister_def abort_task_def spawn_task_def connect_def
      registry_register_def update_conv' delete_conv' Let_def split: option.splits if_splits)

lemma wf_tasks:
  "wf_node n \<Longrightarrow> wf_filter (tk_filter tk) \<Longrightarrow> wf_node (n\<lparr>nd_tasks := AList.update h tk (nd_tasks n)\<rparr>)"
  "wf_node n \<Longrightarrow> wf_node (n\<lparr>nd_tasks := AList.delete h (nd_tasks n)\<rparr>)"
  by (simp_all add: wf_node_def update_conv' delete_conv')

lemma wf_interest:
  "wf_filters (in_counts i) \<Longrightarrow> wf_filter f \<Longrightarrow> interest_subscribe f i = (b, i') \<Longrightarrow> wf_filters (in_counts i')"
  "wf_filters (in_counts i) \<Longrightarrow> interest_unsubscribe f i = (b, i') \<Longrightarrow> wf_filters (in_counts i')"
  by (auto simp: interest_subscribe_def interest_unsubscribe_def Let_def dest: wf_filtersD split: option.splits if_splits)

lemma wf_stop: "wf_node n \<Longrightarrow> wf_node (stop_subscription f tx sub n)"
  by (cases sub) (auto intro: wf_registry(4) wf_node_set(1) wf_groups(2) wf_node_parts(1))

lemma wf_stop_all: "wf_node n \<Longrightarrow> wf_node (fst (stop_all rt tx subs n w))"
proof (induction rt tx subs n w rule: stop_all.induct)
  case (2 rt tx f sub subs n w)
  let ?n = "stop_subscription f tx sub n"
  obtain lost i where i: "interest_unsubscribe f (nd_interest ?n) = (lost, i)" by fastforce
  have "wf_node (?n\<lparr>nd_interest := i\<rparr>)"
    by (rule wf_node_set(2) [OF wf_stop [OF 2(2)] wf_interest(2) [OF wf_node_parts(2) [OF wf_stop [OF 2(2)]] i]])
  with 2(1) [OF refl i [symmetric] refl refl] i show ?case by (simp add: Let_def)
qed simp

lemma wf_remove: "wf_node n \<Longrightarrow> wf_node (snd (remove_subscription cx f n))"
  by (auto simp: remove_subscription_def Let_def intro!: wf_stop wf_registry(1) wf_filters_simps(3) wf_node_parts(3) split: option.split)

lemma wf_open:
  assumes "wf_node n" and "wf_filter f" and "open_subscription cx f ack grp durable p n = Returns (sub, n')"
  shows "wf_node n'"
  using assms by (auto simp: open_subscription_def Let_def intro!: wf_node_set(1) wf_groups(1) wf_node_parts(1) dest: wf_registry(5) split: option.splits if_splits prod.splits)

lemma wf_insert: "wf_node n \<Longrightarrow> wf_filter f \<Longrightarrow> subscribe_insert cx f ack grp durable p n = Returns (new, n') \<Longrightarrow> wf_node n'"
  by (auto simp: subscribe_insert_def Let_def intro!: wf_registry(1) intro: wf_node_parts(3) dest: wf_open split: if_splits outcome.splits)

lemma wf_refuse: "wf_node n \<Longrightarrow> subscribe_refuse rt cx e f n w = (ok, n', w') \<Longrightarrow> wf_node n'"
  by (auto simp: subscribe_refuse_def count_acl_rejection_def Let_def split: prod.splits)

lemma wf_commit: "wf_node n \<Longrightarrow> wf_filter f \<Longrightarrow> subscribe_commit rt cx e f new n w = (ok, n', w') \<Longrightarrow> wf_node n'"
  by (auto simp: subscribe_commit_def Let_def intro!: wf_node_set(2) dest: wf_interest(1) [OF wf_node_parts(2)] split: prod.splits if_splits)

lemma wf_settle: "wf_node n \<Longrightarrow> wf_filter f \<Longrightarrow> subscribe_settle rt cx e f new n w = (ok, n', w') \<Longrightarrow> wf_node n'"
  by (auto simp: subscribe_settle_def dest: wf_commit wf_refuse [OF wf_remove] split: if_splits)

lemma wf_handle_subscribe:
  "wf_node n \<Longrightarrow> wf_filter f \<Longrightarrow> handle_subscribe rt cx e f ack grp durable n w = Returns (ok, n', w') \<Longrightarrow> wf_node n'"
  by (auto simp: handle_subscribe_def dest: wf_refuse wf_settle [OF wf_insert] split: option.splits if_splits outcome.splits prod.splits)

lemma wf_handle_unsubscribe: "wf_node n \<Longrightarrow> handle_unsubscribe rt cx e f n w = (ok, n', w') \<Longrightarrow> wf_node n'"
  using wf_remove [of n cx f]
  by (auto simp: handle_unsubscribe_def Let_def intro!: wf_node_set(2) dest: wf_interest(2) [OF wf_node_parts(2)] split: prod.splits if_splits)

lemma wf_limiter: "limiter_allows rt rnd cx n w = (ok, n') \<Longrightarrow> wf_node n \<Longrightarrow> wf_node n'"
  by (auto simp: limiter_allows_def split: if_splits option.splits prod.splits)

lemma wf_handle_publish:
  assumes "wf_node n" and "wf_kind (env_kind e)" and "handle_publish rt ops rnd cx e n w = Returns (ok, n', w')"
  shows "wf_node n'"
proof (cases "env_kind e")
  case (Publish t pl r ct rep inrep)
  obtain allowed n1 where l: "limiter_allows rt rnd cx n w = (allowed, n1)" by fastforce
  obtain k b w1 where p: "broker_publish rt ops t e (nd_broker n1) w = (k, b, w1)" by (metis prod_cases3)
  have n1: "wf_node n1" using wf_limiter [OF l assms(1)] .
  have "wf_broker b" using wf_publish [OF p _ wf_node_parts(1) [OF n1]] assms(2) by (simp add: Publish wf_kind_def)
  with n1 assms(1,3) show ?thesis
    by (auto simp: handle_publish_def Publish l p count_acl_rejection_def Let_def wf_node_set(1) split: if_splits prod.splits)
qed (use assms in \<open>simp_all add: handle_publish_def\<close>)

lemma wf_handle_ack: "wf_node n \<Longrightarrow> wf_node (handle_ack cx i n)"
proof -
  have "wf_node n \<Longrightarrow> wf_node (ack_subscriptions i subs n)" for subs
  proof (induction i subs n rule: ack_subscriptions.induct)
    case (2 i f h subs n)
    have "wf_node (push_ack h i n)"
      using wf_node_parts(4) [OF 2(2)] by (simp add: push_ack_def wf_tasks(1) 2(2) split: option.split)
    with 2(1) show ?case by simp
  qed (auto intro: wf_node_set(1) wf_groups(3) wf_node_parts(1))
  then show "wf_node n \<Longrightarrow> wf_node (handle_ack cx i n)" by (simp add: handle_ack_def)
qed

lemma wf_learn: "wf_node n \<Longrightarrow> wf_node (snd (learn_loop ps n))"
  by (induction ps arbitrary: n) (simp_all add: Let_def case_prod_beta)

lemma wf_hold: "wf_node n \<Longrightarrow> hold_link rt p addr cx n w = (cx', n', w') \<Longrightarrow> wf_node n'"
  by (auto simp: hold_link_def register_peer_link_def Let_def split: prod.splits option.splits if_splits)

lemma wf_learn_peers: "wf_node n \<Longrightarrow> learn_peers rt ps n w = (n', w') \<Longrightarrow> wf_node n'"
  using wf_learn [of n ps] by (auto simp: learn_peers_def split: prod.splits if_splits)

lemma wf_admit: "wf_node n \<Longrightarrow> admit_initial_peer rt info cx n w = (ok, cx', n', w') \<Longrightarrow> wf_node n'"
  using wf_registry(2) [of n "cx_id cx"] by (auto simp: admit_initial_peer_def Let_def dest: wf_hold [rotated] split: prod.splits if_splits)

lemma wf_hello: "wf_node n \<Longrightarrow> handle_hello rt e addr cx n w = (ok, cx', n', w') \<Longrightarrow> wf_node n'"
  using wf_registry(2) [of n "cx_id cx"] by (auto simp: handle_hello_def Let_def dest: wf_hold [rotated] split: prod.splits if_splits)

lemma wf_dispatch:
  assumes "wf_node n" and "wf_kind (env_kind e)" and "dispatch rt ops rnd e cx n w = Returns (ok, cx', n', w')"
  shows "wf_node n'"
  using assms
  by (cases "env_kind e") (auto simp: dispatch_def wf_kind_def wf_handle_ack
      dest: wf_handle_subscribe wf_handle_unsubscribe wf_handle_publish [OF _ assms(2)] wf_hello wf_learn_peers split: outcome.splits prod.splits)

lemma wf_event:
  assumes "codec_deserializes c" and "wf_node n" and "connection_event_step rt ops rnd c ev cx n w = Returns (ok, cx', n', w')"
  shows "wf_node n'"
proof (cases ev)
  case (FrameRead bytes)
  show ?thesis
  proof (cases "from_bytes c bytes")
    case (Inr e)
    with assms(3) FrameRead
    have "dispatch rt ops rnd (e\<lparr>env_sender := authenticated_sender rt cx (env_sender e)\<rparr>) cx n w = Returns (ok, cx', n', w')" by simp
    with wf_dispatch [OF assms(2), of "e\<lparr>env_sender := authenticated_sender rt cx (env_sender e)\<rparr>"] decoded_wf [OF assms(1) Inr] show ?thesis by simp
  qed (use assms FrameRead in simp)
qed (use assms in \<open>auto split: prod.splits\<close>)

lemma wf_drop: "wf_node n \<Longrightarrow> wf_node (drop_context cx n)"
  by (simp add: drop_context_def Let_def wf_registry(3) split: option.split)

lemma wf_end: "wf_node n \<Longrightarrow> connection_end rt cx n w = (n', w') \<Longrightarrow> wf_node n'"
  using wf_stop_all [of "set_forwarders (cx_id cx) [] n" rt "cx_outgoing_tx cx" "forwarders_of (cx_id cx) n" w]
  by (auto simp: connection_end_def shut_down_def Let_def wf_registry(1) intro!: wf_drop split: prod.splits option.splits)

lemma wf_reconcile: "wf_node n \<Longrightarrow> wf_node (fst (reconcile_each rt is n w))"
proof (induction rt "is" n w rule: reconcile_each.induct)
  case (2 rt i "is" n w)
  from 2(2) have "wf_node (fst (reconcile_connection rt i n w))"
    by (auto simp: reconcile_connection_def Let_def wf_node_def [of n] intro!: wf_stop_all wf_registry(1) split: option.split)
  with 2(1) show ?case by (cases "reconcile_connection rt i n w") simp
qed simp

lemma wf_reload: "wf_node n \<Longrightarrow> apply_reload rt a n w = (n', w') \<Longrightarrow> wf_node n'"
  using wf_reconcile [of "install_acls a n" rt "map fst (nd_connections (install_acls a n))" w]
  by (auto simp: apply_reload_def reconcile_topic_acls_def install_acls_def Let_def split: prod.splits)

section \<open>Names of the tasks\<close>

lemma wf_forward_all_durable: "forward_all_durable rt ops p t tx es ld b w = (ok, ld', b', w') \<Longrightarrow> wf_broker b' \<longleftrightarrow> wf_broker b"
  by (induction es arbitrary: ld b w) (auto split: prod.splits bool.splits)

lemma wf_forwarder:
  "forwarder_start rt f tx b m w = (st, b', m', w') \<Longrightarrow> wf_filter f \<Longrightarrow> wf_broker b \<Longrightarrow> wf_broker b'"
  "forwarder_recv rt f tx x s b m w = (st, b', m', w') \<Longrightarrow> wf_filter f \<Longrightarrow> wf_broker b \<Longrightarrow> wf_broker b'"
  by (auto simp: forwarder_start_def Let_def dest: wf_subscribe split: prod.splits)
    (cases s; cases x; auto simp: Let_def dest: wf_subscribe split: prod.splits)

lemma wf_durable_forwarder:
  "durable_forwarder_start rt ops f t p tx b m w = (st, b', m', w') \<Longrightarrow> wf_filter f \<Longrightarrow> wf_broker b \<Longrightarrow> wf_broker b'"
  "durable_forwarder_recv rt ops f t p tx x s b m w = (st, b', m', w') \<Longrightarrow> wf_filter f \<Longrightarrow> wf_broker b \<Longrightarrow> wf_broker b'"
  by (auto simp: durable_forwarder_start_def Let_def wf_forward_all_durable dest: wf_subscribe_durable split: prod.splits sum.splits)
    (cases s; cases x; auto simp: Let_def wf_forward_all_durable dest: wf_subscribe split: prod.splits bool.splits)

lemma wf_ack_forwarder:
  "ack_forwarder_start rt f tx timeout mx b m w = (st, b', m', w') \<Longrightarrow> wf_filter f \<Longrightarrow> wf_broker b \<Longrightarrow> wf_broker b'"
  "ack_forwarder_recv rt f tx x s b m w = (st, b', m', w') \<Longrightarrow> wf_filter f \<Longrightarrow> wf_broker b \<Longrightarrow> wf_broker b'"
  "ack_forwarder_sweep rt ops cfg tx s b m w = Returns (st, b', m', w') \<Longrightarrow> wf_broker b \<Longrightarrow> wf_broker b'"
    apply (auto simp: ack_forwarder_start_def Let_def dest: wf_subscribe split: prod.splits)[1]
   apply (cases s; cases x; auto simp: Let_def dest: wf_subscribe split: prod.splits bool.splits)
  apply (cases s; auto simp: ack_forwarder_give_up_def Let_def dest: wf_dead_letter_all split: prod.splits bool.splits outcome.splits if_splits)
  done

lemma wf_task_run:
  assumes "task_run rt ops ev tk b m w = Returns (tk', b', m', w')" and "wf_filter (tk_filter tk)" and "wf_broker b"
  shows "wf_broker b' \<and> (\<forall>t. tk' = Some t \<longrightarrow> tk_filter t = tk_filter tk)"
  using assms
  by (cases ev; cases "tk_state tk"; cases "tk_kind tk")
    (auto simp: task_run_def dest: wf_forwarder wf_durable_forwarder wf_ack_forwarder split: prod.splits list.splits outcome.splits)

lemma wf_task:
  assumes "task_step rt ops ev h n w = Returns (n', w')" and "wf_node n"
  shows "wf_node n'"
proof (cases "map_of (nd_tasks n) h")
  case None
  with assms show ?thesis by (simp add: task_step_def)
next
  case (Some tk)
  with assms(1) obtain tk' b m where r: "task_run rt ops ev tk (nd_broker n) (nd_metrics n) w = Returns (tk', b, m, w')"
    and n': "n' = n\<lparr>nd_broker := b, nd_metrics := m,
       nd_tasks := (case tk' of None \<Rightarrow> AList.delete h (nd_tasks n) | Some t \<Rightarrow> AList.update h t (nd_tasks n))\<rparr>"
    by (auto simp: task_step_def split: outcome.splits)
  note f = wf_node_parts(4) [OF assms(2) Some]
  have t: "wf_broker b" "\<And>t. tk' = Some t \<Longrightarrow> wf_filter (tk_filter t)"
    using wf_task_run [OF r f wf_node_parts(1) [OF assms(2)]] f by auto
  have "wf_node (n\<lparr>nd_tasks := (case tk' of None \<Rightarrow> AList.delete h (nd_tasks n) | Some t \<Rightarrow> AList.update h t (nd_tasks n))\<rparr>)"
    by (cases tk') (simp_all add: wf_tasks assms(2) t(2))
  from wf_node_set(1) [OF this t(1)] show ?thesis by (simp add: n' wf_node_def)
qed

section \<open>Names of a run\<close>

lemma node_step_wf:
  assumes "codec_deserializes c" and "node_step rt ops rnd c s s'" and "wf_node (fst (snd s))"
  shows "wf_node (fst (snd s'))"
  using assms(2,3)
proof cases
  case (accepted fp tx d n cx n' cs w)
  with assms(3) show ?thesis by (simp add: wf_registry(6) [OF _ accepted(3)])
next
  case (dialled fp tx d n cx n1 info w cx' n' w' cs)
  with assms(3) show ?thesis by (simp add: wf_admit [OF wf_registry(6) [OF _ dialled(3)] dialled(5)])
next
  case (refused fp tx d n cx n1 info w cx' n2 w' cs)
  with assms(3) show ?thesis by (simp add: wf_drop wf_admit [OF wf_registry(6) [OF _ refused(3)] refused(5)])
next
  case (event cs i cx ev n w cx' n' w')
  with assms(3) show ?thesis by (simp add: wf_event [OF assms(1) _ event(4)])
next
  case (closing cs i cx ev n w cx' n1 w1 n' w')
  with assms(3) show ?thesis by (simp add: wf_end [OF wf_event [OF assms(1) _ closing(4)] closing(5)])
next
  case (reload a n w n' w' cs)
  with assms(3) show ?thesis by (simp add: wf_reload [OF _ reload(3)])
next
  case (task tev h n w n' w' cs)
  with assms(3) show ?thesis by (simp add: wf_task [OF task(3)])
next
  case (ttl now ttl cfg n w b m w' cs)
  with assms(3) wf_ttl_sweep [OF ttl(3)] show ?thesis by (simp add: wf_node_def)
next
  case (work_queue cfg timeout mx n w b m w' cs)
  with assms(3) wf_work_queue_sweep [OF work_queue(3)] show ?thesis by (simp add: wf_node_def)
qed

text \<open>What a store gives back is named by strings that it parses again.\<close>

definition names_parsed :: "'s message_store \<Rightarrow> bool" where
  "names_parsed ops \<longleftrightarrow> (\<forall>k s out. st_load_recent ops k s = Inr out \<longrightarrow> (\<forall>x \<in> set out. wf_topic (fst x)))
     \<and> (\<forall>s out. st_load_retained ops s = Inr out \<longrightarrow> (\<forall>x \<in> set out. wf_topic (fst x)))"

lemma collect_recent_wf:
  "collect_recent c rows out = Inr out' \<Longrightarrow> \<forall>x \<in> set out. wf_topic (fst x) \<Longrightarrow> \<forall>x \<in> set out'. wf_topic (fst x)"
proof (induction c rows out rule: collect_recent.induct)
  case (2 c name b rows out)
  then obtain t e where t: "topic_from_str name = Inr t" "from_bytes c b = Inr e" "collect_recent c rows (push_recent t e out) = Inr out'"
    by (auto split: sum.splits)
  have "\<forall>x \<in> set (push_recent t e out). wf_topic (fst x)"
    using 2(3) topic_from_str_Inr [of name t] t(1) by (auto simp: push_recent_def dest: in_set_butlastD)
  from 2(1) [OF t this] show ?case .
qed simp

lemma collect_retained_wf: "collect_retained c rows = Inr out \<Longrightarrow> x \<in> set out \<Longrightarrow> wf_topic (fst x)"
  by (induction c rows arbitrary: out rule: collect_retained.induct) (auto simp: topic_from_str_Inr split: sum.splits)

lemma sqlite_names_parsed: "names_parsed (sqlite_message_store env)"
  by (auto simp: names_parsed_def sqlite_message_store_def sqlite_load_recent_def sqlite_load_retained_def
      dest: collect_recent_wf collect_retained_wf split: if_splits)

lemma wf_rehydrate:
  assumes "names_parsed ops" and "rehydrate_from_store rt ops s b w = Inr (b', w')" and "wf_broker b"
  shows "wf_broker b'"
proof -
  have one: "wf_broker b2" if "rehydrate_buffer rt t es b1 v = (b2, v')" "wf_topic t" "wf_broker b1" for t es b1 v b2 v'
    using that wf_topic_channel_of [of rt t b1 v] by (auto simp: rehydrate_buffer_def Let_def split: prod.splits if_splits)
  have buffers: "wf_broker b2" if "rehydrate_buffers rt xs b1 v = (b2, v')" "\<forall>x \<in> set xs. wf_topic (fst x)" "wf_broker b1" for xs b1 v b2 v'
    using that by (induction xs arbitrary: b1 v) (fastforce dest: one split: prod.splits)+
  have kept: "wf_broker b2" if "rehydrate_retained rt t e b1 v = (b2, v')" "wf_topic t" "wf_broker b1" for t e b1 v b2 v'
    using that wf_topic_channel_of [of rt t b1 v] by (auto simp: rehydrate_retained_def split: prod.splits)
  have retained: "wf_broker b2" if "rehydrate_all_retained rt xs b1 v = (b2, v')" "\<forall>x \<in> set xs. wf_topic (fst x)" "wf_broker b1" for xs b1 v b2 v'
    using that by (induction xs arbitrary: b1 v) (fastforce dest: kept split: prod.splits)+
  from assms(2) obtain recent kept b1 w1 where l: "st_load_recent ops DEFAULT_REPLAY_BUFFER_CAPACITY s = Inr recent" "st_load_retained ops s = Inr kept"
    and r: "rehydrate_buffers rt recent b w = (b1, w1)" "rehydrate_all_retained rt kept b1 w1 = (b', w')"
    by (auto simp: rehydrate_from_store_def split: sum.splits prod.splits)
  have "\<forall>x \<in> set recent. wf_topic (fst x)" "\<forall>x \<in> set kept. wf_topic (fst x)" using assms(1) l unfolding names_parsed_def by blast+
  with buffers [OF r(1)] retained [OF r(2)] assms(3) show ?thesis by blast
qed

lemma wf_node_new: "wf_node (node_new i addr)"
  by (simp add: wf_node_def node_new_def wf_broker_default interest_new_def)

lemma wf_build_shared:
  assumes "build_shared rt lib open_store addr opts w = Inr (store, n, w')"
  shows "wf_node n"
proof -
  obtain i w1 where i: "peer_id_new rt w = (i, w1)" by fastforce
  from assms obtain n1 where n1: "attach_store (map_option open_store (no_data_dir opts)) (node_new i addr) = Inr (store, n1)"
    and n: "install_options rt lib opts n1 = Inr n" by (auto simp: build_shared_def i and_then_Inr)
  have "wf_node n1" using attach_store_cases [OF n1] by (auto intro: wf_node_set(1) wf_node_new wf_broker_default)
  with n show ?thesis by (auto simp: install_options_def and_then_Inr split: option.splits)
qed

lemma wf_run_with_tls:
  assumes "names_parsed ops" and "run_with_tls rt ops lib open_store le addr seeds metrics_addr opts token w = Inr (l, n, bg, w')"
  shows "wf_node n"
proof -
  from assms(2) obtain store n0 w0 n1 where b: "build_shared rt lib open_store (le_local_addr le l) opts w = Inr (store, n0, w0)"
    and h: "rehydrate_node rt ops store n0 w0 = Inr (n1, w')" and n: "n = ready n1" by (auto simp: run_with_tls_def and_then_Inr)
  note n0 = wf_build_shared [OF b]
  from h n0 wf_rehydrate [OF assms(1) _ wf_node_parts(1) [OF n0]] show ?thesis
    by (auto simp: n ready_def rehydrate_node_def and_then_Inr intro!: wf_node_set(1) split: option.splits)
qed

interpretation typed_run: invariant_machine "node_step rt ops rnd c" "\<lambda>s. codec_deserializes c \<longrightarrow> wf_node (fst (snd s))" for rt ops rnd c
  by unfold_locales (blast intro: node_step_wf)

text \<open>C14. Every name in a running node is valid. Whatever arrives on the connections of a node that was started on its SQLite store, and whatever its tasks, sweeps and reloads do, the topics of
  its registry are valid topics, and the filters of its subscriptions, of its interest and of its tasks are valid filters, on which the \<open>expect\<close> of \<open>as_topic\<close> does not fail.\<close>

theorem names_well_formed:
  assumes "codec_deserializes c"
    and "run_with_tls rt (sqlite_message_store env) lib open_store le addr seeds metrics_addr opts token w0 = Inr (l, n0, bg, w1)"
    and "(node_step rt (sqlite_message_store env) rnd c)\<^sup>*\<^sup>* (\<lambda>_. None, n0, w1) (cs, n, w)"
  shows "(\<forall>t \<in> topics_of (nd_broker n). wf_topic t)
    \<and> (\<forall>f. (\<exists>i. f \<in> keys (forwarders_of i n)) \<or> f \<in> keys (in_counts (nd_interest n)) \<or> (\<exists>h tk. map_of (nd_tasks n) h = Some tk \<and> f = tk_filter tk)
         \<longrightarrow> wf_filter f \<and> as_topic_checked f = Returns (as_topic f))"
proof -
  have n: "wf_node n" using typed_run.run_inv [OF assms(3)] assms(1) wf_run_with_tls [OF sqlite_names_parsed assms(2)] by simp
  have checked: "as_topic_checked f = Returns (as_topic f)" if "wf_filter f" for f
  proof -
    have "is_literal f \<Longrightarrow> topic_from_str (filter_str f) = Inr (Topic (filter_str f))" using that by (simp add: topic_from_str_Inr wf_literal_topic)
    with that show ?thesis by (auto simp: as_topic_checked_def as_topic_def)
  qed
  have "wf_filter f" if "(\<exists>i. f \<in> keys (forwarders_of i n)) \<or> f \<in> keys (in_counts (nd_interest n)) \<or> (\<exists>h tk. map_of (nd_tasks n) h = Some tk \<and> f = tk_filter tk)" for f
    using that wf_node_parts(2-4) [OF n] unfolding wf_filters_def by blast
  with checked wf_node_parts(1) [OF n] show ?thesis by (auto simp: wf_broker_def topics_of_def)
qed

lemma wf_filter_example: "wf_filter (TopicFilter [97])"
  by (simp add: wf_filter_def filter_validate_def wildcard_defs MAX_TOPIC_LEN_def str_len_def utf8_width_def is_valid_topic_char_def is_ascii_alphanumeric_def is_ascii_lower_def Let_def)

lemma example_codec_deserializes: "codec_deserializes (pair_codec example_subscribe example_subscribe)"
  by (simp add: codec_deserializes_def pair_codec_def example_subscribe_def filter_deserialize_Inr wf_filter_example)

theorem names_well_formed_witness:
  "\<exists>n0 bg w1 cs n w. run_with_tls world_rt (sqlite_message_store example_env) example_tls (\<lambda>_. Inr sqlite_empty) example_listener
     (str ''a'') [] None example_options None world0 = Inr ((), n0, bg, w1)
   \<and> (node_step world_rt (sqlite_message_store example_env) id (pair_codec example_subscribe example_subscribe))\<^sup>*\<^sup>* (\<lambda>_. None, n0, w1) (cs, n, w)
   \<and> TopicFilter [97] \<in> keys (forwarders_of 0 n) \<and> as_topic_checked (TopicFilter [97]) = Returns (as_topic (TopicFilter [97]))"
proof -
  let ?ops = "sqlite_message_store example_env" and ?c = "pair_codec example_subscribe example_subscribe" and ?f = "TopicFilter [97]"
  obtain n0 bg w1 where r: "run_with_tls world_rt ?ops example_tls (\<lambda>_. Inr sqlite_empty) example_listener (str ''a'') [] None example_options None world0
      = Inr ((), n0, bg, w1)" and f: "nd_connections n0 = []" "nd_topic_acl n0 = None" "nd_interest n0 = interest_new" "nd_next_id n0 = 0" "w1 = snd (peer_id_new world_rt world0)"
    using example_start by blast
  obtain cx n1 where c: "connect None 5 9 n0 = (cx, n1)" by fastforce
  have s1: "node_step world_rt ?ops id ?c (\<lambda>_. None, n0, w1) ((\<lambda>_. None)(cx_id cx \<mapsto> cx), n1, w1)"
    by (rule node_step.accepted [OF c]) (simp add: f)
  have "\<exists>n w. connection_event_step world_rt ?ops id ?c (FrameRead [0]) cx n1 w1 = Returns (True, cx, n, w) \<and> ?f \<in> keys (forwarders_of 0 n)"
    using c f by (auto simp: connection_defs keys_dom example_subscribe_def pair_codec_def world_defs Let_def is_peer_def peer_id_new_def)
  then obtain n w where e: "connection_event_step world_rt ?ops id ?c (FrameRead [0]) cx n1 w1 = Returns (True, cx, n, w)"
    and k: "?f \<in> keys (forwarders_of 0 n)" by blast
  have "node_step world_rt ?ops id ?c ((\<lambda>_. None)(cx_id cx \<mapsto> cx), n1, w1) (((\<lambda>_. None)(cx_id cx \<mapsto> cx))(cx_id cx \<mapsto> cx), n, w)"
    by (rule node_step.event [OF _ e]) simp
  with s1 have run: "(node_step world_rt ?ops id ?c)\<^sup>*\<^sup>* (\<lambda>_. None, n0, w1) (((\<lambda>_. None)(cx_id cx \<mapsto> cx))(cx_id cx \<mapsto> cx), n, w)"
    by (meson rtranclp.rtrancl_into_rtrancl rtranclp.rtrancl_refl)
  from names_well_formed [OF example_codec_deserializes r run] r run k show ?thesis by blast
qed

end
