(* ===== verification/Mesh.thy ===== *)
theory Mesh
  imports Entry_Points
begin

text \<open>
  Two nodes and the link between them. One node announces its interest on the link (\<open>register_peer_link\<close>, \<open>propagate_interest\<close>); the other
  handles these messages like those of any connection (crates/thoth-mesh-node/src/connection.rs), so that it subscribes on the
  link to what the first one wants, and forwards it. The results: the subscriptions of the far end are exactly the interest of the near end,
  a message that comes back over a link is absorbed, and interest that two nodes announced to each other is not withdrawn.
\<close>

section \<open>The read loop\<close>

fun run_events ::
  "('w, 'z) runtime_scheme \<Rightarrow> 's message_store \<Rightarrow> (real \<Rightarrow> real) \<Rightarrow> codec \<Rightarrow> connection_event list \<Rightarrow> connection \<Rightarrow> 's node \<Rightarrow> 'w
     \<Rightarrow> (bool \<times> connection \<times> 's node \<times> 'w) outcome" where
  "run_events rt ops rnd c [] cx n w = Returns (True, cx, n, w)"
| "run_events rt ops rnd c (ev # evs) cx n w =
     (case connection_event_step rt ops rnd c ev cx n w of
        Returns (True, cx', n', w') \<Rightarrow> run_events rt ops rnd c evs cx' n' w'
      | r \<Rightarrow> r)"

section \<open>The far end of a link\<close>

text \<open>The messages that a link carries about interest and peers.\<close>

definition announcement :: "message_kind \<Rightarrow> bool" where
  "announcement k \<longleftrightarrow> (\<exists>f. k = announce_subscribe f) \<or> (\<exists>f. k = Unsubscribe f) \<or> (\<exists>ps. k = PeerAnnounce ps)"

definition acls :: "'s node \<Rightarrow> topic_acl option \<times> topic_acl option" where
  "acls n = (nd_topic_acl n, nd_peer_topic_acl n)"

lemma may_subscribe_acls: "acls n' = acls n \<Longrightarrow> may_subscribe cx f n' = may_subscribe cx f n"
  by (simp add: acls_def may_subscribe_def)

lemma reply_ok: "reliable rt \<Longrightarrow> \<exists>w'. reply rt cx k n w = (True, w')"
  using reply_reliable [of rt cx k n w] by (cases "reply rt cx k n w") simp

text \<open>What handling one announcement does to the subscriptions of the connection.\<close>

definition follows :: "connection \<Rightarrow> message_kind \<Rightarrow> 's node \<Rightarrow> 's node \<Rightarrow> bool" where
  "follows cx k n n' \<longleftrightarrow> acls n' = acls n \<and> map_of (nd_connections n') (cx_id cx) \<noteq> None
     \<and> keys (forwarders_of (cx_id cx) n') =
         (case k of
            Subscribe f _ _ _ \<Rightarrow> if may_subscribe cx f n then insert f (keys (forwarders_of (cx_id cx) n)) else keys (forwarders_of (cx_id cx) n)
          | Unsubscribe f \<Rightarrow> keys (forwarders_of (cx_id cx) n) - {f}
          | _ \<Rightarrow> keys (forwarders_of (cx_id cx) n))"

lemma subscribe_follows:
  assumes "reliable rt" and "map_of (nd_connections n) (cx_id cx) \<noteq> None"
  shows "\<exists>n' w'. handle_subscribe rt cx e f False None False n w = Returns (True, n', w') \<and> follows cx (announce_subscribe f) n n'"
proof (cases "may_subscribe cx f n")
  case False
  obtain w' where r: "reply rt cx (Error (Some (env_id e)) (str ''not authorized to subscribe to '' @ filter_str f)) (count_acl_rejection cx n) w = (True, w')"
    using reply_ok [OF assms(1)] by blast
  with False assms(2) show ?thesis
    by (auto simp: handle_subscribe_def subscribe_refuse_def Let_def follows_def announce_subscribe_def acls_def count_acl_rejection_def forwarders_of_def)
next
  case may: True
  let ?i = "cx_id cx" and ?fs = "forwarders_of (cx_id cx) n"
  have commit: "\<exists>n' w'. subscribe_commit rt cx e f new n1 w = (True, n', w') \<and> acls n' = acls n1 \<and> nd_connections n' = nd_connections n1" for new n1
  proof -
    let ?n = "if new then n1\<lparr>nd_interest := snd (interest_subscribe f (nd_interest n1))\<rparr> else n1"
    obtain w' where "reply rt cx (Ack (env_id e)) ?n w = (True, w')" using reply_ok [OF assms(1)] by blast
    then show ?thesis by (cases new) (auto simp: subscribe_commit_def Let_def acls_def split: prod.splits)
  qed
  show ?thesis
  proof (cases "map_of ?fs f = None")
    case True
    then obtain n0 sub where o: "open_subscription cx f False None False (env_sender e) n = Returns (sub, n0)"
      and n0: "acls n0 = acls n" "nd_connections n0 = nd_connections n"
      by (auto simp: open_subscription_def spawn_task_def acls_def)
    let ?n1 = "set_forwarders ?i (AList.update f sub ?fs) n0"
    have n1: "acls ?n1 = acls n" "map_of (nd_connections ?n1) ?i \<noteq> None" "keys (forwarders_of ?i ?n1) = insert f (keys ?fs)"
      using n0 assms(2) by (auto simp: acls_def set_forwarders_def forwarders_of_def split: option.splits)
    obtain n' w' where c: "subscribe_commit rt cx e f True ?n1 w = (True, n', w')" "acls n' = acls ?n1" "nd_connections n' = nd_connections ?n1"
      using commit by blast
    have "handle_subscribe rt cx e f False None False n w = Returns (True, n', w')"
      using may True o c(1) may_subscribe_acls [OF n1(1), of cx f] by (simp add: handle_subscribe_def subscribe_insert_def subscribe_settle_def Let_def)
    moreover have "follows cx (announce_subscribe f) n n'"
      using n1 c(2,3) may by (simp add: follows_def announce_subscribe_def forwarders_of_conns [OF c(3)])
    ultimately show ?thesis by blast
  next
    case False
    obtain n' w' where c: "subscribe_commit rt cx e f False n w = (True, n', w')" "acls n' = acls n" "nd_connections n' = nd_connections n"
      using commit by blast
    have "handle_subscribe rt cx e f False None False n w = Returns (True, n', w')"
      using may False c(1) by (simp add: handle_subscribe_def subscribe_insert_def subscribe_settle_def Let_def)
    moreover have "follows cx (announce_subscribe f) n n'"
      using c(2,3) may False assms(2) by (auto simp: follows_def announce_subscribe_def forwarders_of_conns [OF c(3)] keys_dom)
    ultimately show ?thesis by blast
  qed
qed

lemma unsubscribe_follows:
  assumes "reliable rt" and "map_of (nd_connections n) (cx_id cx) \<noteq> None"
  shows "\<exists>n' w'. handle_unsubscribe rt cx e f n w = (True, n', w') \<and> follows cx (Unsubscribe f) n n'"
proof -
  obtain had n1 where rem: "remove_subscription cx f n = (had, n1)" by fastforce
  let ?fs = "forwarders_of (cx_id cx) n"
  have acl: "acls n1 = acls n"
    using rem by (cases "map_of ?fs f")
      (auto simp: remove_subscription_def Let_def acls_def set_forwarders_def abort_task_def elim!: stop_subscription.elims split: option.splits)
  have conn: "map_of (nd_connections n1) (cx_id cx) \<noteq> None \<and> keys (forwarders_of (cx_id cx) n1) = keys ?fs - {f}"
  proof (cases "map_of ?fs f")
    case None
    then have "n1 = n" using rem by (simp add: remove_subscription_def)
    moreover have "f \<notin> keys ?fs" using None by (simp add: map_of_None_keys)
    ultimately show ?thesis using assms(2) by simp
  next
    case (Some sub)
    then have "nd_connections n1 = nd_connections (set_forwarders (cx_id cx) (AList.delete f ?fs) n)"
      using rem by (auto simp: remove_subscription_def Let_def elim!: stop_subscription.elims simp: abort_task_def)
    from forwarders_of_conns [OF this] this assms(2) show ?thesis
      by (simp add: forwarders_of_set_forwarders)
  qed
  obtain w1 where r: "reply rt cx (Ack (env_id e)) n1 w = (True, w1)" using reply_ok [OF assms(1)] by blast
  show ?thesis
  proof (cases had)
    case True
    then show ?thesis using rem r acl conn
      by (auto simp: handle_unsubscribe_def Let_def follows_def acls_def forwarders_of_def split: prod.splits)
  qed (use rem r acl conn in \<open>simp add: handle_unsubscribe_def follows_def\<close>)
qed

lemma learn_follows:
  assumes "map_of (nd_connections n) (cx_id cx) \<noteq> None"
  shows "\<exists>n' w'. learn_peers rt ps n w = (n', w') \<and> follows cx (PeerAnnounce ps) n n'"
proof -
  have acl: "acls (snd (learn_loop ps m)) = acls m" for m :: "'s node"
    by (induction ps arbitrary: m) (simp_all add: acls_def Let_def case_prod_beta)
  obtain n' w' where l: "learn_peers rt ps n w = (n', w')" by fastforce
  then have "n' = snd (learn_loop ps n)" by (auto simp: learn_peers_def split: prod.splits if_splits)
  then have "acls n' = acls n" "nd_connections n' = nd_connections n" using acl learn_loop_fields(2) by simp_all
  with l assms show ?thesis by (auto simp: follows_def forwarders_of_def)
qed

lemma event_follows:
  assumes "reliable rt" and "map_of (nd_connections n) (cx_id cx) \<noteq> None" and "from_bytes c bs = Inr e" and "announcement (env_kind e)"
  shows "\<exists>n' w'. connection_event_step rt ops rnd c (FrameRead bs) cx n w = Returns (True, cx, n', w') \<and> follows cx (env_kind e) n n'"
proof -
  let ?e = "e\<lparr>env_sender := authenticated_sender rt cx (env_sender e)\<rparr>"
  consider f where "env_kind e = announce_subscribe f" | f where "env_kind e = Unsubscribe f" | ps where "env_kind e = PeerAnnounce ps"
    using assms(4) by (auto simp: announcement_def)
  then show ?thesis
  proof cases
    case (1 f)
    with subscribe_follows [OF assms(1,2), of ?e f w] assms(3) show ?thesis by (auto simp: dispatch_def announce_subscribe_def)
  next
    case (2 f)
    with unsubscribe_follows [OF assms(1,2), of ?e f w] assms(3) show ?thesis by (auto simp: dispatch_def)
  next
    case (3 ps)
    with learn_follows [OF assms(2), of rt ps w] assms(3) show ?thesis by (auto simp: dispatch_def)
  qed
qed

text \<open>The far end subscribes to what it hears, as far as its access lists let it.\<close>

lemma follows_hear:
  assumes "announcement k" and "follows cx k n n'" and "keys (forwarders_of (cx_id cx) n) = V \<inter> {f. may_subscribe cx f n}"
  shows "keys (forwarders_of (cx_id cx) n') = hear [k] V \<inter> {f. may_subscribe cx f n}"
proof -
  consider f where "k = announce_subscribe f" | f where "k = Unsubscribe f" | ps where "k = PeerAnnounce ps"
    using assms(1) by (auto simp: announcement_def)
  then show ?thesis
  proof cases
    case (1 f)
    with assms(2,3) show ?thesis by (cases "may_subscribe cx f n") (auto simp: follows_def announce_subscribe_def)
  qed (use assms(2,3) in \<open>auto simp: follows_def\<close>)
qed

lemma run_follows:
  assumes "reliable rt" and "map_of (nd_connections n) (cx_id cx) \<noteq> None"
    and "list_all2 (\<lambda>bs e. from_bytes c bs = Inr e \<and> announcement (env_kind e)) bss es"
    and "keys (forwarders_of (cx_id cx) n) = V \<inter> {f. may_subscribe cx f n}"
  shows "\<exists>n' w'. run_events rt ops rnd c (map FrameRead bss) cx n w = Returns (True, cx, n', w')
    \<and> keys (forwarders_of (cx_id cx) n') = hear (map env_kind es) V \<inter> {f. may_subscribe cx f n}"
  using assms(3,2,4)
proof (induction arbitrary: n w V rule: list_all2_induct)
  case (Cons bs bss e es)
  obtain n1 w1 where s: "connection_event_step rt ops rnd c (FrameRead bs) cx n w = Returns (True, cx, n1, w1)" "follows cx (env_kind e) n n1"
    using event_follows [OF assms(1) Cons.prems(1)] Cons.hyps(1) by blast
  have may: "may_subscribe cx f n1 = may_subscribe cx f n" for f by (rule may_subscribe_acls) (use s(2) in \<open>simp add: follows_def\<close>)
  have "map_of (nd_connections n1) (cx_id cx) \<noteq> None" using s(2) by (simp add: follows_def)
  moreover have "keys (forwarders_of (cx_id cx) n1) = hear [env_kind e] V \<inter> {f. may_subscribe cx f n1}"
    using follows_hear [OF _ s(2) Cons.prems(2)] Cons.hyps(1) by (simp add: may)
  ultimately show ?case using Cons.IH [of n1 "hear [env_kind e] V" w1] s(1) by (simp add: may)
qed simp

section \<open>The near end of a link\<close>

text \<open>The messages in the queue of a connection, in a runtime whose queues have room.\<close>

definition queues_grow :: "('w, 'z) runtime_scheme \<Rightarrow> ('w \<Rightarrow> sender \<Rightarrow> envelope list) \<Rightarrow> bool" where
  "queues_grow rt q \<longleftrightarrow> (\<forall>s e w. q (snd (rt_mpsc_try_send rt s e w)) = (q w)(s := q w s @ [e]))
     \<and> (\<forall>s e w. q (snd (rt_mpsc_send rt s e w)) = (q w)(s := q w s @ [e])) \<and> (\<forall>w. q (snd (rt_now_v7 rt w)) = q w)"

abbreviation kinds :: "('w \<Rightarrow> sender \<Rightarrow> envelope list) \<Rightarrow> sender \<Rightarrow> 'w \<Rightarrow> message_kind list" where
  "kinds q s w \<equiv> map env_kind (q w s)"

text \<open>Whether the relay filter lets a link hear of a filter.\<close>

definition relayed :: "principal \<Rightarrow> peer_topic_filter option \<Rightarrow> topic_filter \<Rightarrow> bool" where
  "relayed pr ptf f \<longleftrightarrow> (case ptf of None \<Rightarrow> True
     | Some pf \<Rightarrow> (case as_topic f of None \<Rightarrow> False | Some t \<Rightarrow> relay_permits pr t pf))"

lemma catch_up_relayed: "catch_up_kinds pr ptf i = map announce_subscribe (filter (relayed pr ptf) (interest_snapshot i))"
  by (simp add: catch_up_kinds_def relayed_def [abs_def])

lemma broadcast_relayed:
  "broadcast_interest rt e f ptf ls w = try_send_all rt (map ln_sender (filter (\<lambda>l. relayed (ln_principal l) ptf f) (all_links ls))) e w"
  by (auto simp: broadcast_interest_def links_broadcast_def relay_targets_def relayed_def split: option.split)

lemma envelope_new_kind: "envelope_new rt p k w = (e, w') \<Longrightarrow> env_kind e = k"
  by (auto simp: envelope_new_def split: prod.splits)

lemma envelope_new_queues: "queues_grow rt q \<Longrightarrow> envelope_new rt p k w = (e, w') \<Longrightarrow> q w' = q w"
  by (auto simp: queues_grow_def envelope_new_def message_id_new_def split: prod.splits) (metis snd_conv)

lemma try_send_all_queues:
  assumes "queues_grow rt q"
  shows "q (try_send_all rt ss e w) s = q w s @ replicate (count_list ss s) e"
proof (induction ss arbitrary: w)
  case (Cons x ss)
  have "q (snd (rt_mpsc_try_send rt x e w)) = (q w)(x := q w x @ [e])" using assms by (simp add: queues_grow_def)
  with Cons show ?case by (simp add: replicate_app_Cons_same)
qed simp

lemma send_kinds_queues:
  assumes "queues_grow rt q"
  shows "kinds q s (send_kinds rt p s ks w) = kinds q s w @ ks"
proof (induction ks arbitrary: w)
  case (Cons k ks)
  obtain e w1 where e: "envelope_new rt p k w = (e, w1)" by fastforce
  have "q (snd (rt_mpsc_try_send rt s e w1)) = (q w1)(s := q w1 s @ [e])" using assms by (simp add: queues_grow_def)
  with Cons e envelope_new_kind [OF e] envelope_new_queues [OF assms e] show ?case by simp
qed simp

text \<open>The link with the sender \<open>tx\<close> is the only one with it, and its far end is known as \<open>pr\<close>.\<close>

definition one_link :: "sender \<Rightarrow> principal \<Rightarrow> 's node \<Rightarrow> bool" where
  "one_link tx pr n \<longleftrightarrow> (\<exists>l. filter (\<lambda>l. ln_sender l = tx) (all_links (nd_peer_links n)) = [l] \<and> ln_principal l = pr)"

lemma count_link: "count_list (map ln_sender (filter P ls)) tx = length (filter P (filter (\<lambda>l. ln_sender l = tx) ls))"
  by (induction ls) auto

lemma propagate_interest_queues:
  assumes "queues_grow rt q" and "one_link tx pr n"
  shows "kinds q tx (propagate_interest rt f b n w) =
    kinds q tx w @ (if relayed pr (nd_peer_topic_filter n) f then [if b then announce_subscribe f else Unsubscribe f] else [])"
proof -
  obtain e w1 where e: "envelope_new rt (nd_node_id n) (if b then announce_subscribe f else Unsubscribe f) w = (e, w1)" by fastforce
  from assms(2) obtain l where "filter (\<lambda>l. ln_sender l = tx) (all_links (nd_peer_links n)) = [l]" "ln_principal l = pr"
    by (auto simp: one_link_def)
  then show ?thesis
    using e envelope_new_kind [OF e] envelope_new_queues [OF assms(1) e]
    by (simp add: propagate_interest_def broadcast_relayed try_send_all_queues [OF assms(1)] count_link)
qed

text \<open>What the far end has been told is what the near end wants.\<close>

definition near_ok :: "('w \<Rightarrow> sender \<Rightarrow> envelope list) \<Rightarrow> sender \<Rightarrow> principal \<Rightarrow> 's node \<Rightarrow> 'w \<Rightarrow> bool" where
  "near_ok q tx pr n w \<longleftrightarrow> interest_inv (nd_interest n) \<and> one_link tx pr n \<and> (\<forall>k \<in> set (kinds q tx w). announcement k)
     \<and> hear (kinds q tx w) {} = {f. is_interested f (nd_interest n) \<and> relayed pr (nd_peer_topic_filter n) f}"

definition telling :: "'s node \<Rightarrow> interest \<times> peer_links \<times> peer_topic_filter option" where
  "telling n = (nd_interest n, nd_peer_links n, nd_peer_topic_filter n)"

lemma near_cong: "near_ok q tx pr n w \<Longrightarrow> telling n' = telling n \<Longrightarrow> q w' tx = q w tx \<Longrightarrow> near_ok q tx pr n' w'"
  by (simp add: near_ok_def telling_def one_link_def)

lemma hear_append: "hear (ks @ ks') v = hear ks' (hear ks v)"
  by (induction ks arbitrary: v) simp_all

lemma hear_catch_up: "hear (map announce_subscribe fs) v = set fs \<union> v"
  by (induction fs arbitrary: v) (auto simp: announce_subscribe_def)

lemma hear_peers: "\<forall>k \<in> set ks. \<exists>ps. k = PeerAnnounce ps \<Longrightarrow> hear ks v = v"
  by (induction ks arbitrary: v) auto

lemma announcement_simps [simp]: "announcement (announce_subscribe f)" "announcement (Unsubscribe f)" "announcement (PeerAnnounce ps)"
  by (auto simp: announcement_def)

lemma links_register_one:
  assumes "tx \<notin> ln_sender ` set (all_links ls)"
  shows "filter (\<lambda>l. ln_sender l = tx) (all_links (links_register p tx pr d ls)) = [\<lparr>ln_sender = tx, ln_principal = pr, ln_disconnect = d\<rparr>]"
proof -
  have upd: "filter (\<lambda>l. ln_sender l = tx) (all_links (AList.update p v ls)) = filter (\<lambda>l. ln_sender l = tx) v" for v
    using assms
  proof (induction ls)
    case (Cons x ls)
    have "filter (\<lambda>l. ln_sender l = tx) (snd x) = []" "filter (\<lambda>l. ln_sender l = tx) (concat (map snd ls)) = []"
      "tx \<notin> ln_sender ` set (all_links ls)"
      using Cons.prems by (auto simp: all_links_def filter_empty_conv image_iff)
    with Cons.IH show ?case by (cases x) (simp add: all_links_def)
  qed (simp add: all_links_def)
  have "filter (\<lambda>l. ln_sender l = tx) (case map_of ls p of None \<Rightarrow> [] | Some es \<Rightarrow> es) = []"
    using assms by (cases "map_of ls p") (force simp: filter_empty_conv all_links_def image_iff dest: map_of_SomeD)+
  with upd show ?thesis by (simp add: links_register_def)
qed

lemma register_near:
  assumes "queues_grow rt q" and "interest_inv (nd_interest n)" and "q w tx = []" and "tx \<notin> ln_sender ` set (all_links (nd_peer_links n))"
    and "register_peer_link rt p pr addr tx d n w = (n', w')"
  shows "near_ok q tx pr n' w'"
proof -
  let ?n1 = "n\<lparr>nd_peer_links := links_register p tx pr d (nd_peer_links n)\<rparr>"
  let ?w1 = "send_kinds rt (nd_node_id n) tx (catch_up_kinds pr (nd_peer_topic_filter n) (nd_interest n)) w"
  have peers: "\<exists>ks. kinds q tx (propagate_peer rt r a m v) = kinds q tx v @ ks \<and> (\<forall>k \<in> set ks. \<exists>ps. k = PeerAnnounce ps)" for r a v and m :: "'s node"
  proof -
    obtain e v1 where e: "envelope_new rt (nd_node_id m) (PeerAnnounce [\<lparr>pa_peer_id = r, pa_listen_addr = a\<rparr>]) v = (e, v1)" by fastforce
    then show ?thesis using envelope_new_kind [OF e] envelope_new_queues [OF assms(1) e]
      by (auto simp: propagate_peer_def links_broadcast_def try_send_all_queues [OF assms(1)] map_replicate_const)
  qed
  have told: "telling n' = telling ?n1 \<and> (\<exists>ks. kinds q tx w' = kinds q tx ?w1 @ ks \<and> (\<forall>k \<in> set ks. \<exists>ps. k = PeerAnnounce ps))"
  proof -
    define n2 where "n2 = (case addr of None \<Rightarrow> ?n1 | Some a \<Rightarrow> ?n1\<lparr>nd_discover := snd (directory_record p a (nd_discover n))\<rparr>)"
    define w2 where "w2 = (case addr of None \<Rightarrow> ?w1
      | Some a \<Rightarrow> if fst (directory_record p a (nd_discover n)) then propagate_peer rt p a n2 ?w1 else ?w1)"
    have a: "\<exists>ks. kinds q tx w2 = kinds q tx ?w1 @ ks \<and> (\<forall>k \<in> set ks. \<exists>ps. k = PeerAnnounce ps)"
      using peers [of p _ n2 ?w1] by (cases addr) (auto simp: w2_def)
    let ?known = "snapshot_excluding p (nd_discover n2)"
    have "n' = n2 \<and> w' = (if ?known = [] then w2 else
        send_kinds rt (nd_node_id n) tx [PeerAnnounce (map (\<lambda>(q, a). \<lparr>pa_peer_id = q, pa_listen_addr = a\<rparr>) ?known)] w2)"
      using assms(5) by (cases addr) (auto simp: register_peer_link_def n2_def w2_def Let_def simp del: send_kinds.simps split: prod.splits)
    moreover have "telling n2 = telling ?n1" by (simp add: n2_def telling_def split: option.split)
    ultimately show ?thesis using a by (auto simp: send_kinds_queues [OF assms(1)] simp del: send_kinds.simps)
  qed
  then obtain ks where ks: "kinds q tx w' = catch_up_kinds pr (nd_peer_topic_filter n) (nd_interest n) @ ks" "\<forall>k \<in> set ks. \<exists>ps. k = PeerAnnounce ps"
    and t: "telling n' = telling ?n1" using assms(3) by (auto simp: send_kinds_queues [OF assms(1)])
  have "one_link tx pr n'" using links_register_one [OF assms(4), of p pr d] t by (simp add: one_link_def telling_def)
  moreover have "hear (kinds q tx w') {} = {f. is_interested f (nd_interest n') \<and> relayed pr (nd_peer_topic_filter n') f}"
    using t hear_peers [OF ks(2)] by (auto simp: ks(1) hear_append hear_catch_up catch_up_relayed interest_snapshot_iff telling_def)
  moreover have "\<forall>k \<in> set (kinds q tx w'). announcement k" using ks(2) unfolding ks(1) catch_up_relayed by auto
  ultimately show ?thesis using assms(2) t by (simp add: near_ok_def telling_def)
qed

subsection \<open>Requests of other connections\<close>

lemma reply_queues:
  assumes "queues_grow rt q" and "cx_outgoing_tx cx \<noteq> tx" and "reply rt cx k n w = (ok, w')"
  shows "q w' tx = q w tx"
proof -
  obtain e w1 where e: "envelope_new rt (nd_node_id n) k w = (e, w1)" by fastforce
  have "w' = snd (rt_mpsc_send rt (cx_outgoing_tx cx) e w1)" using assms(3) e by (simp add: reply_def)
  with assms(1,2) envelope_new_queues [OF assms(1) e] show ?thesis by (simp add: queues_grow_def)
qed

lemma telling_fields [simp]:
  "telling (set_forwarders i fs n) = telling n" "telling (stop_subscription f s sub n) = telling n" "telling (count_acl_rejection cx n) = telling n"
  "telling (snd (remove_subscription cx f n)) = telling n"
proof -
  show *: "telling (stop_subscription f s sub n) = telling n" for f s sub and n :: "'s node" by (cases sub) (simp_all add: telling_def abort_task_def)
  show **: "telling (set_forwarders i fs n) = telling n" for i fs and n :: "'s node" by (simp add: telling_def set_forwarders_def split: option.split)
  show "telling (count_acl_rejection cx n) = telling n" by (simp add: telling_def count_acl_rejection_def)
  show "telling (snd (remove_subscription cx f n)) = telling n" by (simp add: remove_subscription_def Let_def * ** split: option.split)
qed

lemma telling_insert: "subscribe_insert cx f ack grp durable p n = Returns (new, n') \<Longrightarrow> telling n' = telling n"
proof -
  have "telling n0 = telling n" if "open_subscription cx f ack grp durable p n = Returns (sub, n0)" for sub n0
    using that by (auto simp: open_subscription_def spawn_task_def telling_def Let_def split: option.splits if_splits)
  then show "subscribe_insert cx f ack grp durable p n = Returns (new, n') \<Longrightarrow> telling n' = telling n"
    by (auto simp: subscribe_insert_def Let_def split: if_splits outcome.splits)
qed

lemma refuse_near:
  assumes "queues_grow rt q" and "cx_outgoing_tx cx \<noteq> tx" and "near_ok q tx pr n w" and "subscribe_refuse rt cx e f n w = (ok, n', w')"
  shows "near_ok q tx pr n' w'"
proof (rule near_cong [OF assms(3)])
  show "telling n' = telling n" using assms(4) by (auto simp: subscribe_refuse_def Let_def split: prod.splits)
  show "q w' tx = q w tx" using assms(4) reply_queues [OF assms(1,2)] by (auto simp: subscribe_refuse_def Let_def split: prod.splits)
qed

text \<open>A transition of interest, announced on the link when the relay filter lets it.\<close>

lemma transition_near:
  assumes "queues_grow rt q" and "near_ok q tx pr n w" and "q w1 tx = q w tx" and "interest_inv i"
    and "\<And>g. is_interested g i \<longleftrightarrow> (if changed \<and> g = f then on else is_interested g (nd_interest n))"
  defines "n1 \<equiv> n\<lparr>nd_interest := i\<rparr>"
  shows "near_ok q tx pr n1 (if changed then propagate_interest rt f on n1 w1 else w1)"
proof -
  let ?w = "if changed then propagate_interest rt f on n1 w1 else w1"
  let ?ks = "if changed \<and> relayed pr (nd_peer_topic_filter n) f then [if on then announce_subscribe f else Unsubscribe f] else []"
  note ok = assms(2) [unfolded near_ok_def]
  have l: "one_link tx pr n1" using ok by (simp add: one_link_def n1_def)
  have k: "kinds q tx ?w = kinds q tx w @ ?ks" using propagate_interest_queues [OF assms(1) l, of f on w1] assms(3) by (simp add: n1_def)
  have "hear (kinds q tx ?w) {} = {g. is_interested g i \<and> relayed pr (nd_peer_topic_filter n) g}"
    unfolding k hear_append using ok assms(5) by (auto simp: announce_subscribe_def split: if_splits)
  moreover have "\<forall>k \<in> set (kinds q tx ?w). announcement k" unfolding k using ok by auto
  ultimately show ?thesis using l assms(4) by (simp add: near_ok_def n1_def)
qed

lemma commit_near:
  assumes "queues_grow rt q" and "reliable rt" and "cx_outgoing_tx cx \<noteq> tx" and "near_ok q tx pr n w" and "subscribe_commit rt cx e f new n w = (ok, n', w')"
  shows "near_ok q tx pr n' w'"
proof -
  let ?n1 = "if new then n\<lparr>nd_interest := snd (interest_subscribe f (nd_interest n))\<rparr> else n"
  obtain w1 where r: "reply rt cx (Ack (env_id e)) ?n1 w = (True, w1)" using reply_ok [OF assms(2)] by blast
  have q1: "q w1 tx = q w tx" by (rule reply_queues [OF assms(1,3) r])
  have n': "n' = ?n1" "w' = (if new \<and> fst (interest_subscribe f (nd_interest n)) then propagate_interest rt f True ?n1 w1 else w1)"
    using assms(5) r by (auto simp: subscribe_commit_def Let_def split: prod.splits if_splits)
  show ?thesis
  proof (cases new)
    case True
    have inv: "interest_inv (nd_interest n)" using assms(4) by (simp add: near_ok_def)
    have v: "is_interested g (snd (interest_subscribe f (nd_interest n))) \<longleftrightarrow>
        (if fst (interest_subscribe f (nd_interest n)) \<and> g = f then True else is_interested g (nd_interest n))" for g
      using interest_subscribe_view [OF inv] by auto
    have "near_ok q tx pr ?n1 (if fst (interest_subscribe f (nd_interest n)) then propagate_interest rt f True ?n1 w1 else w1)"
      using transition_near [OF assms(1,4) q1 interest_subscribe_inv [OF inv, of f] v] True by (auto split: if_splits)
    then show ?thesis using True by (simp add: n')
  qed (use near_cong [OF assms(4) refl q1] n' in simp)
qed

lemma subscribe_near:
  assumes "queues_grow rt q" and "reliable rt" and "cx_outgoing_tx cx \<noteq> tx" and "near_ok q tx pr n w"
    and "handle_subscribe rt cx e f ack grp durable n w = Returns (ok, n', w')"
  shows "near_ok q tx pr n' w'"
proof -
  consider k where "n' = n" "reply rt cx k n w = (ok, w')" | "subscribe_refuse rt cx e f n w = (ok, n', w')"
    | new n1 where "subscribe_insert cx f ack grp durable (env_sender e) n = Returns (new, n1)" "subscribe_settle rt cx e f new n1 w = (ok, n', w')"
    using assms(5) by (auto simp: handle_subscribe_def Let_def split: option.splits if_splits outcome.splits prod.splits)
  then show ?thesis
  proof cases
    case 1
    with near_cong [OF assms(4) _ reply_queues [OF assms(1,3)]] show ?thesis by blast
  next
    case 2
    with refuse_near [OF assms(1,3,4)] show ?thesis .
  next
    case (3 new n1)
    have ok1: "near_ok q tx pr n1 w" by (rule near_cong [OF assms(4) telling_insert [OF 3(1)] refl])
    then have "near_ok q tx pr (snd (remove_subscription cx f n1)) w" by (rule near_cong) simp_all
    with 3(2) commit_near [OF assms(1-3) ok1] refuse_near [OF assms(1,3)] show ?thesis by (auto simp: subscribe_settle_def split: if_splits)
  qed
qed

lemma unsubscribe_near:
  assumes "queues_grow rt q" and "reliable rt" and "cx_outgoing_tx cx \<noteq> tx" and "near_ok q tx pr n w"
    and "handle_unsubscribe rt cx e f n w = (ok, n', w')"
  shows "near_ok q tx pr n' w'"
proof -
  obtain had n1 where rem: "remove_subscription cx f n = (had, n1)" by fastforce
  have ok1: "near_ok q tx pr n1 w" by (rule near_cong [OF assms(4)]) (use telling_fields(4) [of cx f n] rem in simp_all)
  obtain w1 where r: "reply rt cx (Ack (env_id e)) n1 w = (True, w1)" using reply_ok [OF assms(2)] by blast
  have q1: "q w1 tx = q w tx" by (rule reply_queues [OF assms(1,3) r])
  show ?thesis
  proof (cases had)
    case True
    let ?i = "interest_unsubscribe f (nd_interest n1)" and ?n2 = "n1\<lparr>nd_interest := snd (interest_unsubscribe f (nd_interest n1))\<rparr>"
    have inv: "interest_inv (nd_interest n1)" using ok1 by (simp add: near_ok_def)
    have v: "is_interested g (snd ?i) \<longleftrightarrow> (if fst ?i \<and> g = f then False else is_interested g (nd_interest n1))" for g
      using interest_unsubscribe_view [OF inv] by auto
    have "near_ok q tx pr ?n2 (if fst ?i then propagate_interest rt f False ?n2 w1 else w1)"
      by (rule transition_near [OF assms(1) ok1 q1 interest_unsubscribe_inv [OF inv, of f] v])
    moreover have "n' = ?n2" "w' = (if fst ?i then propagate_interest rt f False ?n2 w1 else w1)"
      using assms(5) rem r True by (auto simp: handle_unsubscribe_def Let_def split: prod.splits if_splits)
    ultimately show ?thesis by simp
  next
    case False
    with assms(5) rem r have "n' = n1" "w' = w1" by (auto simp: handle_unsubscribe_def)
    with near_cong [OF ok1 refl q1] show ?thesis by simp
  qed
qed

section \<open>Interest across a link\<close>

text \<open>Requests that the connections of a node make one after another.\<close>

fun handle_requests ::
  "('w, 'z) runtime_scheme \<Rightarrow> 's message_store \<Rightarrow> (real \<Rightarrow> real) \<Rightarrow> (connection \<times> envelope) list \<Rightarrow> 's node \<Rightarrow> 'w \<Rightarrow> ('s node \<times> 'w) outcome" where
  "handle_requests rt ops rnd [] n w = Returns (n, w)"
| "handle_requests rt ops rnd ((cx, e) # rs) n w =
     (case dispatch rt ops rnd e cx n w of
        Panics \<Rightarrow> Panics
      | Returns (_, _, n', w') \<Rightarrow> handle_requests rt ops rnd rs n' w')"

definition interest_request :: "message_kind \<Rightarrow> bool" where
  "interest_request k \<longleftrightarrow> (\<exists>f ack grp durable. k = Subscribe f ack grp durable) \<or> (\<exists>f. k = Unsubscribe f)"

lemma requests_near:
  assumes "queues_grow rt q" and "reliable rt" and "\<forall>(cx, e) \<in> set rs. cx_outgoing_tx cx \<noteq> tx \<and> interest_request (env_kind e)"
    and "near_ok q tx pr n w" and "handle_requests rt ops rnd rs n w = Returns (n', w')"
  shows "near_ok q tx pr n' w'"
  using assms(3-5)
proof (induction rs arbitrary: n w)
  case (Cons r rs)
  obtain cx e where r: "r = (cx, e)" by fastforce
  from Cons.prems(3) obtain ok cx1 n1 w1 where d: "dispatch rt ops rnd e cx n w = Returns (ok, cx1, n1, w1)"
    and rest: "handle_requests rt ops rnd rs n1 w1 = Returns (n', w')" by (auto simp: r split: outcome.splits)
  have tx: "cx_outgoing_tx cx \<noteq> tx" and k: "interest_request (env_kind e)" using Cons.prems(1) by (auto simp: r)
  have "near_ok q tx pr n1 w1"
    using k d subscribe_near [OF assms(1,2) tx Cons.prems(2)] unsubscribe_near [OF assms(1,2) tx Cons.prems(2)]
    by (auto simp: interest_request_def dispatch_def split: outcome.splits prod.splits)
  with Cons.IH Cons.prems(1) rest show ?case by simp
qed simp


text \<open>A runtime whose queues never fill.\<close>

definition roomy_send :: "sender \<Rightarrow> envelope \<Rightarrow> world \<Rightarrow> bool \<times> world" where
  "roomy_send s e w = (True, w\<lparr>wd_queue := (wd_queue w)(s := wd_queue w s @ [e])\<rparr>)"

definition roomy_rt :: "world runtime" where
  "roomy_rt = world_rt\<lparr>rt_mpsc_try_send := roomy_send, rt_mpsc_send := roomy_send\<rparr>"

lemma roomy_rt_ok: "queues_grow roomy_rt wd_queue" "reliable roomy_rt"
  by (auto simp: queues_grow_def reliable_def roomy_rt_def roomy_send_def world_rt_def)


section \<open>Messages that come back\<close>

text \<open>C12. A message that comes back over a link is absorbed. Once a node has published a message, a copy that any connection brings later, whatever topic and sender it claims, leaves the broker as it is and is
  sent to nobody, as long as its id is in the window of recent ids, and publishing puts it there; at most the connection that brought it is told that it was refused.\<close>

theorem echo_absorbed:
  assumes "broker_ok (nd_broker n)" and "0 < si_capacity (br_seen (nd_broker n))"
    and "from_bytes c bs = Inr e" and "env_kind e = Publish t p r ct rp ir"
    and "connection_event_step rt ops rnd c (FrameRead bs) cx n w = Returns (go, cx', n', w')"
    and "role_acl_permits (nd_topic_acl n) (nd_peer_topic_acl n) (is_peer cx) (cx_principal cx) t APublish" and "fst (limiter_allows rt rnd cx n w)"
  shows "env_id e \<in> si_set (br_seen (nd_broker n'))
    \<and> (\<forall>m cy v go' cy' m' v' bs' copy t' p' r' ct' rp' ir'. env_id e \<in> si_set (br_seen (nd_broker m)) \<longrightarrow> from_bytes c bs' = Inr copy
         \<longrightarrow> env_id copy = env_id e \<longrightarrow> env_kind copy = Publish t' p' r' ct' rp' ir'
         \<longrightarrow> connection_event_step rt ops rnd c (FrameRead bs') cy m v = Returns (go', cy', m', v')
         \<longrightarrow> nd_broker m' = nd_broker m \<and> (v' = v \<or> (\<exists>text. v' = snd (reply rt cy (Error (Some (env_id e)) text) m' v))))"
proof -
  have "env_id e \<in> si_set (br_seen (nd_broker n'))"
  proof -
    let ?e = "e\<lparr>env_sender := authenticated_sender rt cx (env_sender e)\<rparr>"
    obtain allowed n1 where l: "limiter_allows rt rnd cx n w = (allowed, n1)" by fastforce
    have n1: "nd_broker n1 = nd_broker n" using l by (auto simp: limiter_allows_def split: if_splits option.splits prod.splits)
    obtain k b w1 where b: "broker_publish rt ops t ?e (nd_broker n) w = (k, b, w1)" by (metis prod_cases3)
    have "nd_broker n' = b" using assms(3-7) l n1 b by (auto simp: dispatch_def handle_publish_def Let_def)
    with broker_publish_seen [OF b] seen_record_mem [of "br_seen (nd_broker n)" "env_id e"] assms(1,2) show ?thesis by (simp add: broker_ok_def)
  qed
  moreover have "nd_broker m' = nd_broker m \<and> (v' = v \<or> (\<exists>text. v' = snd (reply rt cy (Error (Some (env_id e)) text) m' v)))"
    if "env_id e \<in> si_set (br_seen (nd_broker m))" "from_bytes c bs' = Inr copy" "env_id copy = env_id e" "env_kind copy = Publish t' p' r' ct' rp' ir'"
      "connection_event_step rt ops rnd c (FrameRead bs') cy m v = Returns (go', cy', m', v')" for m cy v go' cy' m' v' bs' copy t' p' r' ct' rp' ir'
  proof -
    let ?copy = "copy\<lparr>env_sender := authenticated_sender rt cy (env_sender copy)\<rparr>"
    obtain allowed m1 where l: "limiter_allows rt rnd cy m v = (allowed, m1)" by fastforce
    have m1: "nd_broker m1 = nd_broker m" using l by (auto simp: limiter_allows_def split: if_splits option.splits prod.splits)
    have dup: "broker_publish rt ops t' ?copy (nd_broker m) v = (0, nd_broker m, v)" using that(1,3) by (intro publish_duplicate) simp
    have "handle_publish rt ops rnd cy ?copy m v = Returns (go', m', v')" using that(2,4,5) by (auto simp: dispatch_def split: outcome.splits)
    then show ?thesis using that(3,4) l m1 dup
      by (auto simp: handle_publish_def count_acl_rejection_def Let_def split: if_splits prod.splits) (metis snd_conv)+
  qed
  ultimately show ?thesis by blast
qed

theorem echo_absorbed_witness:
  "\<exists>go cx' n' w' go' cy' m' v'.
     (let e = example_publish 1; c = pair_codec e e; cx = fst (connect None 5 6 example_node)
      in connection_event_step world_rt (sqlite_message_store example_env) id c (FrameRead [0]) cx example_node world0 = Returns (go, cx', n', w')
         \<and> connection_event_step world_rt (sqlite_message_store example_env) id c (FrameRead [1]) cx n' w' = Returns (go', cy', m', v')
         \<and> nd_broker m' = nd_broker n')"
proof -
  let ?ops = "sqlite_message_store example_env"
  define e where "e = example_publish 1"
  define c where "c = pair_codec e e"
  define cx where "cx = fst (connect None 5 6 example_node)"
  obtain go cx' n' w' where s: "connection_event_step world_rt ?ops id c (FrameRead [0]) cx example_node world0 = Returns (go, cx', n', w')"
    using frames_never_panic by (metis outcome.exhaust prod_cases4)
  obtain go' cy' m' v' where s': "connection_event_step world_rt ?ops id c (FrameRead [1]) cx n' w' = Returns (go', cy', m', v')"
    using frames_never_panic by (metis outcome.exhaust prod_cases4)
  have ok: "broker_ok (nd_broker example_node)" "0 < si_capacity (br_seen (nd_broker example_node))"
    by (simp_all add: example_node_def node_new_def broker_new_def broker_default_ok)
      (simp add: broker_default_def seen_new_def DEFAULT_DEDUP_CAPACITY_def)
  have b: "from_bytes c [0] = Inr e" "from_bytes c [1] = Inr e" by (simp_all add: c_def from_bytes_def pair_codec_def)
  have "\<exists>t p r ct rp ir. env_kind e = Publish t p r ct rp ir" by (auto simp: e_def example_publish_def)
  then obtain t p r ct rp ir where k: "env_kind e = Publish t p r ct rp ir" by blast
  have p: "role_acl_permits (nd_topic_acl example_node) (nd_peer_topic_acl example_node) (is_peer cx) (cx_principal cx) t APublish"
    "fst (limiter_allows world_rt id cx example_node world0)"
    by (simp_all add: example_node_def node_new_def cx_def connect_def Let_def case_prod_beta is_peer_def role_acl_permits_def topic_acl_permits_def limiter_allows_def)
  note ea = echo_absorbed [OF ok b(1) k s p]
  from ea [THEN conjunct2, rule_format, OF ea [THEN conjunct1] b(2) refl k s'] s s' show ?thesis
    unfolding Let_def e_def [symmetric] c_def [symmetric] cx_def [symmetric] by blast
qed

section \<open>Interest that two nodes announced to each other\<close>

lemma subscribe_new_effect:
  assumes "reliable rt" and "map_of (nd_connections n) (cx_id cx) \<noteq> None" and "may_subscribe cx f n" and "f \<notin> keys (forwarders_of (cx_id cx) n)"
    and "handle_subscribe rt cx e f ack grp False n w = Returns (ok, n', w')"
  shows "ok \<and> acls n' = acls n \<and> nd_interest n' = snd (interest_subscribe f (nd_interest n)) \<and> nd_peer_links n' = nd_peer_links n
    \<and> (\<forall>i. keys (forwarders_of i n') = (if i = cx_id cx then insert f (keys (forwarders_of i n)) else keys (forwarders_of i n)))
    \<and> (\<forall>i. map_of (nd_connections n') i \<noteq> None \<longleftrightarrow> map_of (nd_connections n) i \<noteq> None)
    \<and> w' = (let v = snd (reply rt cx (Ack (env_id e)) n' w) in if fst (interest_subscribe f (nd_interest n)) then propagate_interest rt f True n' v else v)"
proof -
  let ?i = "cx_id cx" and ?fs = "forwarders_of (cx_id cx) n"
  from assms(3-5) obtain n1 where ins: "subscribe_insert cx f ack grp False (env_sender e) n = Returns (True, n1)"
    and set: "subscribe_settle rt cx e f True n1 w = (ok, n', w')"
    by (auto simp: handle_subscribe_def subscribe_insert_def Let_def map_of_None_keys split: outcome.splits)
  from ins obtain sub n0 where n0: "nd_interest n0 = nd_interest n" "nd_connections n0 = nd_connections n" "nd_topic_acl n0 = nd_topic_acl n"
    "nd_peer_topic_acl n0 = nd_peer_topic_acl n" and n1: "n1 = set_forwarders ?i (AList.update f sub ?fs) n0"
    by (cases rule: subscribe_insert_cases) auto
  have t: "telling n1 = telling n" by (rule telling_insert [OF ins])
  have a: "acls n1 = acls n" by (simp add: n1 acls_def set_forwarders_def n0 split: option.split)
  have fw: "keys (forwarders_of i n1) = (if i = ?i then insert f (keys ?fs) else keys (forwarders_of i n))" for i
    using assms(2) n0(2) forwarders_of_conns [OF n0(2)] by (simp add: n1 forwarders_of_set_forwarders)
  have reg: "map_of (nd_connections n1) i \<noteq> None \<longleftrightarrow> map_of (nd_connections n) i \<noteq> None" for i
    using n0(2) by (simp add: n1)
  from set may_subscribe_acls [OF a, of cx f] assms(3) have com: "subscribe_commit rt cx e f True n1 w = (ok, n', w')" by (simp add: subscribe_settle_def)
  obtain v where r: "reply rt cx (Ack (env_id e)) (n1\<lparr>nd_interest := snd (interest_subscribe f (nd_interest n1))\<rparr>) w = (True, v)"
    using reply_ok [OF assms(1)] by blast
  have n': "ok" "n' = n1\<lparr>nd_interest := snd (interest_subscribe f (nd_interest n1))\<rparr>"
    "w' = (if fst (interest_subscribe f (nd_interest n1)) then propagate_interest rt f True n' v else v)"
    using com r by (auto simp: subscribe_commit_def Let_def split: prod.splits if_splits)
  have "nd_interest n1 = nd_interest n" "nd_peer_links n1 = nd_peer_links n" using t by (simp_all add: telling_def)
  with n' r a fw reg show ?thesis by (simp add: acls_def forwarders_of_def Let_def)
qed

text \<open>While another connection holds a subscription to the filter, ending one withdraws and announces nothing.\<close>

lemma unsubscribe_silent:
  assumes "reliable rt" and "f \<in> keys (forwarders_of (cx_id cx) n)" and "1 < interest_count (nd_interest n) f" and "interest_inv (nd_interest n)"
    and "handle_unsubscribe rt cx e f n w = (ok, n', w')"
  shows "ok \<and> w' = snd (reply rt cx (Ack (env_id e)) (n'\<lparr>nd_interest := nd_interest n\<rparr>) w)
    \<and> interest_count (nd_interest n') f = interest_count (nd_interest n) f - 1
    \<and> (\<forall>i. keys (forwarders_of i n') = (if i = cx_id cx then keys (forwarders_of i n) - {f} else keys (forwarders_of i n)))"
proof -
  obtain had n1 where rem: "remove_subscription cx f n = (had, n1)" by fastforce
  from assms(2) obtain sub where sub: "map_of (forwarders_of (cx_id cx) n) f = Some sub" by (auto simp: keys_dom)
  have reg: "map_of (nd_connections n) (cx_id cx) \<noteq> None" using assms(2) by (cases "map_of (nd_connections n) (cx_id cx)") (auto simp: forwarders_of_def keys_def)
  from rem sub have had: had and t: "telling n1 = telling n"
    and c: "nd_connections n1 = nd_connections (set_forwarders (cx_id cx) (AList.delete f (forwarders_of (cx_id cx) n)) n)"
    using telling_fields(4) [of cx f n] by (auto simp: remove_subscription_def Let_def abort_task_def elim!: stop_subscription.elims)
  obtain v where r: "reply rt cx (Ack (env_id e)) n1 w = (True, v)" using reply_ok [OF assms(1)] by blast
  have i: "nd_interest n1 = nd_interest n" using t by (simp add: telling_def)
  have "\<not> fst (interest_unsubscribe f (nd_interest n))" using interest_unsubscribe_count(2) [OF assms(4), of f] assms(3) by simp
  then have n': "ok" "n' = n1\<lparr>nd_interest := snd (interest_unsubscribe f (nd_interest n))\<rparr>" "w' = v"
    using assms(5) rem r had i by (auto simp: handle_unsubscribe_def Let_def split: prod.splits)
  have "forwarders_of j n' = forwarders_of j n1" for j by (simp add: n' forwarders_of_def)
  moreover have "keys (forwarders_of j n1) = (if j = cx_id cx then keys (forwarders_of j n) - {f} else keys (forwarders_of j n))" for j
    using forwarders_of_conns [OF c, of j] reg by (simp add: forwarders_of_set_forwarders)
  moreover have "n'\<lparr>nd_interest := nd_interest n\<rparr> = n1" using i by (simp add: n')
  ultimately show ?thesis using r by (simp add: n' interest_unsubscribe_count(1))
qed

text \<open>
  Interest that two nodes announced to each other stays for as long as their link. A client of the node \<open>b\<close> subscribes and \<open>b\<close> tells \<open>a\<close>; for \<open>a\<close> this is new interest, which it tells \<open>b\<close>
  in turn; so \<open>b\<close> counts the link as a second subscriber. When the client unsubscribes, the count goes from two to one: nothing is announced, and on both nodes the filter stays subscribed
  for the other node, with no client left.
\<close>

theorem mutual_interest_never_withdrawn:
  assumes "reliable rt" and "interest_inv (nd_interest b)" and "interest_count (nd_interest b) f = 0" and "subscribers f b = {}"
    and "map_of (nd_connections b) (cx_id client) \<noteq> None" and "map_of (nd_connections b) (cx_id link) \<noteq> None" and "cx_id client \<noteq> cx_id link"
    and "may_subscribe client f b" and "may_subscribe link f b"
    and "interest_inv (nd_interest a)" and "interest_count (nd_interest a) f = 0" and "subscribers f a = {}"
    and "map_of (nd_connections a) (cx_id relay) \<noteq> None" and "may_subscribe relay f a"
    and "handle_subscribe rt client e1 f ack grp False b w1 = Returns (ok1, b1, w1')"
    and "handle_subscribe rt relay e2 f False None False a w2 = Returns (ok2, a1, w2')"
    and "handle_subscribe rt link e3 f False None False b1 w3 = Returns (ok3, b2, w3')"
    and "handle_unsubscribe rt client e4 f b2 w4 = (ok4, b3, w4')"
  shows "w1' = propagate_interest rt f True b1 (snd (reply rt client (Ack (env_id e1)) b1 w1))"
    and "w2' = propagate_interest rt f True a1 (snd (reply rt relay (Ack (env_id e2)) a1 w2))"
    and "w4' = snd (reply rt client (Ack (env_id e4)) (b3\<lparr>nd_interest := nd_interest b2\<rparr>) w4)"
    and "subscribers f b3 = {cx_id link} \<and> interest_count (nd_interest b3) f = 1"
    and "subscribers f a1 = {cx_id relay} \<and> interest_count (nd_interest a1) f = 1"
proof -
  have none: "f \<notin> keys (forwarders_of i b)" "f \<notin> keys (forwarders_of i a)" for i using assms(4,12) by (auto simp: subscribers_def)
  note s1 = subscribe_new_effect [OF assms(1,5,8) none(1) assms(15)]
  note s2 = subscribe_new_effect [OF assms(1,13,14) none(2) assms(16)]
  have "map_of (nd_connections b1) (cx_id link) \<noteq> None" "may_subscribe link f b1" "f \<notin> keys (forwarders_of (cx_id link) b1)"
    using s1 assms(6,7,9) none(1) may_subscribe_acls [of b1 b link f] by auto
  note s3 = subscribe_new_effect [OF assms(1) this assms(17)]
  show "w1' = propagate_interest rt f True b1 (snd (reply rt client (Ack (env_id e1)) b1 w1))"
    using s1 assms(3) by (simp add: interest_subscribe_count(2) Let_def)
  show "w2' = propagate_interest rt f True a1 (snd (reply rt relay (Ack (env_id e2)) a1 w2))"
    using s2 assms(11) by (simp add: interest_subscribe_count(2) Let_def)
  have inv: "interest_inv (nd_interest b2)" using s1 s3 interest_subscribe_inv assms(2) by metis
  have cnt: "interest_count (nd_interest b2) f = 2" using s1 s3 assms(3) by (simp add: interest_subscribe_count(1))
  have "f \<in> keys (forwarders_of (cx_id client) b2)" using s1 s3 assms(7) by auto
  note u = unsubscribe_silent [OF assms(1) this _ inv assms(18)]
  show "w4' = snd (reply rt client (Ack (env_id e4)) (b3\<lparr>nd_interest := nd_interest b2\<rparr>) w4)" using u cnt by simp
  show "subscribers f b3 = {cx_id link} \<and> interest_count (nd_interest b3) f = 1"
    using u cnt s1 s3 none(1) assms(7) by (auto simp: subscribers_def)
  show "subscribers f a1 = {cx_id relay} \<and> interest_count (nd_interest a1) f = 1"
    using s2 none(2) assms(11) by (auto simp: subscribers_def interest_subscribe_count(1))
qed

theorem mutual_interest_never_withdrawn_witness:
  "\<exists>(b3 :: sqlite_store node) (a1 :: sqlite_store node). subscribers (TopicFilter [97]) b3 = {1} \<and> interest_count (nd_interest b3) (TopicFilter [97]) = 1
     \<and> subscribers (TopicFilter [97]) a1 = {0} \<and> interest_count (nd_interest a1) (TopicFilter [97]) = 1"
proof -
  let ?f = "TopicFilter [97]" and ?e = example_subscribe
  obtain client b0 where c0: "connect None 5 6 example_node = (client, b0)" by fastforce
  obtain link b where c1: "connect None 7 8 b0 = (link, b)" by fastforce
  obtain relay a where c2: "connect None 3 4 example_node = (relay, a)" by fastforce
  have ids: "cx_id client = 0" "cx_id link = 1" "cx_id relay = 0" and inv: "interest_inv (nd_interest b)" "interest_inv (nd_interest a)"
    and cnt: "interest_count (nd_interest b) ?f = 0" "interest_count (nd_interest a) ?f = 0"
    and none: "subscribers ?f b = {}" "subscribers ?f a = {}"
    and reg: "map_of (nd_connections b) 0 \<noteq> None" "map_of (nd_connections b) 1 \<noteq> None" "map_of (nd_connections a) 0 \<noteq> None"
    and may: "may_subscribe client ?f b" "may_subscribe link ?f b" "may_subscribe relay ?f a"
    using c0 c1 c2 by (auto simp: connect_def registry_register_def example_node_def node_new_def interest_inv_def interest_count_def interest_new_def
        subscribers_def forwarders_of_def keys_def may_subscribe_def filter_acl_permits_def is_peer_def Let_def split: if_splits)
  have ret: "\<exists>ok n' w'. handle_subscribe roomy_rt cx e ?f False None False n w = Returns (ok, n', w')" for cx e w and n :: "sqlite_store node"
    using handle_subscribe_returns by (metis outcome.exhaust prod_cases3)
  obtain ok1 b1 w1 where h1: "handle_subscribe roomy_rt client ?e ?f False None False b world0 = Returns (ok1, b1, w1)" using ret by blast
  obtain ok2 a1 w2 where h2: "handle_subscribe roomy_rt relay ?e ?f False None False a world0 = Returns (ok2, a1, w2)" using ret by blast
  obtain ok3 b2 w3 where h3: "handle_subscribe roomy_rt link ?e ?f False None False b1 w1 = Returns (ok3, b2, w3)" using ret by blast
  obtain ok4 b3 w4 where h4: "handle_unsubscribe roomy_rt client ?e ?f b2 w3 = (ok4, b3, w4)" by (metis prod_cases3)
  have "cx_id client \<noteq> cx_id link" by (simp add: ids)
  from mutual_interest_never_withdrawn(4,5) [OF roomy_rt_ok(2) inv(1) cnt(1) none(1) reg(1,2) [folded ids] this may(1,2) inv(2) cnt(2) none(2) reg(3) [folded ids(3)] may(3) h1 h2 h3 h4]
  show ?thesis unfolding ids by blast
qed

end
