(* ===== verification/Durable.thy ===== *)
theory Durable
  imports Forwarders Wire
begin

text \<open>
  Durable subscriptions across sessions (\<open>subscribe_durable\<close> in crates/thoth-mesh-broker/src/lib.rs, \<open>spawn_durable_forwarder\<close> in
  crates/thoth-mesh-node/src/connection.rs): a task hands a subscriber what it has missed and records a position after every message.
  Proved in the locale of the message store, for every store that keeps its contract: wherever a session breaks off, the next one starts with the rest.
  Two limits of the recorded position follow: it runs ahead of what was written to the socket, and it passes over messages with an older id.
\<close>

section \<open>Merging\<close>

text \<open>A later position only drops messages from the front of what an earlier one would hand out.\<close>

lemma merge_buffered_later:
  assumes "l \<le> l'"
  shows "filter (\<lambda>e. l' < env_id e) (merge_buffered (Some l) es bl) = merge_buffered (Some l') es (filter (\<lambda>e. l' < env_id e) bl)"
proof (induction es arbitrary: bl)
  case (Cons e es)
  consider "env_id e \<le> l" | "l < env_id e" "env_id e \<le> l'" | "l' < env_id e" by fastforce
  then show ?case
  proof cases
    case 3
    then have "(env_id e \<in> env_id ` set (filter (\<lambda>e. l' < env_id e) bl)) = (env_id e \<in> env_id ` set bl)" by auto
    with 3 assms Cons show ?thesis by (auto simp: list_ex_image not_le)
  qed (use assms Cons in \<open>auto simp: not_le\<close>)
qed simp

lemma sorted_filter_drop:
  assumes "sorted (map env_id es)" and "distinct (map env_id es)" and "0 < k" and "k \<le> length es"
  shows "filter (\<lambda>e. env_id (es ! (k - 1)) < env_id e) es = drop k es"
proof -
  let ?P = "\<lambda>e. env_id (es ! (k - 1)) < env_id e"
  have "\<not> ?P x" if x: "x \<in> set (take k es)" for x
  proof -
    obtain i where "i < k" "i < length es" "x = es ! i" using x by (fastforce simp: in_set_conv_nth)
    then show ?thesis using sorted_nth_mono [OF assms(1), of i "k - 1"] assms(3,4) by (simp add: not_less)
  qed
  then have "filter ?P (take k es) = []" by (simp add: filter_empty_conv)
  moreover have "?P x" if x: "x \<in> set (drop k es)" for x
  proof -
    from x obtain j where "j < length (drop k es)" "drop k es ! j = x" unfolding in_set_conv_nth by blast
    then have "k + j < length es" "x = es ! (k + j)" by auto
    note j = this
    have "map env_id es ! (k - 1) \<le> map env_id es ! (k + j)" "map env_id es ! (k - 1) \<noteq> map env_id es ! (k + j)"
      using sorted_nth_mono [OF assms(1), of "k - 1" "k + j"] nth_eq_iff_index_eq [OF assms(2), of "k - 1" "k + j"] assms(3,4) j(1) by auto
    then have "env_id (es ! (k - 1)) < env_id (es ! (k + j))" using assms(3,4) j(1) by simp
    then show ?thesis using j(2) by simp
  qed
  then have "filter ?P (drop k es) = drop k es" by (simp add: filter_id_conv)
  ultimately show ?thesis by (metis append_take_drop_id append_Nil filter_append)
qed

section \<open>Subscribing twice\<close>

text \<open>The registry holds the topic or has room for it.\<close>

definition has_room :: "topic \<Rightarrow> 's broker \<Rightarrow> bool" where
  "has_room t b \<longleftrightarrow> t \<in> keys (tm_map (br_topics b)) \<or> length (tm_map (br_topics b)) < DEFAULT_TOPIC_MAP_CAPACITY"

lemma subscribe_again:
  assumes "as_topic f = Some t" and "has_room t b" and "broker_subscribe rt f b w = ((buffered, r), b1, w1)"
  shows "\<exists>r2 b2 w2. broker_subscribe rt f (b1\<lparr>br_store := st\<rparr>) v = ((buffered, r2), b2, w2)" and "br_store b1 = br_store b"
proof -
  obtain a tm h ev w0 where g: "get_or_insert rt t (br_topics b) (br_channels b) (br_topic_evictions b) w = (a, tm, h, ev, w0)"
    by (metis prod_cases5)
  have b1: "b1 = b\<lparr>br_topics := tm, br_channels := h, br_topic_evictions := ev\<rparr>" "buffered = channel_backlog (h ! a)"
    using assms(3) by (auto simp: broker_subscribe_def assms(1) subscribe_exact_def topic_channel_of_def g channel_subscribe_def Let_def
        split: prod.splits)
  have "map_of (tm_map tm) t = Some a" using get_or_insert_present [OF g] assms(2) by (simp add: has_room_def)
  then show "\<exists>r2 b2 w2. broker_subscribe rt f (b1\<lparr>br_store := st\<rparr>) v = ((buffered, r2), b2, w2)"
    by (simp add: broker_subscribe_def assms(1) subscribe_exact_def topic_channel_of_def get_or_insert_def channel_subscribe_def b1
        Let_def split: prod.splits)
  show "br_store b1 = br_store b" by (simp add: b1)
qed

section \<open>Queues\<close>

text \<open>What tokio promises of a channel: a send that succeeds appends the message, one that fails adds nothing, and subscribing to a broadcast sends nothing.\<close>

definition honest_queues :: "('w, 'z) runtime_scheme \<Rightarrow> ('w \<Rightarrow> sender \<Rightarrow> envelope list) \<Rightarrow> bool" where
  "honest_queues rt q \<longleftrightarrow>
     (\<forall>s e w. q (snd (rt_mpsc_send rt s e w)) = (if fst (rt_mpsc_send rt s e w) then (q w)(s := q w s @ [e]) else q w))
     \<and> (\<forall>b w. q (snd (rt_bcast_subscribe rt b w)) = q w) \<and> (\<forall>k w. q (snd (rt_bcast_channel rt k w)) = q w)"

lemma subscribe_queues:
  assumes "honest_queues rt q" and "as_topic f = Some t" and "broker_subscribe rt f b w = (x, b', w')"
  shows "q w' = q w"
proof -
  obtain a tm h ev w0 where g: "get_or_insert rt t (br_topics b) (br_channels b) (br_topic_evictions b) w = (a, tm, h, ev, w0)"
    by (metis prod_cases5)
  have "q w0 = q w" using g
  proof (cases rule: get_or_insert_cases)
    case (new ch)
    then have "w0 = snd (rt_bcast_channel rt DEFAULT_TOPIC_CHANNEL_CAPACITY w)" by (auto simp: channel_new_def split: prod.splits)
    then show ?thesis using assms(1) by (simp add: honest_queues_def)
  qed simp
  moreover have "w' = snd (rt_bcast_subscribe rt (tc_sender (h ! a)) w0)"
    using assms(3) by (auto simp: broker_subscribe_def assms(2) subscribe_exact_def topic_channel_of_def g channel_subscribe_def Let_def
        split: prod.splits)
  ultimately show ?thesis using assms(1) by (simp add: honest_queues_def)
qed

section \<open>A session\<close>

context durable_store
begin

lemma subscribe_durable_eq:
  assumes "ok s" and "br_store b = Some s" and "as_topic f = Some t" and "offs s (p, t) = Some l"
    and "broker_subscribe rt f b w = ((buffered, r), b', w')"
  shows "subscribe_durable rt ops f p b w =
    (Inr (sort_key env_id (merge_buffered (Some l) buffered (sort_key env_id (filter (\<lambda>e. l < env_id e) (log s t)))), r), b', w')"
  by (simp add: subscribe_durable_def durable_catchup_def load_offset_law [OF assms(1)] since_law [OF assms(1)] assms(2-5))

text \<open>Sending the backlog: a prefix is queued, and the position is that of the last message queued.\<close>

lemma forward_all_durable_effect:
  assumes "forward_all_durable rt ops p t tx es ld b w = (sent, ld', b', w')" and "honest_queues rt q"
    and "ok s" and "br_store b = Some s" and "\<forall>e \<in> set es. length (message_uuid (env_id e)) = 16"
  shows "\<exists>k s'. k \<le> length es \<and> (sent \<longleftrightarrow> k = length es) \<and> q w' tx = q w tx @ take k es
    \<and> b' = b\<lparr>br_store := Some s'\<rparr> \<and> ok s' \<and> log s' = log s
    \<and> offs s' = (if k = 0 then offs s else (offs s)((p, t) \<mapsto> env_id (es ! (k - 1))))"
  using assms(1,3,4,5)
proof (induction es arbitrary: ld b w s)
  case Nil
  then show ?case by (intro exI [of _ 0] exI [of _ s]) simp
next
  case (Cons e es)
  obtain okay w1 where snd: "rt_mpsc_send rt tx e w = (okay, w1)" by fastforce
  then have q: "q w1 = (if okay then (q w)(tx := q w tx @ [e]) else q w)" using assms(2) unfolding honest_queues_def by (metis fst_conv snd_conv)
  show ?case
  proof (cases okay)
    case False
    then show ?thesis using Cons.prems snd q by (intro exI [of _ 0] exI [of _ s]) auto
  next
    case True
    obtain s1 where s1: "st_record_offset ops p t (env_id e) s = (Returns (Inr ()), s1)" "ok s1" "log s1 = log s" "offs s1 = (offs s)((p, t) \<mapsto> env_id e)"
      using offset_law [OF Cons.prems(2), of "env_id e" p t] Cons.prems(4) by auto
    let ?b = "b\<lparr>br_store := Some s1\<rparr>"
    have "record_delivered ops p t (env_id e) b = ?b" using Cons.prems(3) s1(1) by (simp add: record_delivered_def)
    then have "forward_all_durable rt ops p t tx es (Some (env_id e)) ?b w1 = (sent, ld', b', w')" using Cons.prems(1) snd True by simp
    from Cons.IH [OF this s1(2)] Cons.prems(4) obtain k s' where k: "k \<le> length es" "sent \<longleftrightarrow> k = length es" "q w' tx = q w1 tx @ take k es"
      "b' = ?b\<lparr>br_store := Some s'\<rparr>" "ok s'" "log s' = log s1" "offs s' = (if k = 0 then offs s1 else (offs s1)((p, t) \<mapsto> env_id (es ! (k - 1))))"
      by auto
    show ?thesis
      using k s1(3,4) q True by (intro exI [of _ "Suc k"] exI [of _ s']) (auto simp: nth_Cons')
  qed
qed

text \<open>Wherever the session breaks off, the next one starts with the rest.\<close>

lemma session_resumes:
  assumes "honest_queues rt q" and "ok s" and "br_store b = Some s" and "as_topic f = Some t" and "offs s (p, t) = Some l"
    and "has_room t b" and "distinct (map env_id (log s t))"
    and "subscribe_durable rt ops f p b w = (Inr (backlog, r), b1, w1)" and "\<forall>e \<in> set backlog. length (message_uuid (env_id e)) = 16"
    and "durable_forwarder_start rt ops f t p tx b m w = (task, b', m', w')"
  shows "\<exists>k \<le> length backlog. q w' tx = q w tx @ take k backlog \<and> (task = None \<longleftrightarrow> k < length backlog)
    \<and> (\<exists>r2 b2 w2. subscribe_durable rt ops f p b' v = (Inr (drop k backlog, r2), b2, w2))"
proof -
  obtain buffered r0 b0 w0 where sub: "broker_subscribe rt f b w = ((buffered, r0), b0, w0)" by (metis prod.exhaust)
  let ?merge = "\<lambda>l. sort_key env_id (merge_buffered (Some l) buffered (sort_key env_id (filter (\<lambda>e. l < env_id e) (log s t))))"
  have bl: "backlog = ?merge l" "b1 = b0" "w1 = w0" using subscribe_durable_eq [OF assms(2-5) sub] assms(8) by simp_all
  have inj: "inj_on env_id (set (log s t))" "distinct (log s t)" using assms(7) by (simp_all add: distinct_map)
  have "distinct (map env_id (sort_key env_id (filter (\<lambda>e. l < env_id e) (log s t))))"
    using inj by (auto simp: distinct_map intro: inj_on_subset)
  then have dist: "sorted (map env_id backlog)" "distinct (map env_id backlog)"
    using merge_buffered_spec [of "Some l" buffered "sort_key env_id (filter (\<lambda>e. l < env_id e) (log s t))"]
    by (auto simp: bl(1) distinct_sort_key_map)
  obtain sent ld b2 w2 where fwd: "forward_all_durable rt ops p t tx backlog None b1 w1 = (sent, ld, b2, w2)" by (metis prod.exhaust)
  have out: "task = None \<longleftrightarrow> \<not> sent" "b' = b2" "w' = w2" using assms(8,10) fwd by (auto simp: durable_forwarder_start_def)
  have st: "br_store b1 = Some s" using subscribe_again(2) [OF assms(4,6) sub] assms(3) bl(2) by simp
  from forward_all_durable_effect [OF fwd assms(1,2) st assms(9)] obtain k s' where k: "k \<le> length backlog" "sent \<longleftrightarrow> k = length backlog"
    "q w2 tx = q w1 tx @ take k backlog" "b2 = b1\<lparr>br_store := Some s'\<rparr>" "ok s'" "log s' = log s"
    "offs s' = (if k = 0 then offs s else (offs s)((p, t) \<mapsto> env_id (backlog ! (k - 1))))" by blast
  define l' where "l' = (if k = 0 then l else env_id (backlog ! (k - 1)))"
  have l': "offs s' (p, t) = Some l'" using k(7) assms(5) by (simp add: l'_def)
  have after: "\<forall>e \<in> set backlog. l < env_id e"
    using merge_buffered_spec [of "Some l" buffered "sort_key env_id (filter (\<lambda>e. l < env_id e) (log s t))"] by (auto simp: bl(1))
  have le: "l \<le> l'" using after k(1) by (cases "k = 0") (auto simp: l'_def dest: nth_mem intro: order.strict_implies_order)
  obtain r2 b3 w3 where again: "broker_subscribe rt f b' v = ((buffered, r2), b3, w3)"
    using subscribe_again(1) [OF assms(4,6) sub, of "Some s'" v] k(4) out(2) bl(2) by auto
  have "br_store b' = Some s'" using k(4) out(2) by simp
  note next_session = subscribe_durable_eq [OF k(5) this assms(4) l' again]
  have "?merge l' = filter (\<lambda>e. l' < env_id e) backlog"
    using merge_buffered_later [OF le, of buffered "sort_key env_id (filter (\<lambda>e. l < env_id e) (log s t))"] le
    by (simp add: bl(1) filter_sort conj_absorb less_le_trans) (metis (no_types, lifting) filter_cong le_less_trans)
  also have "\<dots> = drop k backlog"
  proof (cases "k = 0")
    case True
    with after show ?thesis by (simp add: l'_def filter_id_conv)
  next
    case False
    with sorted_filter_drop [OF dist, of k] k(1) show ?thesis by (simp add: l'_def)
  qed
  finally have "subscribe_durable rt ops f p b' v = (Inr (drop k backlog, r2), b3, w3)" using next_session k(6) by simp
  moreover have "q w' tx = q w tx @ take k backlog"
    using k(3) out(3) bl(3) subscribe_queues [OF assms(1,4) sub] by simp
  ultimately show ?thesis using k(1,2) out(1) by (intro exI [of _ k]) (auto simp: less_le)
qed

text \<open>A position is the id of the last message queued, and only later ids are handed out after it.\<close>

lemma nothing_before_position:
  assumes "ok s" and "br_store b = Some s" and "as_topic f = Some t" and "offs s (p, t) = Some l"
    and "subscribe_durable rt ops f p b w = (Inr (backlog, r), b', w')" and "i \<le> l"
  shows "i \<notin> env_id ` set backlog"
proof -
  obtain buffered r0 b0 w0 where sub: "broker_subscribe rt f b w = ((buffered, r0), b0, w0)" by (metis prod.exhaust)
  have "\<forall>e \<in> set backlog. l < env_id e"
    using subscribe_durable_eq [OF assms(1-4) sub] assms(5)
      merge_buffered_spec [of "Some l" buffered "sort_key env_id (filter (\<lambda>e. l < env_id e) (log s t))"] by auto
  with assms(6) show ?thesis by auto
qed

lemma recv_position:
  assumes "durable_forwarder_recv rt ops f t p tx (RecvOk e) st b m w = (Some st', b', m', w')" and "honest_queues rt q"
    and "ok s" and "br_store b = Some s" and "length (message_uuid (env_id e)) = 16"
  obtains s' where "br_store b' = Some s'" "ok s'" "offs s' (p, t) = Some (env_id e)" "q w' tx = q w tx @ [e]"
proof -
  obtain rx ld where st: "st = (rx, ld)" by fastforce
  obtain s1 where s1: "st_record_offset ops p t (env_id e) s = (Returns (Inr ()), s1)" "ok s1" "offs s1 = (offs s)((p, t) \<mapsto> env_id e)"
    using offset_law [OF assms(3,5), of p t] by auto
  have sent: "rt_mpsc_send rt tx e w = (True, w')" "b' = record_delivered ops p t (env_id e) b"
    using assms(1) by (auto simp: st split: prod.splits bool.splits)
  then have "q w' tx = q w tx @ [e]" using assms(2) by (metis (no_types, lifting) fst_conv fun_upd_same honest_queues_def snd_conv)
  with s1 sent(2) assms(4) show thesis by (intro that [of s1]) (simp_all add: record_delivered_def)
qed

end

lemma publish_store:
  assumes "env_id e \<notin> si_set (br_seen b)" and "broker_publish rt ops t e b w = (n, b', w')"
  shows "br_store b' = map_option (\<lambda>s. snd (st_append ops e s)) (br_store b)"
proof -
  from broker_publish_sections [OF assms] obtain b1 n1 b2 w2 n2 b3 w3 n3 where
    "b1 = publish_persist ops e (snd (publish_seen e b))" "publish_exact rt t e b1 w = (n1, b2, w2)"
    "publish_patterns rt t e b2 w2 = (n2, b3, w3)" "publish_groups rt t e b3 w3 = (n3, b', w')" by metis
  then show ?thesis
    by (auto simp: publish_groups_def publish_patterns_def publish_exact_def topic_channel_of_def publish_persist_def publish_seen_frame
        split: prod.splits option.splits)
qed

section \<open>Properties\<close>


text \<open>A log of two messages, and a subscriber that has seen neither; its queue has room for one.\<close>

definition example_log :: sqlite_store where
  "example_log = snd (st_record_offset (sqlite_message_store example_env) (PeerId []) (Topic [97]) (MessageId (replicate 16 0))
     (append_run (sqlite_message_store example_env) [example_publish 1, example_publish 2] sqlite_empty))"

definition tight_world :: world where
  "tight_world = world0\<lparr>wd_room := (\<lambda>_. 1)\<rparr>"

definition example_session :: "forwarder_state option \<times> sqlite_store broker \<times> metrics \<times> world" where
  "example_session = durable_forwarder_start world_rt (sqlite_message_store example_env) (TopicFilter [97]) (Topic [97]) (PeerId []) 5
     (with_store example_log) metrics_new tight_world"

lemma world_queues: "honest_queues world_rt wd_queue"
  by (simp add: honest_queues_def world_rt_def world_send_def)

lemma example_log_ok:
  "sqlite_ok (se_codec example_env) example_log" "sqlite_offs example_log (PeerId [], Topic [97]) = Some (MessageId (replicate 16 0))"
proof -
  let ?ops = "sqlite_message_store example_env" and ?i = "MessageId (replicate 16 0)"
  let ?s = "append_run ?ops [example_publish 1, example_publish 2] sqlite_empty"
  have mem: "storable (se_codec example_env) e \<and> is_publish e" if "e \<in> set [example_publish 1, example_publish 2]" for e
    using that example_storable by (auto simp: is_publish_def example_publish_def)
  have "healthy example_env \<and> sqlite_ok (se_codec example_env) sqlite_empty" by (simp add: example_env_healthy sqlite_empty_ok)
  from sqlite.append_run_ok [OF this mem, THEN conjunct1] have "healthy example_env \<and> sqlite_ok (se_codec example_env) ?s" .
  from sqlite.offset_law [OF this, of ?i "PeerId []" "Topic [97]"] show "sqlite_ok (se_codec example_env) example_log"
    "sqlite_offs example_log (PeerId [], Topic [97]) = Some ?i" by (auto simp: example_log_def)
qed

lemma example_log_messages: "sqlite_log (se_codec example_env) example_log (Topic [97]) = [example_publish 1, example_publish 2]"
  by code_simp

lemma example_session_result: "fst example_session = None" "wd_queue (snd (snd (snd example_session))) 5 = [example_publish 1]"
  by code_simp+

lemma example_backlog:
  "\<exists>r b w. subscribe_durable world_rt (sqlite_message_store example_env) (TopicFilter [97]) (PeerId []) (with_store example_log) tight_world
     = (Inr ([example_publish 1, example_publish 2], r), b, w)"
proof -
  have "fst (subscribe_durable world_rt (sqlite_message_store example_env) (TopicFilter [97]) (PeerId []) (with_store example_log) tight_world)
     = Inr ([example_publish 1, example_publish 2], 1)" by code_simp
  then show ?thesis by (metis prod.collapse)
qed


section \<open>Limits of the position\<close>

text \<open>The position runs ahead of the wire. It is recorded when a message enters the queue of the connection; when the socket then fails, the writer drops the queue, and the
  next session starts after the message, which the subscriber never got.\<close>

theorem durable_position_ahead_of_wire:
  assumes "honest_queues rt q" and "healthy env" and "sqlite_ok (se_codec env) s" and "br_store b = Some s" and "as_topic f = Some t"
    and "length (message_uuid (env_id e)) = 16"
    and "durable_forwarder_recv rt (sqlite_message_store env) f t p tx (RecvOk e) st b m w = (Some st', b', m', w')"
    and "\<forall>x. send_envelope c wr x stream = None"
    and "subscribe_durable rt (sqlite_message_store env) f p b' v = (Inr (backlog, r), b2, v2)"
  shows "q w' tx = q w tx @ [e] \<and> write_loop c wr (q w' tx) stream = stream \<and> env_id e \<notin> env_id ` set backlog"
proof -
  have ok: "healthy env \<and> sqlite_ok (se_codec env) s" using assms(2,3) by simp
  obtain s' where s': "br_store b' = Some s'" "healthy env \<and> sqlite_ok (se_codec env) s'" "sqlite_offs s' (p, t) = Some (env_id e)"
    "q w' tx = q w tx @ [e]"
    using sqlite.recv_position [OF assms(7,1) ok assms(4,6)] by blast
  moreover have "write_loop c wr es stream = stream" for es using assms(8) by (cases es) simp_all
  moreover have "env_id e \<notin> env_id ` set backlog"
    by (rule sqlite.nothing_before_position [OF s'(2,1) assms(5) s'(3) assms(9)]) simp
  ultimately show ?thesis by blast
qed

theorem durable_position_ahead_of_wire_witness:
  "\<exists>b' m' w' backlog r b2 v2.
     durable_forwarder_recv world_rt (sqlite_message_store example_env) (TopicFilter [97]) (Topic [97]) (PeerId []) 5 (RecvOk (example_publish 2)) (0, None)
       (with_store example_log) metrics_new world0 = (Some (0, Some (env_id (example_publish 2))), b', m', w')
     \<and> subscribe_durable world_rt (sqlite_message_store example_env) (TopicFilter [97]) (PeerId []) b' w' = (Inr (backlog, r), b2, v2)
     \<and> write_loop (se_codec example_env) (\<lambda>_ _. Inl UnexpectedEof) (wd_queue w' 5) () = () \<and> env_id (example_publish 2) \<notin> env_id ` set backlog"
proof -
  let ?ops = "sqlite_message_store example_env" and ?f = "TopicFilter [97]" and ?e = "example_publish 2" and ?b = "with_store example_log"
  let ?w = "snd (world_send 5 ?e world0)" and ?b' = "record_delivered ?ops (PeerId []) (Topic [97]) (env_id ?e) (with_store example_log)"
  have recv: "durable_forwarder_recv world_rt ?ops ?f (Topic [97]) (PeerId []) 5 (RecvOk ?e) (0, None) ?b metrics_new world0
      = (Some (0, Some (env_id ?e)), ?b', metrics_new, ?w)" by (simp add: world_defs)
  have pre: "br_store ?b = Some example_log" "as_topic ?f = Some (Topic [97])" "length (message_uuid (env_id ?e)) = 16"
    by (simp_all add: with_store_def is_literal_def wildcard_defs example_publish_def)
  have ok: "healthy example_env \<and> sqlite_ok (se_codec example_env) example_log" by (simp add: example_env_healthy example_log_ok)
  obtain s' where s': "br_store ?b' = Some s'" "healthy example_env \<and> sqlite_ok (se_codec example_env) s'" "sqlite_offs s' (PeerId [], Topic [97]) = Some (env_id ?e)"
    using sqlite.recv_position [OF recv world_queues ok pre(1,3)] by blast
  obtain buffered r b2 v2 where sub: "broker_subscribe world_rt ?f ?b' ?w = ((buffered, r), b2, v2)" by (metis prod.exhaust)
  have fails: "\<forall>x. send_envelope (se_codec example_env) (\<lambda>_ _. Inl UnexpectedEof) x () = None"
    by (auto simp: send_envelope_def async_write_frame_def Let_def split: sum.splits option.splits if_splits)
  note resumed = sqlite.subscribe_durable_eq [OF s'(2,1) pre(2) s'(3) sub]
  from durable_position_ahead_of_wire [OF world_queues example_env_healthy example_log_ok(1) pre recv fails resumed] recv resumed
  show ?thesis by blast
qed

text \<open>The position passes over messages with an older id. Ids carry the clock of the publisher; a message that is published after the subscriber left, with an id
  that is not after its position, is persisted and never handed out.\<close>

theorem durable_late_message_lost:
  assumes "healthy env" and "sqlite_ok (se_codec env) s" and "br_store b = Some s" and "as_topic f = Some t" and "sqlite_offs s (p, t) = Some l"
    and "env_id e \<le> l" and "env_id e \<notin> si_set (br_seen b)" and "storable (se_codec env) e" and "env_kind e = Publish t payload retain ct rp ir"
    and "broker_publish rt (sqlite_message_store env) t e b w = (n, b', w')"
    and "subscribe_durable rt (sqlite_message_store env) f p b' v = (Inr (backlog, r), b2, v2)"
  shows "\<exists>s'. br_store b' = Some s' \<and> e \<in> set (sqlite_log (se_codec env) s' t) \<and> env_id e \<notin> env_id ` set backlog"
proof -
  have ok: "healthy env \<and> sqlite_ok (se_codec env) s" using assms(1,2) by simp
  obtain s' k where s': "st_append (sqlite_message_store env) e s = (Returns (Inr ()), s')" "healthy env \<and> sqlite_ok (se_codec env) s'"
    "DEFAULT_PERSISTED_MESSAGES_PER_TOPIC \<le> k" "sqlite_log (se_codec env) s' t = last_n k (sqlite_log (se_codec env) s t @ [e])"
    "sqlite_offs s' = sqlite_offs s"
    using sqlite.append_law [OF ok assms(8,9)] by blast
  have "0 < k" using s'(3) by (simp add: DEFAULT_PERSISTED_MESSAGES_PER_TOPIC_def)
  then have "e \<in> set (sqlite_log (se_codec env) s' t)" by (simp add: s'(4) last_n_def)
  moreover have st: "br_store b' = Some s'" using publish_store [OF assms(7,10)] assms(3) s'(1) by simp
  moreover have "env_id e \<notin> env_id ` set backlog"
    by (rule sqlite.nothing_before_position [OF s'(2) st assms(4) _ assms(11,6)]) (simp add: s'(5) assms(5))
  ultimately show ?thesis by blast
qed

theorem durable_late_message_lost_witness:
  "\<exists>s n b' w' backlog r b2 v2. sqlite_offs s (PeerId [], Topic [97]) = Some (env_id (example_publish 2))
     \<and> broker_publish world_rt (sqlite_message_store example_env) (Topic [97]) (example_publish 1) (with_store s) world0 = (n, b', w')
     \<and> subscribe_durable world_rt (sqlite_message_store example_env) (TopicFilter [97]) (PeerId []) b' w' = (Inr (backlog, r), b2, v2)
     \<and> env_id (example_publish 1) \<notin> env_id ` set backlog"
proof -
  let ?ops = "sqlite_message_store example_env" and ?f = "TopicFilter [97]" and ?t = "Topic [97]" and ?e = "example_publish 1" and ?p = "PeerId []"
  have ok: "healthy example_env \<and> sqlite_ok (se_codec example_env) sqlite_empty" by (simp add: example_env_healthy sqlite_empty_ok)
  obtain s where s: "healthy example_env \<and> sqlite_ok (se_codec example_env) s" "sqlite_offs s (?p, ?t) = Some (env_id (example_publish 2))"
    using sqlite.offset_law [OF ok, of "env_id (example_publish 2)" ?p ?t] by (auto simp: example_publish_def)
  obtain n b' w' where pub: "broker_publish world_rt ?ops ?t ?e (with_store s) world0 = (n, b', w')" by (metis prod.exhaust)
  have pre: "br_store (with_store s) = Some s" "as_topic ?f = Some ?t" "env_id ?e \<le> env_id (example_publish 2)" "env_id ?e \<notin> si_set (br_seen (with_store s))"
    by (simp_all add: with_store_def is_literal_def wildcard_defs example_publish_def broker_default_def seen_new_def) code_simp
  have kind: "env_kind ?e = Publish ?t [1] False None None None" by (simp add: example_publish_def)
  obtain s' where s': "st_append ?ops ?e s = (Returns (Inr ()), s')" "healthy example_env \<and> sqlite_ok (se_codec example_env) s'" "sqlite_offs s' = sqlite_offs s"
    using sqlite.append_law [OF s(1) example_storable(1) kind] by blast
  have st: "br_store b' = Some s'" "sqlite_offs s' (?p, ?t) = Some (env_id (example_publish 2))"
    using publish_store [OF pre(4) pub] pre(1) s' s(2) by simp_all
  obtain buffered r b2 v2 where sub: "broker_subscribe world_rt ?f b' w' = ((buffered, r), b2, v2)" by (metis prod.exhaust)
  note resumed = sqlite.subscribe_durable_eq [OF s'(2) st(1) pre(2) st(2) sub]
  from durable_late_message_lost [OF example_env_healthy _ pre(1,2) s(2) pre(3,4) example_storable(1) kind pub resumed] s pub resumed
  show ?thesis by blast
qed

end
