(* ===== verification/Relay.thy ===== *)
theory Relay
  imports Mesh Durable
begin

text \<open>
  A message on its way from one node to the next (\<open>spawn_forwarder\<close>, \<open>write_loop\<close>, \<open>run_connection\<close> and \<open>handle_publish\<close> in
  crates/thoth-mesh-node/src/connection.rs, \<open>Broker::publish\<close>): the forwarder task of the link's subscription, the queue and the writer of the
  connection, the bytes, the read loop of the far node and its broker. The result composes the theories of these parts: what the task received is appended, in order, to the channels of the far node.
\<close>

section \<open>The sending node\<close>

text \<open>A task on the events it receives.\<close>

fun run_task ::
  "('w, 'z) runtime_scheme \<Rightarrow> 's message_store \<Rightarrow> nat \<Rightarrow> task_event list \<Rightarrow> 's node \<Rightarrow> 'w \<Rightarrow> ('s node \<times> 'w) outcome" where
  "run_task rt ops h [] n w = Returns (n, w)"
| "run_task rt ops h (ev # evs) n w =
     (case task_step rt ops ev h n w of Panics \<Rightarrow> Panics | Returns (n', w') \<Rightarrow> run_task rt ops h evs n' w')"

lemma run_task_forwards:
  assumes "queues_grow rt q" and "reliable rt" and "map_of (nd_tasks n) h = Some tk" and "tk_kind tk = TForward" and "tk_state tk = Running st"
  shows "\<exists>n' w'. run_task rt ops h (map (\<lambda>e. TaskReceives (RecvOk e)) es) n w = Returns (n', w')
    \<and> q w' (tk_tx tk) = q w (tk_tx tk) @ es \<and> nd_broker n' = nd_broker n"
  using assms(3-)
proof (induction es arbitrary: n w tk st)
  case (Cons e es)
  obtain rx ld where st: "st = (rx, ld)" by fastforce
  obtain w1 where snd: "rt_mpsc_send rt (tk_tx tk) e w = (True, w1)" using assms(2) unfolding reliable_def by (metis prod.collapse)
  have q1: "q w1 (tk_tx tk) = q w (tk_tx tk) @ [e]" using assms(1) snd unfolding queues_grow_def by (metis fun_upd_same snd_conv)
  let ?tk = "tk\<lparr>tk_state := Running (rx, Some (env_id e))\<rparr>"
  let ?n = "n\<lparr>nd_tasks := AList.update h ?tk (nd_tasks n)\<rparr>"
  have step: "task_step rt ops (TaskReceives (RecvOk e)) h n w = Returns (?n, w1)"
    using Cons.prems by (simp add: task_step_def task_run_def st snd)
  from Cons.IH [of ?n ?tk "(rx, Some (env_id e))" w1] Cons.prems obtain n' w' where
    "run_task rt ops h (map (\<lambda>e. TaskReceives (RecvOk e)) es) ?n w1 = Returns (n', w')" "q w' (tk_tx tk) = q w1 (tk_tx tk) @ es" "nd_broker n' = nd_broker n"
    by auto
  with step q1 show ?case by simp
qed simp

section \<open>The bytes between the nodes\<close>

text \<open>What the read loop of a connection gets from a stream: its frames, and then the failure to read another one.\<close>

function stream_events :: "u8 list \<Rightarrow> connection_event list" where
  "stream_events bs =
     (case async_read_frame slice_read bs of Inl err \<Rightarrow> [ReadFailed] | Inr (p, rest) \<Rightarrow> FrameRead p # stream_events rest)"
  by pat_completeness auto
termination by (relation "measure length") (auto intro: read_frame_shorter)

declare stream_events.simps [simp del]

lemma stream_of_frames:
  assumes "codec_round_trip c" and "\<forall>e \<in> set es. sendable c e"
  shows "\<exists>ps. stream_events (frames c es) = map FrameRead ps @ [ReadFailed] \<and> list_all2 (\<lambda>p e. from_bytes c p = Inr e) ps es"
  using assms(2)
proof (induction es)
  case Nil
  then show ?case by (simp add: stream_events.simps [of "[]"] async_read_frame_def slice_read_def)
next
  case (Cons e es)
  then obtain p where p: "read_frame slice_read (frame c e @ frames c es) = Inr (p, frames c es)" "from_bytes c p = Inr e"
    using read_frame_frame [OF assms(1), of e "frames c es"] by auto
  from Cons obtain ps where "stream_events (frames c es) = map FrameRead ps @ [ReadFailed]" "list_all2 (\<lambda>p e. from_bytes c p = Inr e) ps es" by auto
  with p show ?case by (intro exI [of _ "p # ps"]) (simp add: stream_events.simps [of "frame c e @ frames c es"] async_same)
qed

section \<open>The receiving node\<close>

text \<open>The message as the node handles it: with the sender that the connection authenticated.\<close>

abbreviation authenticated :: "('w, 'z) runtime_scheme \<Rightarrow> connection \<Rightarrow> envelope \<Rightarrow> envelope" where
  "authenticated rt cx e \<equiv> e\<lparr>env_sender := authenticated_sender rt cx (env_sender e)\<rparr>"

text \<open>Publishing one message after the other.\<close>

fun publish_run :: "('w, 'z) runtime_scheme \<Rightarrow> 's message_store \<Rightarrow> envelope list \<Rightarrow> 's broker \<Rightarrow> 'w \<Rightarrow> 's broker \<times> 'w" where
  "publish_run rt ops [] b w = (b, w)"
| "publish_run rt ops (e # es) b w =
     (case publish_topic e of
        None \<Rightarrow> publish_run rt ops es b w
      | Some t \<Rightarrow> (let (_, b', w') = broker_publish rt ops t e b w in publish_run rt ops es b' w'))"

text \<open>The list of the node lets a link bring messages on a topic.\<close>

definition may_bring :: "connection \<Rightarrow> topic \<Rightarrow> 's node \<Rightarrow> bool" where
  "may_bring cx t n \<longleftrightarrow> role_acl_permits (nd_topic_acl n) (nd_peer_topic_acl n) True (cx_principal cx) t APublish"

lemma peer_publish_step:
  assumes "is_peer cx" and "from_bytes c p = Inr e" and "publish_topic e = Some t" and "may_bring cx t n"
    and "broker_publish rt ops t (authenticated rt cx e) (nd_broker n) w = (k, b, w')"
  shows "connection_event_step rt ops rnd c (FrameRead p) cx n w = Returns (True, cx, n\<lparr>nd_broker := b\<rparr>, w')"
  using assms by (auto simp: publish_topic_def may_bring_def dispatch_def handle_publish_def limiter_allows_def Let_def split: message_kind.splits)

lemma run_peer_publishes:
  assumes "is_peer cx" and "list_all2 (\<lambda>p e. from_bytes c p = Inr e) ps es" and "\<forall>e \<in> set es. \<exists>t. publish_topic e = Some t \<and> may_bring cx t n"
    and "publish_run rt ops (map (authenticated rt cx) es) (nd_broker n) w = (b, w')"
  shows "run_events rt ops rnd c (map FrameRead ps @ [ReadFailed]) cx n w = Returns (False, cx, n\<lparr>nd_broker := b\<rparr>, w')"
  using assms(2-)
proof (induction arbitrary: n w rule: list_all2_induct)
  case (Cons p ps e es)
  then obtain t where t: "publish_topic e = Some t" "may_bring cx t n" by auto
  obtain k b1 w1 where pub: "broker_publish rt ops t (authenticated rt cx e) (nd_broker n) w = (k, b1, w1)" by (metis prod_cases3)
  have t': "publish_topic (authenticated rt cx e) = Some t" using t(1) by (simp add: publish_topic_def)
  note step = peer_publish_step [OF assms(1) Cons.hyps(1) t pub, of rnd]
  have "run_events rt ops rnd c (map FrameRead ps @ [ReadFailed]) cx (n\<lparr>nd_broker := b1\<rparr>) w1
      = Returns (False, cx, n\<lparr>nd_broker := b1\<rparr>\<lparr>nd_broker := b\<rparr>, w')"
    using Cons.prems t' pub by (intro Cons.IH) (auto simp: may_bring_def)
  with step show ?case by (simp del: connection_event_step.simps)
qed simp

text \<open>The replay buffers of topics and patterns.\<close>

definition topic_buffer :: "topic \<Rightarrow> 's broker \<Rightarrow> envelope list" where
  "topic_buffer t b = (case channel_at t (br_topics b) (br_channels b) of None \<Rightarrow> [] | Some ch \<Rightarrow> tc_buffer ch)"

definition pattern_buffer :: "topic_filter \<Rightarrow> 's broker \<Rightarrow> envelope list option" where
  "pattern_buffer f b = map_option tc_buffer (channel_at f (br_patterns b) (br_channels b))"

abbreviation window :: "envelope list \<Rightarrow> envelope list" where
  "window es \<equiv> last_n DEFAULT_REPLAY_BUFFER_CAPACITY es"

lemma push_buffer_window: "length buf \<le> DEFAULT_REPLAY_BUFFER_CAPACITY \<Longrightarrow> push_buffer e buf = window (buf @ [e])"
  by (cases "length buf = DEFAULT_REPLAY_BUFFER_CAPACITY") (simp_all add: push_buffer_def last_n_def Let_def drop_Suc del: drop_append)

lemma window_window: "window (window es @ es') = window (es @ es')"
  by (simp add: last_n_snoc_last_n)

lemma channel_in_heap:
  assumes "broker_ok b"
  shows "channel_at t (br_topics b) (br_channels b) = Some ch \<Longrightarrow> length (tc_buffer ch) \<le> DEFAULT_REPLAY_BUFFER_CAPACITY"
    and "channel_at f (br_patterns b) (br_channels b) = Some ch \<Longrightarrow> length (tc_buffer ch) \<le> DEFAULT_REPLAY_BUFFER_CAPACITY"
  using assms by (auto simp: channel_at_def broker_ok_def tm_ok_def heap_ok_def)

lemma topic_buffer_short: "broker_ok b \<Longrightarrow> length (topic_buffer t b) \<le> DEFAULT_REPLAY_BUFFER_CAPACITY"
  by (auto simp: topic_buffer_def dest: channel_in_heap(1) split: option.split)

lemma channel_at_keys: "channel_at k tm h = None \<longleftrightarrow> k \<notin> keys (tm_map tm)"
  by (simp add: channel_at_def map_of_None_keys)

lemma publish_buffers:
  assumes "broker_ok b" and "env_id e \<notin> si_set (br_seen b)" and "broker_publish rt ops t e b w = (n, b', w')" and "has_room t b"
  shows "broker_ok b'" and "keys (tm_map (br_topics b')) = insert t (keys (tm_map (br_topics b)))"
    and "si_set (br_seen b') \<subseteq> insert (env_id e) (si_set (br_seen b))"
    and "topic_buffer u b' = (if u = t then window (topic_buffer u b @ [e]) else topic_buffer u b)"
    and "pattern_buffer f b' = map_option (\<lambda>buf. if filter_matches f t then window (buf @ [e]) else buf) (pattern_buffer f b)"
proof -
  from publish_channels [OF assms(1-3)] assms(4) obtain ch where
    own: "channel_at t (br_topics b') (br_channels b') = Some ch" "tc_buffer ch = push_buffer e (topic_buffer t b)"
    and other: "\<And>u. u \<noteq> t \<Longrightarrow> channel_at u (br_topics b') (br_channels b') = channel_at u (br_topics b) (br_channels b)"
    and pats: "\<And>f. channel_at f (br_patterns b') (br_channels b') =
      map_option (\<lambda>c. if filter_matches f t then channel_store e False c else c) (channel_at f (br_patterns b) (br_channels b))"
    by (auto simp: has_room_def topic_buffer_def)
  show "broker_ok b'" using broker_publish_ok [OF assms(1), of rt ops t e w] assms(3) by simp
  show "keys (tm_map (br_topics b')) = insert t (keys (tm_map (br_topics b)))"
  proof (intro set_eqI)
    fix u
    show "(u \<in> keys (tm_map (br_topics b'))) = (u \<in> insert t (keys (tm_map (br_topics b))))"
      using own(1) other [of u] channel_at_keys [of u "br_topics b'" "br_channels b'"] channel_at_keys [of u "br_topics b" "br_channels b"]
      by (cases "u = t") auto
  qed
  show "si_set (br_seen b') \<subseteq> insert (env_id e) (si_set (br_seen b))"
    using broker_publish_seen [OF assms(3)] by (auto simp: seen_record_def split: if_splits prod.splits option.splits)
  show "topic_buffer u b' = (if u = t then window (topic_buffer u b @ [e]) else topic_buffer u b)"
    using own other push_buffer_window [OF topic_buffer_short [OF assms(1)]] by (simp add: topic_buffer_def [of _ b'] topic_buffer_def [of u b])
  show "pattern_buffer f b' = map_option (\<lambda>buf. if filter_matches f t then window (buf @ [e]) else buf) (pattern_buffer f b)"
    using channel_in_heap(2) [OF assms(1), of f] push_buffer_window
    by (cases "channel_at f (br_patterns b) (br_channels b)") (simp_all add: pattern_buffer_def pats channel_store_def)
qed

text \<open>The registry holds the topics of all the messages or has room for them.\<close>

definition all_fit :: "envelope list \<Rightarrow> 's broker \<Rightarrow> bool" where
  "all_fit es b \<longleftrightarrow> card (keys (tm_map (br_topics b)) \<union> set (List.map_filter publish_topic es)) \<le> DEFAULT_TOPIC_MAP_CAPACITY"

lemma all_fit_room:
  assumes "broker_ok b" and "all_fit (e # es) b" and "publish_topic e = Some t"
  shows "has_room t b"
proof (cases "t \<in> keys (tm_map (br_topics b))")
  case False
  let ?K = "keys (tm_map (br_topics b))"
  have fin: "finite (?K \<union> set (List.map_filter publish_topic (e # es)))" by (simp add: keys_def)
  have "?K \<subset> ?K \<union> set (List.map_filter publish_topic (e # es))" using False assms(3) by (auto simp: List.map_filter_simps)
  from psubset_card_mono [OF fin this] have "card ?K < DEFAULT_TOPIC_MAP_CAPACITY" using assms(2) by (simp add: all_fit_def)
  then show ?thesis using assms(1) card_keys [of "tm_map (br_topics b)"] by (simp add: has_room_def broker_ok_def tm_ok_def)
qed (simp add: has_room_def)

lemma publish_run_buffers:
  assumes "broker_ok b" and "all_fit es b" and "distinct (map env_id es)" and "env_id ` set es \<inter> si_set (br_seen b) = {}"
    and "\<forall>e \<in> set es. is_publish e" and "publish_run rt ops es b w = (b', w')"
  shows "broker_ok b' \<and> (\<forall>t. topic_buffer t b' = window (topic_buffer t b @ filter (\<lambda>e. publish_topic e = Some t) es))
    \<and> (\<forall>f. pattern_buffer f b' = map_option (\<lambda>buf. window (buf @ filter (\<lambda>e. \<exists>t. publish_topic e = Some t \<and> filter_matches f t) es)) (pattern_buffer f b))"
  using assms
proof (induction es arbitrary: b w)
  case Nil
  have "window buf = buf" if "pattern_buffer f b = Some buf" for f buf
    using that channel_in_heap(2) [OF Nil.prems(1)] by (auto simp: pattern_buffer_def last_n_short)
  then have "map_option window (pattern_buffer f b) = pattern_buffer f b" for f by (cases "pattern_buffer f b") simp_all
  with Nil show ?case by (auto simp: last_n_short topic_buffer_short)
next
  case (Cons e es)
  then obtain t where t: "publish_topic e = Some t" by (auto simp: is_publish_def publish_topic_def split: message_kind.splits)
  obtain n b1 w1 where pub: "broker_publish rt ops t e b w = (n, b1, w1)" by (metis prod_cases3)
  have fresh: "env_id e \<notin> si_set (br_seen b)" using Cons.prems(4) by auto
  note one = publish_buffers [OF Cons.prems(1) fresh pub all_fit_room [OF Cons.prems(1,2) t]]
  have "all_fit es b1" using Cons.prems(2) t by (simp add: all_fit_def one(2) List.map_filter_simps)
  moreover have "env_id ` set es \<inter> si_set (br_seen b1) = {}"
  proof -
    have "env_id ` set es \<inter> insert (env_id e) (si_set (br_seen b)) = {}" using Cons.prems(3,4) by (simp add: Int_insert_right)
    then show ?thesis using Int_mono [OF order_refl one(3), of "env_id ` set es"] by (simp only: subset_empty)
  qed
  moreover have "publish_run rt ops es b1 w1 = (b', w')" using Cons.prems(6) t pub by simp
  ultimately have IH: "broker_ok b'" "\<And>u. topic_buffer u b' = window (topic_buffer u b1 @ filter (\<lambda>e. publish_topic e = Some u) es)"
    "\<And>f. pattern_buffer f b' = map_option (\<lambda>buf. window (buf @ filter (\<lambda>e. \<exists>t. publish_topic e = Some t \<and> filter_matches f t) es)) (pattern_buffer f b1)"
    using Cons.IH [OF one(1), of w1] Cons.prems(3,5) by auto
  have "topic_buffer u b' = window (topic_buffer u b @ filter (\<lambda>e. publish_topic e = Some u) (e # es))" for u
    by (simp add: IH(2) one(4) t window_window)
  moreover have "pattern_buffer f b' = map_option (\<lambda>buf. window (buf @ filter (\<lambda>e. \<exists>t. publish_topic e = Some t \<and> filter_matches f t) (e # es))) (pattern_buffer f b)" for f
    by (simp add: IH(3) one(5) t option.map_comp window_window comp_def)
  ultimately show ?case using IH(1) by blast
qed

section \<open>Properties\<close>

lemma authenticated_topic [simp]: "publish_topic (authenticated rt cx e) = publish_topic e"
  by (simp add: publish_topic_def)

lemma authenticated_run:
  assumes "is_peer cx" and "broker_ok (nd_broker m)" and "all_fit es (nd_broker m)" and "distinct (map env_id es)"
    and "env_id ` set es \<inter> si_set (br_seen (nd_broker m)) = {}"
    and "list_all2 (\<lambda>p e. from_bytes c p = Inr e) ps es" and "\<forall>e \<in> set es. \<exists>t. publish_topic e = Some t \<and> may_bring cx t m"
  shows "\<exists>m' v'. run_events rt ops rnd c (map FrameRead ps @ [ReadFailed]) cx m v = Returns (False, cx, m', v')
    \<and> (\<forall>t. topic_buffer t (nd_broker m') = window (topic_buffer t (nd_broker m) @ map (authenticated rt cx) (filter (\<lambda>e. publish_topic e = Some t) es)))
    \<and> (\<forall>f. pattern_buffer f (nd_broker m') = map_option (\<lambda>buf. window (buf @
         map (authenticated rt cx) (filter (\<lambda>e. \<exists>t. publish_topic e = Some t \<and> filter_matches f t) es))) (pattern_buffer f (nd_broker m)))"
proof -
  let ?es = "map (authenticated rt cx) es"
  obtain b v' where run: "publish_run rt ops ?es (nd_broker m) v = (b, v')" by fastforce
  have "all_fit ?es (nd_broker m)" using assms(3) by (simp add: all_fit_def List.map_filter_def filter_map comp_def)
  moreover have "distinct (map env_id ?es)" "env_id ` set ?es \<inter> si_set (br_seen (nd_broker m)) = {}"
    using assms(4,5) by (simp_all add: comp_def image_image)
  moreover have "\<forall>e \<in> set ?es. is_publish e"
    using assms(7) by (auto simp: is_publish_def publish_topic_def split: message_kind.splits)
  ultimately have "(\<forall>t. topic_buffer t b = window (topic_buffer t (nd_broker m) @ filter (\<lambda>e. publish_topic e = Some t) ?es))
    \<and> (\<forall>f. pattern_buffer f b = map_option (\<lambda>buf. window (buf @ filter (\<lambda>e. \<exists>t. publish_topic e = Some t \<and> filter_matches f t) ?es))
         (pattern_buffer f (nd_broker m)))"
    using publish_run_buffers [OF assms(2) _ _ _ _ run] by blast
  then show ?thesis
    using run_peer_publishes [OF assms(1,6,7) run, of rnd] by (simp add: filter_map comp_def)
qed


text \<open>A link from a peer without a certificate.\<close>

definition example_link :: connection where
  "example_link = (fst (connect None 5 6 example_node))\<lparr>cx_peer_identity := Some (PeerId [2])\<rparr>"

definition example_forwarder :: task where
  "example_forwarder = \<lparr>tk_kind = TForward, tk_filter = TopicFilter [97], tk_tx = 9, tk_state = Running (0, None), tk_acks = []\<rparr>"


section \<open>The publisher of a relayed message\<close>

text \<open>Over a link with certificates the publisher of a message is replaced. The node authenticates every frame as coming from the link's certificate, so that
  a message that a neighbour relays for one of its clients is published here under the identity of the neighbour.\<close>

theorem relay_replaces_publisher:
  assumes "is_peer cx" and "cx_peer_fingerprint cx = Some fp" and "from_bytes c p = Inr e" and "publish_topic e = Some t" and "may_bring cx t m"
    and "broker_ok (nd_broker m)" and "env_id e \<notin> si_set (br_seen (nd_broker m))" and "has_room t (nd_broker m)"
    and "env_sender e \<noteq> peer_id_from_fingerprint rt fp"
  shows "\<exists>m' v'. connection_event_step rt ops rnd c (FrameRead p) cx m v = Returns (True, cx, m', v')
    \<and> last (topic_buffer t (nd_broker m')) = e\<lparr>env_sender := peer_id_from_fingerprint rt fp\<rparr>
    \<and> env_sender (last (topic_buffer t (nd_broker m'))) \<noteq> env_sender e"
proof -
  let ?e = "authenticated rt cx e"
  have e: "?e = e\<lparr>env_sender := peer_id_from_fingerprint rt fp\<rparr>" using assms(2) by (simp add: authenticated_sender_def)
  obtain k b v' where pub: "broker_publish rt ops t ?e (nd_broker m) v = (k, b, v')" by (metis prod_cases3)
  have "topic_buffer t b = window (topic_buffer t (nd_broker m) @ [?e])"
    using publish_buffers(4) [OF assms(6) _ pub assms(8), of t] assms(7) by simp
  moreover have "last (window (es @ [x])) = x" for es x by (simp add: last_n_def DEFAULT_REPLAY_BUFFER_CAPACITY_def)
  ultimately have "last (topic_buffer t b) = ?e" by simp
  then show ?thesis using peer_publish_step [OF assms(1,3-5) pub, of rnd] assms(9) unfolding e by (simp del: connection_event_step.simps)
qed

theorem relay_replaces_publisher_witness:
  "\<exists>m' v'. connection_event_step world_rt (sqlite_message_store example_env) id (pair_codec (example_publish 1) (example_publish 1)) (FrameRead [0])
       (example_link\<lparr>cx_peer_fingerprint := Some (replicate 32 7)\<rparr>) example_node world0
         = Returns (True, example_link\<lparr>cx_peer_fingerprint := Some (replicate 32 7)\<rparr>, m', v')
     \<and> env_sender (last (topic_buffer (Topic [97]) (nd_broker m'))) \<noteq> PeerId []"
proof -
  let ?e = "example_publish 1" and ?cx = "example_link\<lparr>cx_peer_fingerprint := Some (replicate 32 7)\<rparr>"
  have pre: "is_peer ?cx" "cx_peer_fingerprint ?cx = Some (replicate 32 7)" "from_bytes (pair_codec ?e ?e) [0] = Inr ?e" "publish_topic ?e = Some (Topic [97])"
    by (simp_all add: example_link_def is_peer_def from_bytes_def pair_codec_def publish_topic_def example_publish_def)
  have node: "may_bring ?cx (Topic [97]) example_node" "broker_ok (nd_broker example_node)" "env_id ?e \<notin> si_set (br_seen (nd_broker example_node))"
    "has_room (Topic [97]) (nd_broker example_node)"
    by (simp_all add: may_bring_def role_acl_permits_def topic_acl_permits_def example_node_def node_new_def broker_new_def broker_default_ok)
      (simp_all add: has_room_def broker_default_def topic_map_empty_def seen_new_def DEFAULT_TOPIC_MAP_CAPACITY_def)
  have ne: "env_sender ?e \<noteq> peer_id_from_fingerprint world_rt (replicate 32 7)" by code_simp
  have "env_sender ?e = PeerId []" by (simp add: example_publish_def)
  with relay_replaces_publisher [OF pre node ne, of "sqlite_message_store example_env" id world0] show ?thesis
    by (auto simp del: connection_event_step.simps)
qed

end
