(* ===== verification/Link_Runs.thy ===== *)
theory Link_Runs
  imports Mesh
begin

text \<open>
  The links of a node against its connections (crates/thoth-mesh-node/src/connection.rs, peer_links.rs): every registration is held by an open
  connection, and a connection that ends takes its registration with it. The invariant is shown over every run of the node, so that interest
  and gossip are broadcast to exactly the connections that are open as links.
\<close>

section \<open>Links and contexts\<close>

definition holds :: "connection \<Rightarrow> peer_id \<Rightarrow> sender \<Rightarrow> nat" where
  "holds cx p x = (if cx_link cx = Some p \<and> cx_outgoing_tx cx = x then 1 else 0)"

definition held :: "(u64 \<rightharpoonup> connection) \<Rightarrow> peer_id \<Rightarrow> sender \<Rightarrow> u64 set" where
  "held cs p x = {i. \<exists>cx. cs i = Some cx \<and> cx_link cx = Some p \<and> cx_outgoing_tx cx = x}"

definition links_held :: "(u64 \<rightharpoonup> connection) \<Rightarrow> 's node \<Rightarrow> bool" where
  "links_held cs n \<longleftrightarrow> links_ok (nd_peer_links n) \<and> (\<forall>p x. link_count p x (nd_peer_links n) = card (held cs p x))"

lemma finite_held: "finite (dom cs) \<Longrightarrow> finite (held cs p x)"
  by (rule finite_subset [of _ "dom cs"]) (auto simp: held_def)

lemma card_held_update:
  assumes "finite (dom cs)"
  shows "card (held (cs(i := y)) p x) + (case cs i of None \<Rightarrow> 0 | Some cx \<Rightarrow> holds cx p x)
    = card (held cs p x) + (case y of None \<Rightarrow> 0 | Some cx \<Rightarrow> holds cx p x)"
proof -
  define u where "u z = (case z of None \<Rightarrow> 0 | Some cx \<Rightarrow> holds cx p x)" for z
  have u: "u z = 0 \<or> u z = 1" for z by (simp add: u_def holds_def split: option.split)
  have old: "i \<in> held cs p x \<longleftrightarrow> u (cs i) = 1" by (auto simp: held_def holds_def u_def split: option.splits)
  have new: "held (cs(i := y)) p x = (if u y = 1 then insert i (held cs p x - {i}) else held cs p x - {i})"
    by (auto simp: held_def holds_def u_def split: option.splits if_splits)
  have "card (held cs p x) = card (held cs p x - {i}) + u (cs i)"
    using card.remove [OF finite_held [OF assms], of i p x] old u [of "cs i"] by auto
  moreover have "card (held (cs(i := y)) p x) = card (held cs p x - {i}) + u y"
    using finite_held [OF assms, of p x] u [of y] by (auto simp: new card.insert_remove)
  ultimately show ?thesis by (simp flip: u_def)
qed

lemma held_ge: "finite (dom cs) \<Longrightarrow> cs i = Some cx \<Longrightarrow> holds cx p x \<le> card (held cs p x)"
  using card_held_update [of cs i None p x] by simp

section \<open>What a step does to them\<close>

text \<open>A connection moves its link: the registry changes by the registration it gave up and the one it took.\<close>

definition moves_link :: "connection \<Rightarrow> 's node \<Rightarrow> connection \<Rightarrow> 's node \<Rightarrow> bool" where
  "moves_link cx n cx' n' \<longleftrightarrow> (links_ok (nd_peer_links n) \<longrightarrow> links_ok (nd_peer_links n'))
     \<and> (\<forall>p x. link_count p x (nd_peer_links n') + holds cx p x = link_count p x (nd_peer_links n) + holds cx' p x)"

lemma moves_link_refl: "nd_peer_links n' = nd_peer_links n \<Longrightarrow> moves_link cx n cx n'"
  by (simp add: moves_link_def)

lemma hold_link_moves:
  assumes "\<forall>p x. holds cx p x \<le> link_count p x (nd_peer_links n)" and "hold_link rt p addr cx n w = (cx', n', w')"
  shows "moves_link cx n cx' n'"
proof -
  let ?tx = "cx_outgoing_tx cx"
  let ?L = "links_register p ?tx (cx_principal cx) (cx_disconnect cx) (nd_peer_links n)"
  have cx': "cx' = cx\<lparr>cx_link := Some p\<rparr>" using assms(2) by (auto simp: hold_link_def Let_def split: prod.splits)
  have n': "nd_peer_links n' = (case cx_link cx of None \<Rightarrow> ?L | Some old \<Rightarrow> links_unregister old ?tx ?L)"
    using assms(2) by (auto simp: hold_link_def register_peer_link_def Let_def split: prod.splits option.splits if_splits)
  show ?thesis unfolding moves_link_def
  proof (intro conjI allI impI)
    show "links_ok (nd_peer_links n')" if "links_ok (nd_peer_links n)"
      using that by (simp add: n' links_ok_register links_ok_unregister split: option.split)
    fix q x
    show "link_count q x (nd_peer_links n') + holds cx q x = link_count q x (nd_peer_links n) + holds cx' q x"
      using assms(1) [rule_format, of q x]
      by (cases "cx_link cx") (auto simp: n' cx' holds_def link_count_register link_count_unregister)
  qed
qed

lemma links_set_is_peer [simp]: "nd_peer_links (set_is_peer i n) = nd_peer_links n"
  by (simp add: set_is_peer_def split: option.split)

lemma telling_links: "telling n = telling n' \<Longrightarrow> nd_peer_links n = nd_peer_links n'"
  by (simp add: telling_def)

lemma subscribe_links:
  assumes "handle_subscribe rt cx e f ack grp durable n w = Returns (ok, n', w')"
  shows "nd_peer_links n' = nd_peer_links n"
proof -
  have refuse: "nd_peer_links n2 = nd_peer_links n1" if "subscribe_refuse rt cx e f n1 w = (ok, n2, w')" for n1 n2
    using that by (auto simp: subscribe_refuse_def count_acl_rejection_def Let_def split: prod.splits)
  have commit: "nd_peer_links n2 = nd_peer_links n1" if "subscribe_commit rt cx e f new n1 w = (ok, n2, w')" for new n1 n2
    using that by (auto simp: subscribe_commit_def Let_def split: prod.splits if_splits)
  have settle: "nd_peer_links n2 = nd_peer_links n1" if "subscribe_settle rt cx e f new n1 w = (ok, n2, w')" for new n1 n2
    using that commit [of new n1 n2] refuse [of _ n2] telling_links [OF telling_fields(4) [of cx f n1]] by (auto simp: subscribe_settle_def split: if_splits)
  consider "n' = n" | "subscribe_refuse rt cx e f n w = (ok, n', w')"
    | new n1 where "subscribe_insert cx f ack grp durable (env_sender e) n = Returns (new, n1)" "subscribe_settle rt cx e f new n1 w = (ok, n', w')"
    using assms by (auto simp: handle_subscribe_def Let_def split: option.splits if_splits outcome.splits prod.splits)
  then show ?thesis
  proof cases
    case (3 new n1)
    then show ?thesis using settle [OF 3(2)] telling_links [OF telling_insert [OF 3(1)]] by simp
  qed (simp_all add: refuse)
qed

lemma unsubscribe_links: "handle_unsubscribe rt cx e f n w = (ok, n', w') \<Longrightarrow> nd_peer_links n' = nd_peer_links n"
  using telling_fields(4) [of cx f n] by (auto simp: handle_unsubscribe_def telling_def Let_def split: prod.splits if_splits)

lemma publish_links: "handle_publish rt ops rnd cx e n w = Returns (ok, n', w') \<Longrightarrow> nd_peer_links n' = nd_peer_links n"
  by (auto simp: handle_publish_def limiter_allows_def count_acl_rejection_def Let_def split: message_kind.splits prod.splits if_splits option.splits)

lemma ack_links: "nd_peer_links (handle_ack cx i n) = nd_peer_links n"
proof -
  have "nd_peer_links (ack_subscriptions i subs n) = nd_peer_links n" for subs
    by (induction i subs n rule: ack_subscriptions.induct) (auto simp: push_ack_def split: option.splits)
  then show ?thesis by (simp add: handle_ack_def)
qed

lemma learn_links: "learn_peers rt peers n w = (n', w') \<Longrightarrow> nd_peer_links n' = nd_peer_links n"
proof -
  have "nd_peer_links (snd (learn_loop ps n)) = nd_peer_links n" for ps n by (induction ps arbitrary: n) (simp_all add: Let_def case_prod_beta)
  from this [of peers n] show "learn_peers rt peers n w = (n', w') \<Longrightarrow> nd_peer_links n' = nd_peer_links n"
    by (auto simp: learn_peers_def split: prod.splits if_splits)
qed

lemma holds_peer [simp]: "holds (cx\<lparr>cx_peer_identity := q\<rparr>) = holds cx"
  by (simp add: holds_def fun_eq_iff)

lemma hold_link_moves_from:
  assumes "\<forall>p x. holds cx p x \<le> link_count p x (nd_peer_links n)" and "hold_link rt p addr (cx\<lparr>cx_peer_identity := q\<rparr>) n1 w = (cx', n', w')"
    and "nd_peer_links n1 = nd_peer_links n"
  shows "moves_link cx n cx' n'"
  using hold_link_moves [OF _ assms(2)] assms(1,3) by (simp add: moves_link_def)

lemma admit_moves:
  assumes "\<forall>p x. holds cx p x \<le> link_count p x (nd_peer_links n)" and "admit_initial_peer rt info cx n w = (ok, cx', n', w')"
  shows "moves_link cx n cx' n'"
  using assms(2) by (auto simp: admit_initial_peer_def Let_def intro: moves_link_refl hold_link_moves_from [OF assms(1)] split: if_splits prod.splits)

lemma hello_moves:
  assumes "\<forall>p x. holds cx p x \<le> link_count p x (nd_peer_links n)" and "handle_hello rt e addr cx n w = (ok, cx', n', w')"
  shows "moves_link cx n cx' n'"
proof -
  consider "cx' = cx" "n' = n" | q where "cx' = cx\<lparr>cx_peer_identity := q\<rparr>" "nd_peer_links n' = nd_peer_links n"
    | q p n1 v where "hold_link rt p addr (cx\<lparr>cx_peer_identity := q\<rparr>) n1 v = (cx', n', w')" "nd_peer_links n1 = nd_peer_links n"
    using assms(2) by (auto simp: handle_hello_def Let_def split: if_splits prod.splits)
  then show ?thesis
  proof cases
    case 2
    then show ?thesis by (simp add: moves_link_def)
  qed (auto intro: moves_link_refl hold_link_moves_from [OF assms(1)])
qed

lemma event_moves:
  assumes "\<forall>p x. holds cx p x \<le> link_count p x (nd_peer_links n)" and "connection_event_step rt ops rnd c ev cx n w = Returns (go, cx', n', w')"
  shows "moves_link cx n cx' n'"
proof -
  have disp: "moves_link cx n cx' n'" if "dispatch rt ops rnd e cx n w = Returns (go, cx', n', w')" for e
    using that by (cases "env_kind e") (auto simp: dispatch_def ack_links
        dest!: subscribe_links unsubscribe_links publish_links learn_links
        intro: moves_link_refl hello_moves [OF assms(1)] split: outcome.splits prod.splits)
  show ?thesis
  proof (cases ev)
    case (FrameRead bs)
    then show ?thesis using assms(2) disp by (auto intro: moves_link_refl split: sum.splits)
  qed (use assms(2) in \<open>auto intro: moves_link_refl split: prod.splits\<close>)
qed

lemma connection_end_links:
  assumes "connection_end rt cx n w = (n', w')"
  shows "nd_peer_links n' = (case cx_link cx of None \<Rightarrow> nd_peer_links n | Some p \<Rightarrow> links_unregister p (cx_outgoing_tx cx) (nd_peer_links n))"
proof -
  let ?s = "stop_all rt (cx_outgoing_tx cx) (forwarders_of (cx_id cx) n) (set_forwarders (cx_id cx) [] n) w"
  have "nd_peer_links (fst ?s) = nd_peer_links n" by (simp add: stop_all_links)
  then show ?thesis using assms
    by (auto simp: connection_end_def shut_down_def drop_context_def registry_unregister_def Let_def case_prod_beta split: option.splits)
qed

lemma connection_end_moves:
  assumes "connection_end rt cx n w = (n', w')"
  shows "link_count p x (nd_peer_links n') = link_count p x (nd_peer_links n) - holds cx p x"
  by (cases "cx_link cx") (auto simp: connection_end_links [OF assms] holds_def link_count_unregister)

lemma reload_links: "apply_reload rt a n w = (n', w') \<Longrightarrow> nd_peer_links n' = nd_peer_links n"
  using reconcile_links_frame [of rt "map fst (nd_connections n)" "install_acls a n" w]
  by (auto simp: apply_reload_def reconcile_topic_acls_def install_acls_def Let_def split: prod.splits)

lemma task_links: "task_step rt ops ev h n w = Returns (n', w') \<Longrightarrow> nd_peer_links n' = nd_peer_links n"
  by (auto simp: task_step_def split: option.splits outcome.splits)

section \<open>Runs\<close>

lemma contexts_finite: "contexts_ok cs n \<Longrightarrow> finite (dom cs)"
proof -
  assume "contexts_ok cs n"
  then have "dom cs \<subseteq> fst ` set (nd_connections n)"
    using shape_registered [of n] by (fastforce simp: contexts_ok_def map_of_eq_None_iff)
  then show "finite (dom cs)" by (rule finite_subset) simp
qed

lemma links_held_move:
  assumes "contexts_ok cs n" and "links_held cs n" and "cs i = Some cx" and "moves_link cx n cx' n'"
  shows "links_held (cs(i \<mapsto> cx')) n'"
  unfolding links_held_def
proof (intro conjI allI)
  show "links_ok (nd_peer_links n')" using assms(2,4) by (simp add: links_held_def moves_link_def)
  fix p x
  show "link_count p x (nd_peer_links n') = card (held (cs(i \<mapsto> cx')) p x)"
    using card_held_update [OF contexts_finite [OF assms(1)], of i "Some cx'" p x] assms(2-4)
    unfolding moves_link_def links_held_def by (metis (no_types, lifting) add_right_cancel option.simps(5))
qed

lemma links_held_end:
  assumes "contexts_ok cs n" and "links_held cs n" and "cs i = Some cx" and "connection_end rt cx n w = (n', w')"
  shows "links_held (cs(i := None)) n'"
  unfolding links_held_def
proof (intro conjI allI)
  show "links_ok (nd_peer_links n')"
    using assms(2) by (simp add: links_held_def connection_end_links [OF assms(4)] links_ok_unregister split: option.split)
  fix p x
  show "link_count p x (nd_peer_links n') = card (held (cs(i := None)) p x)"
    using card_held_update [OF contexts_finite [OF assms(1)], of i None p x] assms(2,3) connection_end_moves [OF assms(4), of p x]
    by (simp add: links_held_def)
qed

definition links_ok_run :: "('s, 'w) run_state \<Rightarrow> bool" where
  "links_ok_run = (\<lambda>(cs, n, w). run_ok (cs, n, w) \<and> links_held cs n)"

lemma links_held_same: "links_held cs n \<Longrightarrow> nd_peer_links n' = nd_peer_links n \<Longrightarrow> links_held cs n'"
  by (simp add: links_held_def)

lemma held_ge_count:
  "contexts_ok cs n \<Longrightarrow> links_held cs n \<Longrightarrow> cs i = Some cx \<Longrightarrow> \<forall>p x. holds cx p x \<le> link_count p x (nd_peer_links n)"
  using contexts_finite held_ge by (fastforce simp: links_held_def)

lemma connect_links:
  assumes "connect fp tx d n = (cx, n')" and "map_of (nd_connections n) (nd_next_id n) = None" and "contexts_ok cs n" and "links_held cs n"
  shows "links_held (cs(cx_id cx \<mapsto> cx)) n'" "contexts_ok (cs(cx_id cx \<mapsto> cx)) n'" "cx_link cx = None" "cs (cx_id cx) = None"
proof -
  note c = connect_effect [OF assms(1,2)]
  show l: "cx_link cx = None" using assms(1) by (auto simp: connect_def Let_def split: prod.splits)
  have "shape n (cx_id cx) = None" using c assms(2) by (simp add: shape_def)
  then show i: "cs (cx_id cx) = None" using assms(3) by (simp add: contexts_ok_def)
  show "contexts_ok (cs(cx_id cx \<mapsto> cx)) n'" using c by (intro contexts_ok_update [OF assms(3)]) simp_all
  have "nd_peer_links n' = nd_peer_links n" using assms(1) by (auto simp: connect_def registry_register_def Let_def)
  moreover have "held (cs(cx_id cx \<mapsto> cx)) p x = held cs p x" for p x using i l by (auto simp: held_def)
  ultimately show "links_held (cs(cx_id cx \<mapsto> cx)) n'" using assms(4) by (simp add: links_held_def)
qed

lemma links_step:
  assumes "node_step rt ops rnd c s s'" and "links_ok_run s"
  shows "links_ok_run s'"
proof -
  have run: "run_ok s'" using node_step_ok [OF assms(1)] assms(2) by (auto simp: links_ok_run_def split: prod.splits)
  have "links_held (fst s') (fst (snd s'))"
    using assms
  proof cases
    case (accepted fp tx d n cx n' cs w)
    then show ?thesis using assms(2) connect_links(1) by (auto simp: links_ok_run_def run_ok_def)
  next
    case (dialled fp tx d n cx n1 info w cx' n' w' cs)
    then have ok: "contexts_ok cs n" "links_held cs n" using assms(2) by (auto simp: links_ok_run_def run_ok_def)
    note c = connect_links [OF dialled(3,4) ok]
    have "cx_id cx' = cx_id cx" using admit_initial_peer_effect [OF dialled(5)] by auto
    moreover have "moves_link cx n1 cx' n'"
      by (rule admit_moves [OF _ dialled(5)]) (simp add: holds_def c(3))
    ultimately show ?thesis using links_held_move [OF c(2,1), of "cx_id cx" cx cx' n'] dialled(2) by simp
  next
    case (refused fp tx d n cx n1 info w cx' n2 w' cs)
    then have ok: "contexts_ok cs n" "links_held cs n" using assms(2) by (auto simp: links_ok_run_def run_ok_def)
    have "cx' = cx" "n2 = n1" using admit_initial_peer_effect [OF refused(5)] by auto
    moreover have "nd_peer_links (drop_context cx n1) = nd_peer_links n"
      using refused(3) by (auto simp: connect_def registry_register_def drop_context_def registry_unregister_def Let_def)
    ultimately show ?thesis using links_held_same [OF ok(2)] refused(2) by simp
  next
    case (event cs i cx ev n w cx' n' w')
    then have ok: "contexts_ok cs n" "links_held cs n" using assms(2) by (auto simp: links_ok_run_def run_ok_def)
    show ?thesis using links_held_move [OF ok event(3) event_moves [OF held_ge_count [OF ok event(3)] event(4)]] event(2) by simp
  next
    case (closing cs i cx ev n w cx' n1 w1 n' w')
    then have ok: "contexts_ok cs n" "links_held cs n" using assms(2) by (auto simp: links_ok_run_def run_ok_def)
    note s = contexts_ok_shape [OF ok(1) closing(3)]
    note adv = event_advances [OF s [THEN conjunct2] closing(4)]
    have "contexts_ok (cs(i \<mapsto> cx')) n1" using adv s by (intro contexts_ok_update [OF ok(1)]) (simp_all add: advances_def)
    from links_held_end [OF this links_held_move [OF ok closing(3) event_moves [OF held_ge_count [OF ok closing(3)] closing(4)]] _ closing(5), of i]
    show ?thesis using closing(2) by simp
  qed (auto simp: links_ok_run_def dest: reload_links task_links intro: links_held_same)
  with run show ?thesis by (cases s' rule: prod_cases3) (simp add: links_ok_run_def)
qed

interpretation link_run: invariant_machine "node_step rt ops rnd c" links_ok_run for rt ops rnd c
  by unfold_locales (rule links_step)

section \<open>Properties\<close>

text \<open>C8. The links are the open connections. In every run of a node, however its connections open, introduce themselves once or repeatedly, are refused, close or are cut off by a reload, the entries of a
  peer in the registry of links are one for each open connection that holds a link to it; when all connections are closed, no entry is left.\<close>

theorem links_are_open_connections:
  assumes "(node_step rt ops rnd c)\<^sup>*\<^sup>* (\<lambda>_. None, n0, w0) (cs, n, w)"
    and "nd_connections n0 = []" and "nd_interest n0 = interest_new" and "nd_peer_links n0 = []"
  shows "link_count p x (nd_peer_links n) = card {i. \<exists>cx. cs i = Some cx \<and> cx_link cx = Some p \<and> cx_outgoing_tx cx = x}
    \<and> (cs = (\<lambda>_. None) \<longrightarrow> all_links (nd_peer_links n) = [])"
proof -
  have fw: "forwarders_of i n0 = []" for i by (simp add: forwarders_of_def assms(2))
  have "interest_ok n0"
    using interest_inv_new by (simp add: interest_ok_def excess_def subscribers_def fw keys_def assms(3))
  then have "links_ok_run (\<lambda>_. None, n0, w0)"
    by (simp add: links_ok_run_def links_held_def held_def run_ok_def contexts_ok_def shape_def fun_eq_iff assms(2,4) link_count_def links_ok_def)
  from link_run.run_inv [OF assms(1) this] have ok: "links_held cs n" by (simp add: links_ok_run_def)
  moreover have "all_links (nd_peer_links n) = []" if "cs = (\<lambda>_. None)"
  proof -
    have none: "link_count p x (nd_peer_links n) = 0" for p x using ok by (simp add: links_held_def held_def that)
    have "es = []" if es: "(p, es) \<in> set (nd_peer_links n)" for p es
    proof -
      have "map_of (nd_peer_links n) p = Some es" using es ok by (simp add: links_held_def links_ok_def)
      then have "filter (\<lambda>l. ln_sender l = x) es = []" for x using none [of p x] by (simp add: link_count_def)
      then show ?thesis by (metis (mono_tags, lifting) filter_empty_conv list.set_intros(1) neq_Nil_conv)
    qed
    then show ?thesis by (auto simp: all_links_def)
  qed
  ultimately show ?thesis unfolding links_held_def held_def by blast
qed

theorem links_are_open_connections_witness:
  "\<exists>cx n w. (node_step world_rt (sqlite_message_store example_env) id (pair_codec example_subscribe example_subscribe))\<^sup>*\<^sup>*
       (\<lambda>_. None, example_node, world0) ([0 \<mapsto> cx], n, w)
     \<and> cx_link cx = Some (PeerId [2]) \<and> link_count (PeerId [2]) 5 (nd_peer_links n) = 1"
proof -
  let ?step = "node_step world_rt (sqlite_message_store example_env) id (pair_codec example_subscribe example_subscribe)"
  let ?info = "\<lparr>pi_peer_id = PeerId [2], pi_listen_addr = None, pi_hello_id = MessageId [7]\<rparr>"
  obtain cx n1 where c: "connect None 5 6 example_node = (cx, n1)" by fastforce
  have node: "nd_connections example_node = []" "nd_next_id example_node = 0" "nd_interest example_node = interest_new" "nd_peer_links example_node = []"
    by (simp_all add: example_node_def node_new_def)
  obtain ok cx' n' w' where a: "admit_initial_peer world_rt ?info cx n1 world0 = (ok, cx', n', w')" by (metis prod_cases4)
  have cx: "ok" "cx_id cx' = 0" "cx_link cx' = Some (PeerId [2])" "cx_outgoing_tx cx' = 5"
    using a c node by (auto simp: connect_def registry_register_def admit_initial_peer_def hold_link_def authenticated_sender_def
        example_node_def node_new_def allowlist_permits_def Let_def split: prod.splits if_splits)
  have "?step (\<lambda>_. None, example_node, world0) ((\<lambda>_. None)(cx_id cx' \<mapsto> cx'), n', w')"
    by (rule node_step.dialled [OF c _ a [unfolded cx(1) [THEN eqTrueI]]]) (simp add: node)
  then have run: "?step\<^sup>*\<^sup>* (\<lambda>_. None, example_node, world0) ([0 \<mapsto> cx'], n', w')" by (simp add: cx(2))
  have open_links: "{i. \<exists>cx. [0 \<mapsto> cx'] i = Some cx \<and> cx_link cx = Some (PeerId [2]) \<and> cx_outgoing_tx cx = 5} = {0}"
    using cx(3,4) by (auto split: if_splits)
  from links_are_open_connections [OF run node(1,3,4), of "PeerId [2]" 5, THEN conjunct1] have "link_count (PeerId [2]) 5 (nd_peer_links n') = 1"
    unfolding open_links by simp
  with run cx(3) show ?thesis by blast
qed

section \<open>A whole connection\<close>

text \<open>\<open>run_connection\<close> on the events it waits for: it registers the connection, admits the peer that a dial has already met, reads until it has to stop, and cleans up. A connection that
  is still open at the end of the events is returned.\<close>

definition finish_connection ::
  "('w, 'z) runtime_scheme \<Rightarrow> (bool \<times> connection \<times> 's node \<times> 'w) outcome \<Rightarrow> (connection option \<times> 's node \<times> 'w) outcome" where
  "finish_connection rt r =
     (case r of
        Panics \<Rightarrow> Panics
      | Returns (True, cx, n, w) \<Rightarrow> Returns (Some cx, n, w)
      | Returns (False, cx, n, w) \<Rightarrow> Returns (None, connection_end rt cx n w))"

definition run_connection ::
  "('w, 'z) runtime_scheme \<Rightarrow> 's message_store \<Rightarrow> (real \<Rightarrow> real) \<Rightarrow> codec \<Rightarrow> u8 list option \<Rightarrow> sender \<Rightarrow> nat \<Rightarrow> peer_info option
     \<Rightarrow> connection_event list \<Rightarrow> 's node \<Rightarrow> 'w \<Rightarrow> (connection option \<times> 's node \<times> 'w) outcome" where
  "run_connection rt ops rnd c fp tx disconnect initial_peer evs n w =
     (let (cx, n1) = connect fp tx disconnect n in
      case initial_peer of
        None \<Rightarrow> finish_connection rt (run_events rt ops rnd c evs cx n1 w)
      | Some info \<Rightarrow>
          (let (ok, cx', n2, w') = admit_initial_peer rt info cx n1 w in
           if \<not> ok then Returns (None, drop_context cx' n2, w')
           else finish_connection rt (run_events rt ops rnd c evs cx' n2 w')))"

lemma finish_steps:
  assumes "finish_connection rt (run_events rt ops rnd c evs cx n w) = Returns (left, n', w')" and "cs i = Some cx"
  shows "(node_step rt ops rnd c)\<^sup>*\<^sup>* (cs, n, w) (cs(i := left), n', w')"
  using assms
proof (induction evs arbitrary: cs cx n w)
  case Nil
  then have "(cs(i := left), n', w') = (cs, n, w)" by (auto simp: finish_connection_def)
  then show ?case by simp
next
  case (Cons ev evs)
  show ?case
  proof (cases "connection_event_step rt ops rnd c ev cx n w")
    case Panics
    with Cons.prems(1) show ?thesis by (simp add: finish_connection_def)
  next
    case (Returns r)
    obtain go cx1 n1 w1 where r: "r = (go, cx1, n1, w1)" by (metis prod_cases4)
    show ?thesis
    proof (cases go)
      case True
      have "node_step rt ops rnd c (cs, n, w) (cs(i \<mapsto> cx1), n1, w1)"
        by (rule node_step.event [where cs = cs and i = i, OF Cons.prems(2)]) (use Returns r True in simp)
      moreover have "(node_step rt ops rnd c)\<^sup>*\<^sup>* (cs(i \<mapsto> cx1), n1, w1) ((cs(i \<mapsto> cx1))(i := left), n', w')"
        using Cons.prems(1) Returns r True by (intro Cons.IH) simp_all
      ultimately show ?thesis unfolding fun_upd_upd by (rule converse_rtranclp_into_rtranclp)
    next
      case False
      then have e: "left = None" "connection_end rt cx1 n1 w1 = (n', w')"
        using Cons.prems(1) Returns r by (auto simp: finish_connection_def)
      have "node_step rt ops rnd c (cs, n, w) (cs(i := None), n', w')"
        by (rule node_step.closing [where cs = cs and i = i, OF Cons.prems(2) _ e(2)]) (use Returns r False in simp)
      then show ?thesis unfolding e(1) by (rule r_into_rtranclp)
    qed
  qed
qed

lemma run_connection_steps:
  assumes "run_connection rt ops rnd c fp tx d initial_peer evs n w = Returns (left, n', w')"
    and "map_of (nd_connections n) (nd_next_id n) = None" and "cs (nd_next_id n) = None"
  shows "(node_step rt ops rnd c)\<^sup>*\<^sup>* (cs, n, w) (cs(nd_next_id n := left), n', w')"
proof -
  let ?i = "nd_next_id n"
  obtain cx n1 where c: "connect fp tx d n = (cx, n1)" by fastforce
  have i: "cx_id cx = ?i" using connect_effect [OF c assms(2)] by simp
  show ?thesis
  proof (cases initial_peer)
    case None
    have "node_step rt ops rnd c (cs, n, w) (cs(?i \<mapsto> cx), n1, w)" using node_step.accepted [OF c assms(2), of rt ops rnd _ cs w] by (simp add: i)
    moreover have "(node_step rt ops rnd c)\<^sup>*\<^sup>* (cs(?i \<mapsto> cx), n1, w) ((cs(?i \<mapsto> cx))(?i := left), n', w')"
      using assms(1) None by (intro finish_steps) (simp_all add: run_connection_def c)
    ultimately show ?thesis unfolding fun_upd_upd by (rule converse_rtranclp_into_rtranclp)
  next
    case (Some info)
    obtain ok cx' n2 w2 where a: "admit_initial_peer rt info cx n1 w = (ok, cx', n2, w2)" by (metis prod_cases4)
    show ?thesis
    proof (cases ok)
      case True
      have "cx_id cx' = ?i" using admit_initial_peer_effect [OF a] i by auto
      then have "node_step rt ops rnd c (cs, n, w) (cs(?i \<mapsto> cx'), n2, w2)"
        using node_step.dialled [OF c assms(2), of rt info w cx' n2 w2 ops rnd _ cs] a True by simp
      moreover have "(node_step rt ops rnd c)\<^sup>*\<^sup>* (cs(?i \<mapsto> cx'), n2, w2) ((cs(?i \<mapsto> cx'))(?i := left), n', w')"
        using assms(1) Some True by (intro finish_steps) (simp_all add: run_connection_def c a)
      ultimately show ?thesis unfolding fun_upd_upd by (rule converse_rtranclp_into_rtranclp)
    next
      case False
      then have "left = None" "n' = drop_context cx' n2" "w' = w2" using assms(1) Some by (simp_all add: run_connection_def c a)
      moreover have "node_step rt ops rnd c (cs, n, w) (cs, drop_context cx' n2, w2)"
        using node_step.refused [OF c assms(2), of rt info w cx' n2 w2 ops rnd _ cs] a False by simp
      ultimately show ?thesis using assms(3) by (simp add: fun_upd_idem)
    qed
  qed
qed



end
