(* ===== verification/Reload_Runs.thy ===== *)
theory Reload_Runs
  imports Configuration
begin

text \<open>
  The reload of a running node as a whole (crates/thoth-mesh-node/src/reload.rs, \<open>spawn_sighup_reloader\<close> in main.rs, \<open>spawn_reload_applier\<close> in lib.rs):
  the cells that connections share, the task that reads the files on every hangup signal, the watch channel that keeps only the newest lists, and the
  task that applies them. The two tasks interleave in any way.
\<close>

section \<open>Reloadable cells\<close>

text \<open>A \<open>Reloadable\<close> is a handle to a shared cell; a clone is the same handle. The cells live in a store.\<close>

type_synonym 'a cells = "'a option list"

definition reloadable_new :: "'a option \<Rightarrow> 'a cells \<Rightarrow> nat \<times> 'a cells" where
  "reloadable_new initial h = (length h, h @ [initial])"

definition reloadable_clone :: "nat \<Rightarrow> nat" where
  "reloadable_clone r = r"

definition reloadable_get :: "nat \<Rightarrow> 'a cells \<Rightarrow> 'a option" where
  "reloadable_get r h = h ! r"

definition reloadable_set :: "nat \<Rightarrow> 'a option \<Rightarrow> 'a cells \<Rightarrow> 'a cells" where
  "reloadable_set r new h = h[r := new]"

text \<open>What connections rely on: a value that is set is what every clone of the handle reads next, and no other handle sees it.\<close>

locale shared_cell =
  fixes live :: "'r \<Rightarrow> 'h \<Rightarrow> bool" and new :: "'v \<Rightarrow> 'h \<Rightarrow> 'r \<times> 'h" and clone :: "'r \<Rightarrow> 'r"
    and get :: "'r \<Rightarrow> 'h \<Rightarrow> 'v" and set :: "'r \<Rightarrow> 'v \<Rightarrow> 'h \<Rightarrow> 'h"
  assumes new_law: "new v h = (r, h') \<Longrightarrow> \<not> live r h \<and> live r h' \<and> get r h' = v
      \<and> (\<forall>q. live q h \<longrightarrow> live q h' \<and> get q h' = get q h)"
    and set_law: "live r h \<Longrightarrow> live q h \<Longrightarrow> live q (set r v h) \<and> get q (set r v h) = (if q = r then v else get q h)"
    and clone_law: "clone r = r"
begin

text \<open>The handles of a list of clones read the last value that was set through any of them.\<close>

lemma sets_reach_clones:
  assumes "live r h" and "vs \<noteq> []"
  shows "get ((clone ^^ k) r) (fold (\<lambda>(j, v) h. set ((clone ^^ j) r) v h) vs h) = snd (last vs)"
proof -
  have id: "(clone ^^ j) r = r" for j by (induction j) (simp_all add: clone_law)
  have "live r (fold (\<lambda>(j, v) h. set ((clone ^^ j) r) v h) us h)" for us
    using assms(1) set_law by (induction us arbitrary: h) (auto simp: id)
  then have "get r (fold (\<lambda>(j, v) h. set ((clone ^^ j) r) v h) (us @ [(j, v)]) h) = v" for us j v using set_law by (simp add: id)
  then show ?thesis using assms(2) by (cases vs rule: rev_cases) (auto simp: id)
qed

end

interpretation reloadable: shared_cell "\<lambda>r h. r < length h" reloadable_new reloadable_clone reloadable_get reloadable_set
  by unfold_locales (auto simp: reloadable_new_def reloadable_clone_def reloadable_get_def reloadable_set_def nth_append nth_list_update)

section \<open>The two tasks\<close>

text \<open>The unseen value of the watch channel, the node and the outside world.\<close>

type_synonym ('s, 'w) reload_state = "reloadable_acls option \<times> 's node \<times> 'w"

datatype reload_event = Hangup file_env | Applies

text \<open>The task of the signal: it sends the lists it read, and keeps going when it could not read them.\<close>

fun sighup_reloader :: "file_env \<Rightarrow> reload_source \<Rightarrow> ('s, 'w) reload_state \<Rightarrow> ('s, 'w) reload_state outcome" where
  "sighup_reloader fe src (pending, n, w) =
     (case reload fe src of
        Panics \<Rightarrow> Panics
      | Returns (Inl _) \<Rightarrow> Returns (pending, n, w)
      | Returns (Inr a) \<Rightarrow> Returns (Some a, n, w))"

text \<open>The applying task: it waits for a change and takes the newest value.\<close>

fun reload_applier :: "('w, 'z) runtime_scheme \<Rightarrow> ('s, 'w) reload_state \<Rightarrow> ('s, 'w) reload_state" where
  "reload_applier rt (None, n, w) = (None, n, w)"
| "reload_applier rt (Some a, n, w) = (None, apply_reload rt a n w)"

fun reload_events ::
  "('w, 'z) runtime_scheme \<Rightarrow> reload_source \<Rightarrow> reload_event list \<Rightarrow> ('s, 'w) reload_state \<Rightarrow> ('s, 'w) reload_state outcome" where
  "reload_events rt src [] s = Returns s"
| "reload_events rt src (Hangup fe # evs) s =
     (case sighup_reloader fe src s of Panics \<Rightarrow> Panics | Returns s' \<Rightarrow> reload_events rt src evs s')"
| "reload_events rt src (Applies # evs) s = reload_events rt src evs (reload_applier rt s)"

section \<open>Which lists are live\<close>

definition live_lists :: "'s node \<Rightarrow> reloadable_acls" where
  "live_lists n = \<lparr>ra_topic_acl = nd_topic_acl n, ra_peer_topic_acl = nd_peer_topic_acl n, ra_allow_peer = nd_allowed_peers n,
     ra_peer_topic_filter = nd_peer_topic_filter n\<rparr>"

text \<open>The lists that the last readable configuration gave.\<close>

fun last_good :: "reload_source \<Rightarrow> reload_event list \<Rightarrow> reloadable_acls \<Rightarrow> reloadable_acls" where
  "last_good src [] a = a"
| "last_good src (Hangup fe # evs) a = last_good src evs (case reload fe src of Returns (Inr b) \<Rightarrow> b | _ \<Rightarrow> a)"
| "last_good src (Applies # evs) a = last_good src evs a"

definition target :: "('s, 'w) reload_state \<Rightarrow> reloadable_acls" where
  "target = (\<lambda>(pending, n, _). case pending of None \<Rightarrow> live_lists n | Some a \<Rightarrow> a)"

lemma target_applier: "target (reload_applier rt s) = target s"
proof (cases s rule: prod_cases3)
  case (fields pending n w)
  show ?thesis
  proof (cases pending)
    case (Some a)
    obtain n' w' where "apply_reload rt a n w = (n', w')" by fastforce
    with apply_reload_effect [OF this] show ?thesis by (simp add: fields Some target_def live_lists_def)
  qed (simp add: fields)
qed

lemma target_sighup:
  "sighup_reloader fe src s = Returns s' \<Longrightarrow> target s' = (case reload fe src of Returns (Inr b) \<Rightarrow> b | _ \<Rightarrow> target s)"
  by (cases s rule: prod_cases3) (auto simp: target_def split: outcome.splits sum.splits)

lemma target_events: "reload_events rt src evs s = Returns s' \<Longrightarrow> target s' = last_good src evs (target s)"
  by (induction rt src evs s rule: reload_events.induct) (auto simp: target_applier dest: target_sighup split: outcome.splits)

lemma reload_events_return:
  assumes "main_setup fe c = Inr (ec, opts, token, src)"
  shows "\<exists>s'. reload_events rt src evs s = Returns s'"
proof (induction evs arbitrary: s)
  case (Cons ev evs)
  have step: "\<exists>s'. sighup_reloader fe' src s = Returns s'" for fe'
  proof (cases s rule: prod_cases3)
    case (fields pending n w)
    have "reload fe' src \<noteq> Panics" by (auto simp: reload_def main_setup_source [OF assms] split: option.splits)
    then show ?thesis by (auto simp: fields split: outcome.splits sum.splits)
  qed
  show ?case
  proof (cases ev)
    case (Hangup fe')
    with step [of fe'] Cons show ?thesis by auto
  qed (use Cons in simp)
qed (simp del: split_paired_Ex)

text \<open>C26. The last readable configuration wins. Over any interleaving of hangup signals, each with whatever files it finds, and of the task that applies lists, no step panics, an unreadable configuration changes nothing,
  lists that were overtaken by newer ones may be skipped, and once no list is waiting, the live lists are those of the last signal whose files could be read, or those before the first signal.\<close>

theorem last_readable_reload_wins:
  assumes "main_setup fe c = Inr (ec, opts, token, src)"
  shows "\<exists>pending n' w'. reload_events rt src evs (None, n, w) = Returns (pending, n', w')
    \<and> (case pending of None \<Rightarrow> live_lists n' | Some a \<Rightarrow> a) = last_good src evs (live_lists n)"
proof -
  obtain s' where run: "reload_events rt src evs (None, n, w) = Returns s'" using reload_events_return [OF assms] by blast
  from target_events [OF run] run show ?thesis by (cases s' rule: prod_cases3) (simp add: target_def)
qed

theorem last_readable_reload_wins_witness:
  "\<exists>ec opts token src n' w'. main_setup example_files example_cli = Inr (ec, opts, token, src)
     \<and> reload_events world_rt src [Hangup example_files, Hangup (example_files\<lparr>fe_read := \<lambda>_. Inl FileNotFound, fe_metadata := \<lambda>_. Some FileNotFound\<rparr>), Applies]
         (None, example_node, world0) = Returns (None, n', w')
     \<and> nd_topic_acl n' = no_topic_acl opts"
proof -
  let ?bad = "example_files\<lparr>fe_read := \<lambda>_. Inl FileNotFound, fe_metadata := \<lambda>_. Some FileNotFound\<rparr>"
  let ?evs = "[Hangup example_files, Hangup ?bad, Applies]"
  obtain ec opts token src where m: "main_setup example_files example_cli = Inr (ec, opts, token, src)"
    and s: "rs_existed_at_startup src" "rs_config_path src = Some (str ''node.toml'')" using example_setup by blast
  have good: "reload example_files src = Returns (Inr \<lparr>ra_topic_acl = no_topic_acl opts, ra_peer_topic_acl = no_peer_topic_acl opts,
      ra_allow_peer = Option.bind (no_tls opts) tls_allowed_peers, ra_peer_topic_filter = no_peer_topic_filter opts\<rparr>)"
    using reload_after_setup [OF m] by simp
  have bad: "reload ?bad src = Returns (Inl (ConfigGone (str ''node.toml'') FileNotFound))" by (simp add: reload_def s)
  obtain pending n' w' where run: "reload_events world_rt src ?evs (None, example_node, world0) = Returns (pending, n', w')"
    "(case pending of None \<Rightarrow> live_lists n' | Some a \<Rightarrow> a) = last_good src ?evs (live_lists example_node)"
    using last_readable_reload_wins [OF m, of world_rt ?evs example_node world0] by blast
  have "pending = None" using run(1) by (auto simp: good bad split: prod.splits)
  moreover have "nd_topic_acl n' = no_topic_acl opts" using run(2) \<open>pending = None\<close> by (simp add: good bad live_lists_def)
  ultimately show ?thesis using m run(1) by blast
qed

end
