(* ===== verification/Schema.thy ===== *)
theory Schema
  imports Store
begin

text \<open>
  Opening the database (\<open>SqliteStore::open\<close> and \<open>ensure_msg_id_column\<close> in crates/thoth-mesh-node/src/persistence.rs, schema.sql): a new file, a file of this version, and a file from
  before durable subscriptions, whose table of messages has no \<open>msg_id\<close>. Of the layout only the columns of that table and the version row matter; the tables themselves
  are the \<open>sqlite_store\<close>. Opening refines \<open>sqlite_open\<close> on the tables, and brings every file to the same layout.
\<close>

section \<open>State\<close>

definition SCHEMA_VERSION :: rstr where
  "SCHEMA_VERSION = str ''1''"

text \<open>The columns of \<open>messages\<close>, if there is such a table, the version in \<open>meta\<close>, if there is one, and the contents.\<close>

record database =
  db_columns :: "rstr list option"
  db_version :: "rstr option"
  db_store :: sqlite_store

definition msg_id_column :: rstr where
  "msg_id_column = str ''msg_id''"

definition schema_columns :: "rstr list" where
  "schema_columns = [str ''seq'', str ''topic'', str ''ts'', str ''envelope'', msg_id_column]"

text \<open>The rows that a layout can hold: none without a table, and no id without its column.\<close>

definition layout_ok :: "database \<Rightarrow> bool" where
  "layout_ok db \<longleftrightarrow> (db_columns db = None \<longrightarrow> sq_messages (db_store db) = [])
     \<and> (\<forall>cs. db_columns db = Some cs \<longrightarrow> msg_id_column \<notin> set cs \<longrightarrow> (\<forall>r \<in> set (sq_messages (db_store db)). mr_msg_id r = None))"

text \<open>What can fail before the statements of the schema.\<close>

datatype open_stmt = CreateDir | SelectTable | SelectColumn | AlterTable | InsertVersion

section \<open>Operations\<close>

definition ensure_msg_id_column :: "(open_stmt \<Rightarrow> io_error option) \<Rightarrow> database \<Rightarrow> unit io_result \<times> database" where
  "ensure_msg_id_column fails db =
     (case fails SelectTable of
        Some err \<Rightarrow> (Inl err, db)
      | None \<Rightarrow>
          (case db_columns db of
             None \<Rightarrow> (Inr (), db)
           | Some cs \<Rightarrow>
               (case fails SelectColumn of
                  Some err \<Rightarrow> (Inl err, db)
                | None \<Rightarrow>
                    if msg_id_column \<in> set cs then (Inr (), db)
                    else (case fails AlterTable of
                            Some err \<Rightarrow> (Inl err, db)
                          | None \<Rightarrow> (Inr (), db\<lparr>db_columns := Some (cs @ [msg_id_column])\<rparr>)))))"

text \<open>\<open>CREATE TABLE IF NOT EXISTS\<close> and \<open>INSERT OR IGNORE\<close>.\<close>

definition apply_schema :: "database \<Rightarrow> database" where
  "apply_schema db = db\<lparr>db_columns := Some (case db_columns db of None \<Rightarrow> schema_columns | Some cs \<Rightarrow> cs)\<rparr>"

definition insert_version :: "database \<Rightarrow> database" where
  "insert_version db = db\<lparr>db_version := Some (case db_version db of None \<Rightarrow> SCHEMA_VERSION | Some v \<Rightarrow> v)\<rparr>"

text \<open>\<open>open\<close>: the result, and the file that it leaves behind, also after an error.\<close>

definition open_database ::
  "sqlite_env \<Rightarrow> (open_stmt \<Rightarrow> io_error option) \<Rightarrow> database \<Rightarrow> sqlite_store io_result \<times> database" where
  "open_database env fails db =
     (case fails CreateDir of
        Some err \<Rightarrow> (Inl err, db)
      | None \<Rightarrow>
          if se_fails env SqlOpen then (Inl (to_io SqlOpen), db)
          else
            (case ensure_msg_id_column fails db of
               (Inl err, db1) \<Rightarrow> (Inl err, db1)
             | (Inr _, db1) \<Rightarrow>
                 if se_fails env SqlSchema then (Inl (to_io SqlSchema), db1)
                 else
                   (let db2 = apply_schema db1 in
                    case fails InsertVersion of
                      Some err \<Rightarrow> (Inl err, db2)
                    | None \<Rightarrow>
                        (let db3 = insert_version db2 in
                         case prune env ((db_store db3)\<lparr>sq_appends_since_prune := 0\<rparr>) of
                           (Inl err, _) \<Rightarrow> (Inl err, db3)
                         | (Inr _, s) \<Rightarrow> (Inr s, db3\<lparr>db_store := s\<rparr>)))))"

section \<open>Results\<close>

lemma ensure_result:
  assumes "ensure_msg_id_column fails db = (r, db')"
  shows "db_store db' = db_store db" "db_version db' = db_version db"
    and "r = Inr () \<Longrightarrow> db_columns db' = map_option (\<lambda>cs. if msg_id_column \<in> set cs then cs else cs @ [msg_id_column]) (db_columns db)"
    and "db_columns db' = db_columns db \<or> (\<exists>cs. db_columns db = Some cs \<and> db_columns db' = Some (cs @ [msg_id_column]))"
  using assms by (auto simp: ensure_msg_id_column_def split: option.splits if_splits)

text \<open>On the tables, opening is \<open>sqlite_open\<close>, whatever layout the file had; when it succeeds, the table has a column for the ids, and every column that it had before.\<close>

theorem open_database_migrates:
  assumes "open_database env fails db = (Inr s, db')"
  shows "sqlite_open env (db_store db) = Inr s \<and> db_store db' = s
    \<and> (\<exists>cs. db_columns db' = Some cs \<and> msg_id_column \<in> set cs \<and> (\<forall>cs0. db_columns db = Some cs0 \<longrightarrow> set cs0 \<subseteq> set cs))
    \<and> db_version db' = Some (case db_version db of None \<Rightarrow> SCHEMA_VERSION | Some v \<Rightarrow> v)
    \<and> (layout_ok db \<longrightarrow> layout_ok db')"
proof -
  obtain u db1 where e: "ensure_msg_id_column fails db = (Inr u, db1)"
    and ok: "\<not> se_fails env SqlOpen" "\<not> se_fails env SqlSchema"
    and p: "prune env ((db_store db1)\<lparr>sq_appends_since_prune := 0\<rparr>) = (Inr (), s)"
    and db': "db' = (insert_version (apply_schema db1))\<lparr>db_store := s\<rparr>"
    using assms by (auto simp: open_database_def apply_schema_def insert_version_def Let_def split: option.splits if_splits prod.splits sum.splits)
  note r = ensure_result [OF e]
  have "db_columns db' = Some (case db_columns db of None \<Rightarrow> schema_columns | Some cs \<Rightarrow> if msg_id_column \<in> set cs then cs else cs @ [msg_id_column])"
    using r(3) by (simp add: db' insert_version_def apply_schema_def split: option.split)
  moreover have "msg_id_column \<in> set schema_columns" by (simp add: schema_columns_def)
  ultimately have cols: "\<exists>cs. db_columns db' = Some cs \<and> msg_id_column \<in> set cs \<and> (\<forall>cs0. db_columns db = Some cs0 \<longrightarrow> set cs0 \<subseteq> set cs)"
    by (auto split: option.split)
  moreover have "sqlite_open env (db_store db) = Inr s" using ok p by (simp add: sqlite_open_def r(1))
  moreover have "db_version db' = Some (case db_version db of None \<Rightarrow> SCHEMA_VERSION | Some v \<Rightarrow> v)"
    by (simp add: db' insert_version_def apply_schema_def r(2))
  ultimately show ?thesis by (auto simp: db' layout_ok_def)
qed

text \<open>An error leaves the contents as they are: at most the empty column was added, or an empty table and the version, and a later attempt starts from there.\<close>

theorem open_error_keeps_contents:
  assumes "open_database env fails db = (Inl err, db')"
  shows "db_store db' = db_store db \<and> (layout_ok db \<longrightarrow> layout_ok db')"
proof -
  obtain r db1 where e: "ensure_msg_id_column fails db = (r, db1)" by fastforce
  have "db' \<in> {db, db1, apply_schema db1, insert_version (apply_schema db1)}"
    using assms e by (auto simp: open_database_def Let_def split: option.splits if_splits sum.splits prod.splits)
  with ensure_result(1,4) [OF e] show ?thesis
    by (auto simp: layout_ok_def apply_schema_def insert_version_def split: option.splits)
qed

text \<open>The rows of a file from before the column are not handed out to durable subscribers, and remain for everyone else.\<close>

theorem old_rows_invisible:
  assumes "layout_ok db" and "db_columns db = Some cs" and "msg_id_column \<notin> set cs" and "open_database env fails db = (Inr s, db')"
    and "\<not> se_fails env SqlSelectSince"
  shows "sqlite_messages_since env t after s = Inr []"
proof -
  have "sqlite_open env (db_store db) = Inr s" using open_database_migrates [OF assms(4)] by blast
  then have "set (sq_messages s) \<subseteq> set (sq_messages (db_store db))"
    by (auto simp: sqlite_open_def prune_def split: if_splits)
  then have "\<forall>r \<in> set (sq_messages s). mr_msg_id r = None" using assms(1-3) by (auto simp: layout_ok_def)
  then have none: "filter (\<lambda>r. mr_topic r = topic_str t \<and> (case mr_msg_id r of None \<Rightarrow> False | Some i \<Rightarrow> message_id_as_bytes after < i)) (sq_messages s) = []"
    by (auto simp: filter_empty_conv)
  show ?thesis using assms(5) by (simp add: sqlite_messages_since_def since_rows_def none decode_rows.simps)
qed

text \<open>The version does not tell the layouts apart: a file of the old layout keeps its version when it is migrated, and a new file gets the same one.\<close>

theorem migration_keeps_version:
  assumes "db_version db = Some SCHEMA_VERSION" and "db_columns db = Some cs" and "msg_id_column \<notin> set cs"
    and "open_database env fails db = (Inr s, db')"
  shows "db_version db' = db_version db \<and> db_columns db' \<noteq> db_columns db"
  using open_database_migrates [OF assms(4)] assms(1-3) by auto

end
