(* ===== verification/Spec2Isabelle.thy ===== *)
theory Spec2Isabelle
  imports Commands Metrics_Server Typing Relay Link_Runs Reload_Runs Schema
begin

text \<open>
  \<^bold>\<open>Verification of thoth-mesh\<close>, a mesh of publish/subscribe nodes written in Rust.

  A node accepts clients and peers over framed connections. Its broker keeps a channel per topic and per wildcard
  pattern with a replay buffer and a retained message, consumer groups with leases, and optionally writes every message to
  an SQLite database. A connection runs a read loop that dispatches messages to handlers, one forwarder task
  per subscription and a writer task. Peers learn about each other's interest and addresses by announcements on their links.
  Access lists, a relay filter and a rate limiter decide what a connection may do; the lists can be reloaded while the node runs.

  \<^bold>\<open>How the code is modelled.\<close> A struct is a record, an enum a datatype, a method a function on explicit state. Strings
  are lists of code points, bytes and counters are words, hash maps are association lists with distinct keys (their order is the order in which a map is iterated,
  which no theorem depends on unless it says so), durations and instants are natural numbers. A panic is the value
  \<open>Panics\<close>, an error a value of a sum. What locks protect is one definition per critical section, so that interleavings are
  sequences of these definitions; \<open>inductive\<close> relations (\<open>broker_step\<close>, \<open>node_step\<close>, \<open>dial_step\<close>) close them under every order.
  Code outside the repository is a parameter: \<open>runtime\<close> (tokio's channels, the clock, the uuid crate), \<open>codec\<close>
  (CBOR), \<open>sqlite_env\<close> (which SQL statements fail, the wall clock), \<open>tls_lib\<close> (PEM files, rustls, SHA-256), \<open>file_env\<close>, \<open>listener_env\<close> and \<open>client_env\<close> (files, TOML, sockets,
  standard input), the readers and writers of streams, and the rounding of floating-point arithmetic. What a theorem needs of them is a named hypothesis (\<open>codec_round_trip\<close>, \<open>healthy\<close>, \<open>f64_rounding\<close>,
  \<open>try_send_atomic\<close>, \<open>reliable\<close>, \<open>queues_grow\<close>, \<open>honest_queues\<close>, \<open>codec_deserializes\<close>, \<open>session_with\<close>), which the witnesses discharge on concrete instances (\<open>world_rt\<close>, \<open>pair_codec\<close>, \<open>example_env\<close>).

  \<^bold>\<open>The theories\<close>, with the files under src/crates they model.

  \<^item> \<open>Prelude\<close>: types, strings, association lists, bounded queues and windows (\<open>push_capped\<close>, \<open>last_n\<close>), shared by all. Its locales are the contracts that several
    components fulfil: \<open>capped_registry\<close> (the four registries bounded by a queue), \<open>invariant_machine\<close> and \<open>progress_machine\<close> (the step relations of broker, node and dialling).
  \<^item> \<open>Topics\<close> (thoth-mesh-core topic.rs, filter.rs): validation and matching; the matching loop equals the segment-wise specification.
  \<^item> \<open>Messages\<close> (core message.rs, peer.rs, envelope.rs, error.rs): message kinds, envelopes, the runtime and codec parameters.
  \<^item> \<open>Framing\<close> (core framing.rs, async_framing.rs; thoth-mesh handshake.rs): frames, their limit, the dialling handshake. \<open>Wire\<close> (node connection.rs): the
    writer task against the reader of the far end.
  \<^item> \<open>Membership\<close>, \<open>Interest\<close>, \<open>Peer_Directory\<close> (thoth-mesh membership.rs, interest.rs, peer_directory.rs): each table refines a
    simple specification over every sequence of operations (connected set, counted interest, the most recently used addresses).
  \<^item> \<open>Seen_Ids\<close>, \<open>Topic_Map\<close>, \<open>Consumer_Groups\<close>, \<open>Broker\<close>, \<open>Broker_Runs\<close> (thoth-mesh-broker lib.rs): the duplicate filter, the registries with
    eviction, round-robin groups with leases, and publish and subscribe. \<open>Broker\<close> states the invariant of the
    broker and that each critical section keeps it; \<open>Broker_Runs\<close> what publishing and subscribing do.
  \<^item> \<open>Store\<close> (broker lib.rs trait MessageStore; node persistence.rs): the locale \<open>durable_store\<close> is the contract of a message
    store, interpreted by the SQLite tables; \<open>Startup\<close> (node lib.rs) proves from it that a restart restores every channel. \<open>Schema\<close> (persistence.rs, schema.sql) has the opening of the
    database file with the migration of an older layout, and refines \<open>sqlite_open\<close>.
  \<^item> \<open>Acl\<close>, \<open>Rate_Limit\<close> (tls fingerprint.rs; node topic_acl.rs, peer_topic_filter.rs, rate_limit.rs): what rules grant, the token buckets.
  \<^item> \<open>Peer_Links\<close>, \<open>Redelivery\<close>, \<open>Metrics\<close>, \<open>Dead_Letter\<close>, \<open>Forwarders\<close> (node peer_links.rs, redelivery.rs, metrics.rs, dead_letter.rs, ttl.rs,
    work_queue.rs, connection.rs): the links, pending acknowledgements, counters, dead letters and sweeps, the three kinds of forwarder tasks.
  \<^item> \<open>Node\<close>, \<open>Connection\<close>, \<open>Node_Runs\<close> (node shared.rs, connection.rs, reload.rs, lib.rs): the shared state, every handler of a
    connection, its end, the reload of the access lists. \<open>Node_Runs\<close> lets connections, tasks, sweeps and reloads interleave, and
    shows that the announced interest covers the subscriptions in every run, and what a reload revokes. \<open>Link_Runs\<close> composes \<open>run_connection\<close> from its parts: the whole of it is a run of the
    step relation, the links of the registry are those of the open connections, and a connection that ended leaves nothing behind.
  \<^item> \<open>Durable\<close> (connection.rs, broker lib.rs): the sessions of a durable subscriber from the contract \<open>durable_store\<close>; each starts with exactly what the one before did not send.
  \<^item> \<open>Tls\<close> (thoth-mesh-tls lib.rs, stream.rs; node tls_config.rs): certificates and keys, the two configurations, the stream that is plain or encrypted.
    The locale \<open>wrapped_stream\<close> says that a wrapper is used like the stream inside; it is interpreted for the three variants.
  \<^item> \<open>Entry_Points\<close> (node lib.rs, ttl.rs, work_queue.rs): \<open>run\<close>, \<open>serve\<close> and \<open>spawn\<close> with the tasks they start, readiness, the accept loop. The three agree,
    readiness waits for the rehydration, a node with TLS never speaks in the clear, and peers agree on its identity.
  \<^item> \<open>Mesh\<close> (node connection.rs, peer_links.rs): two nodes and their link. The far end is subscribed to exactly what the near end wants; echoes are absorbed.
    \<open>Relay\<close> follows messages over the link: forwarder task, writer, bytes, read loop and broker of the far node, composed from the results on each part.
  \<^item> \<open>Typing\<close>: in every run all names that a node keeps are valid, whatever arrives.
  \<^item> \<open>Configuration\<close> (node main.rs, config.rs): flags and file, \<open>main\<close>, the reload on a hangup signal.
    \<open>Reload_Runs\<close> (node reload.rs, main.rs, lib.rs): the shared cells (locale \<open>shared_cell\<close>), and the task that reads the files against the task that applies the lists, in any order.
  \<^item> \<open>Metrics_Server\<close> (node metrics_server.rs), \<open>Peering\<close> (node peering.rs): the scrape endpoint with its accept loop and its token, outbound dialling.
  \<^item> \<open>Client\<close>, \<open>Commands\<close> (thoth-mesh-cli lib.rs, config.rs): the exchanges of the client with a node; its commands from the arguments to what they print and
    acknowledge. \<open>Utf8\<close> has the encoding of strings and the lossy decoder, and that they are inverse.

  This theory holds the result that spans them: nothing reaches the channels of a node past its access lists and its limiter.

  \<^bold>\<open>Where the code does not do what its documentation says\<close>, as theorems: \<open>full_live_map_orphans_channel\<close>, \<open>wildcard_subscribe_duplicates\<close>, \<open>append_error_atomic\<close>,
  \<open>wildcard_interest_not_withdrawn\<close>, \<open>dead_letters_nest\<close>, \<open>unsubscribe_leaks_interest\<close>, \<open>reload_race_loses_interest\<close>,
  \<open>second_hello_leaves_stale_peer\<close>, \<open>stalled_peer_never_backs_off\<close>, \<open>late_config_file_cleared\<close>, \<open>mutual_interest_never_withdrawn\<close>, \<open>ipv6_addr_refused_over_tls\<close>,
  \<open>request_timeout_not_total\<close>, \<open>relay_replaces_publisher\<close>, \<open>durable_position_ahead_of_wire\<close>, \<open>durable_late_message_lost\<close>, \<open>migration_keeps_version\<close>.

  \<^bold>\<open>Bounds.\<close> No result depends on fuel. Loops that may wait for ever (the header loop of the metrics endpoint, the loops of the client) are partial functions with
  the value \<open>None\<close>, and the theorems show the cases in which they return; the read loop of \<open>Wire\<close>, the stream of events of \<open>Relay\<close> and the line splitter of \<open>Metrics_Server\<close> are total by a measure.
  Capacities (4096 topics, ids, peers and principals, 1024 buffered messages, 256 acknowledgements, 16 dial slots, 16 MiB frames) are those of the source.

  \<^bold>\<open>Not modelled\<close>: the inside of rustls, SQLite, tokio and the CBOR crate (parameters); the command-line parsers, logging and the generator of completions; the
  scheduling of spawned tasks, whose steps the step relations take in any order; errors of the last write of the metrics endpoint; tests.

  \<^bold>\<open>Plan.\<close> Several links at once (a message that reaches a node on two paths), and the exchange of a client against \<open>connection_event_step\<close> of a node.
\<close>

section \<open>Publishing past the access lists\<close>

text \<open>What publishing writes: the registries of channels, the channels and the ids seen.\<close>

definition log_of :: "'s node \<Rightarrow> (topic, nat) hmap \<times> (topic_filter, nat) hmap \<times> heap \<times> seen_ids" where
  "log_of n = (let b = nd_broker n in (tm_map (br_topics b), tm_map (br_patterns b), br_channels b, br_seen b))"

lemma log_of_groups:
  "log_of (n\<lparr>nd_broker := broker_join_group f g tx ack (nd_broker n)\<rparr>) = log_of n"
  "log_of (n\<lparr>nd_broker := broker_leave_group f g tx (nd_broker n)\<rparr>) = log_of n"
  "log_of (n\<lparr>nd_broker := broker_ack_group_delivery f g i (nd_broker n)\<rparr>) = log_of n"
  by (simp_all add: log_of_def broker_join_group_def broker_leave_group_def broker_ack_group_delivery_def Let_def)

lemma log_of_broker: "nd_broker n' = nd_broker n \<Longrightarrow> log_of n' = log_of n"
  by (simp add: log_of_def)

lemma log_of_set_forwarders [simp]: "log_of (set_forwarders i fs n) = log_of n"
  by (auto intro!: log_of_broker simp: set_forwarders_def split: option.splits)

lemma log_of_stop [simp]: "log_of (stop_subscription f tx sub n) = log_of n"
  by (cases sub) (auto simp: log_of_groups abort_task_def intro: log_of_broker)

lemma log_of_remove: "remove_subscription cx f n = (had, n') \<Longrightarrow> log_of n' = log_of n"
  by (auto simp: remove_subscription_def Let_def split: option.splits)

lemma log_of_open: "open_subscription cx f ack grp durable p n = Returns (sub, n') \<Longrightarrow> log_of n' = log_of n"
  by (auto simp: open_subscription_def log_of_def broker_join_group_def spawn_task_def Let_def split: option.splits if_splits)

lemma log_of_insert: "subscribe_insert cx f ack grp durable p n = Returns (new, n') \<Longrightarrow> log_of n' = log_of n"
  by (auto simp: subscribe_insert_def Let_def dest: log_of_open split: if_splits outcome.splits)

lemma log_of_refuse: "subscribe_refuse rt cx e f n w = (ok, n', w') \<Longrightarrow> log_of n' = log_of n"
  by (auto simp: subscribe_refuse_def count_acl_rejection_def Let_def intro!: log_of_broker split: prod.splits)

lemma log_of_commit: "subscribe_commit rt cx e f new n w = (ok, n', w') \<Longrightarrow> log_of n' = log_of n"
  by (auto simp: subscribe_commit_def Let_def intro!: log_of_broker split: prod.splits if_splits)

lemma log_of_settle:
  assumes "subscribe_settle rt cx e f new n w = (ok, n', w')"
  shows "log_of n' = log_of n"
proof -
  have "log_of (snd (remove_subscription cx f n)) = log_of n" using log_of_remove [of cx f n] by (metis prod.collapse)
  then show ?thesis using assms by (auto simp: subscribe_settle_def dest: log_of_commit log_of_refuse split: if_splits)
qed

lemma log_of_subscribe:
  assumes "handle_subscribe rt cx e f ack grp durable n w = Returns (ok, n', w')"
  shows "log_of n' = log_of n"
proof -
  consider "n' = n" | "subscribe_refuse rt cx e f n w = (ok, n', w')"
    | new n1 where "subscribe_insert cx f ack grp durable (env_sender e) n = Returns (new, n1)" "subscribe_settle rt cx e f new n1 w = (ok, n', w')"
    using assms by (auto simp: handle_subscribe_def Let_def split: option.splits if_splits outcome.splits prod.splits)
  then show ?thesis
  proof cases
    case (3 new n1)
    show ?thesis by (simp add: log_of_settle [OF 3(2)] log_of_insert [OF 3(1)])
  qed (simp_all add: log_of_refuse)
qed

lemma log_of_unsubscribe: "handle_unsubscribe rt cx e f n w = (ok, n', w') \<Longrightarrow> log_of n' = log_of n"
  by (auto simp: handle_unsubscribe_def Let_def log_of_def dest!: log_of_remove split: prod.splits if_splits)

lemma log_of_ack: "log_of (handle_ack cx i n) = log_of n"
proof -
  have "log_of (ack_subscriptions i subs n) = log_of n" for subs
    by (induction i subs n rule: ack_subscriptions.induct)
      (auto simp: log_of_groups push_ack_def intro: log_of_broker split: option.splits)
  then show ?thesis by (simp add: handle_ack_def)
qed

lemma learn_loop_broker: "nd_broker (snd (learn_loop ps n)) = nd_broker n"
  by (induction ps arbitrary: n) (simp_all add: Let_def case_prod_beta)

lemma hold_link_broker: "hold_link rt p addr cx n w = (cx', n', w') \<Longrightarrow> nd_broker n' = nd_broker n"
  by (auto simp: hold_link_def register_peer_link_def Let_def split: prod.splits option.splits if_splits)

lemma log_of_hello: "handle_hello rt e addr cx n w = (ok, cx', n', w') \<Longrightarrow> log_of n' = log_of n"
  by (rule log_of_broker) (auto simp: handle_hello_def set_is_peer_def Let_def dest!: hold_link_broker split: prod.splits if_splits option.splits)

lemma log_of_learn: "learn_peers rt peers n w = (n', w') \<Longrightarrow> log_of n' = log_of n"
  using learn_loop_broker [of peers n] by (auto simp: learn_peers_def intro!: log_of_broker split: prod.splits if_splits)

lemma log_of_publish:
  assumes "handle_publish rt ops rnd cx e n w = Returns (ok, n', w')"
  shows "log_of n' = log_of n \<or> (\<exists>t p r ct rp ir. env_kind e = Publish t p r ct rp ir
    \<and> role_acl_permits (nd_topic_acl n) (nd_peer_topic_acl n) (is_peer cx) (cx_principal cx) t APublish
    \<and> fst (limiter_allows rt rnd cx n w) \<and> nd_broker n' = fst (snd (broker_publish rt ops t e (nd_broker n) w)))"
proof -
  have lim: "nd_broker (snd (limiter_allows rt rnd cx n w)) = nd_broker n"
    by (auto simp: limiter_allows_def Let_def split: option.splits prod.splits)
  then have log: "log_of (snd (limiter_allows rt rnd cx n w)) = log_of n" by (rule log_of_broker)
  show ?thesis
  proof (cases "env_kind e")
    case (Publish t p r ct rp ir)
    then show ?thesis using assms lim log
      by (cases "limiter_allows rt rnd cx n w")
        (auto simp: handle_publish_def count_acl_rejection_def log_of_def Let_def split: prod.splits if_splits)
  qed (use assms in \<open>simp_all add: handle_publish_def\<close>)
qed

lemma dispatch_log:
  assumes "dispatch rt ops rnd e cx n w = Returns (ok, cx', n', w')"
  shows "log_of n' = log_of n \<or> (\<exists>t p r ct rp ir. env_kind e = Publish t p r ct rp ir
    \<and> role_acl_permits (nd_topic_acl n) (nd_peer_topic_acl n) (is_peer cx) (cx_principal cx) t APublish
    \<and> fst (limiter_allows rt rnd cx n w) \<and> nd_broker n' = fst (snd (broker_publish rt ops t e (nd_broker n) w)))"
proof (cases "env_kind e")
  case (Publish t p r ct rp ir)
  then have "handle_publish rt ops rnd cx e n w = Returns (ok, n', w')"
    using assms by (auto simp: dispatch_def split: outcome.splits)
  from log_of_publish [OF this] show ?thesis .
qed (use assms in \<open>auto simp: dispatch_def log_of_ack
      dest: log_of_subscribe log_of_unsubscribe log_of_hello log_of_learn split: outcome.splits prod.splits\<close>)

text \<open>C2. Nothing reaches the channels of a node past its access lists. Whatever happens on a connection, the channels, their registries and the ids
  seen are unchanged, or it was the frame of a publish that the list for the connection's role permits its identity and that the rate limiter let through, and the broker
  published exactly this message, under the identity of the connection's certificate when it has one.\<close>

theorem only_permitted_publishes:
  assumes "connection_event_step rt ops rnd c ev cx n w = Returns (go, cx', n', w')"
  shows "log_of n' = log_of n
    \<or> (\<exists>bs e t p r ct rp ir. ev = FrameRead bs \<and> from_bytes c bs = Inr e \<and> env_kind e = Publish t p r ct rp ir
       \<and> role_acl_permits (nd_topic_acl n) (nd_peer_topic_acl n) (is_peer cx) (cx_principal cx) t APublish
       \<and> fst (limiter_allows rt rnd cx n w)
       \<and> nd_broker n' = fst (snd (broker_publish rt ops t (authenticated rt cx e) (nd_broker n) w))
       \<and> env_sender (authenticated rt cx e) = (case cx_peer_fingerprint cx of None \<Rightarrow> env_sender e | Some fp \<Rightarrow> peer_id_from_fingerprint rt fp))"
proof (cases ev)
  case (FrameRead bs)
  show ?thesis
  proof (cases "from_bytes c bs")
    case (Inr e)
    then have "dispatch rt ops rnd (authenticated rt cx e) cx n w = Returns (go, cx', n', w')" using assms FrameRead by simp
    from dispatch_log [OF this] show ?thesis using FrameRead Inr by (auto simp: authenticated_sender_def)
  qed (use assms FrameRead in simp)
qed (use assms in \<open>auto split: prod.splits\<close>)

theorem only_permitted_publishes_witness:
  "let e = example_publish 1; cx = fst (connect None 5 6 example_node);
       n = example_node\<lparr>nd_topic_acl := Some \<lparr>acl_entries = {}\<rparr>\<rparr>
   in \<exists>go cx' n' w'. connection_event_step world_rt (sqlite_message_store example_env) id (pair_codec e e) (FrameRead [0]) cx n world0
        = Returns (go, cx', n', w') \<and> log_of n' = log_of n"
proof -
  define e where "e = example_publish 1"
  define cx where "cx = fst (connect None 5 6 example_node)"
  define n where "n = example_node\<lparr>nd_topic_acl := Some \<lparr>acl_entries = {}\<rparr>\<rparr>"
  obtain go cx' n' w' where s: "connection_event_step world_rt (sqlite_message_store example_env) id (pair_codec e e) (FrameRead [0]) cx n world0
      = Returns (go, cx', n', w')"
    using frames_never_panic by (metis outcome.exhaust prod_cases4)
  have "\<not> role_acl_permits (nd_topic_acl n) acl (is_peer cx) (cx_principal cx) t a" for acl t a
    by (simp add: n_def cx_def role_acl_permits_def topic_acl_permits_def acl_permits_def connect_def is_peer_def Let_def case_prod_beta)
  with only_permitted_publishes [OF s] have "log_of n' = log_of n" by blast
  with s show ?thesis unfolding Let_def e_def [symmetric] cx_def [symmetric] n_def [symmetric] by blast
qed

end
